(* ===== verification/Prelude.thy ===== *)
theory Prelude
  imports Main "HOL-Library.Word" "HOL-Library.Product_Lexorder" "HOL-Library.List_Lexorder"
    "HOL-Library.Char_ord" "HOL-Library.AList"
begin

text \<open>
  What every component shares: the machine integers of the Rust source under their Rust
  names, the six-byte address type with the byte-wise order that arrays have in Rust, I/O
  errors as values, the collections of simplification rules, and generic facts on lists,
  partial maps and finite words that no single component owns.
\<close>

section \<open>Collections of rules\<close>

named_theorems byte_defs \<open>definitions of the wire-format layer\<close>
named_theorems topo_defs \<open>definitions of the interface graph\<close>
named_theorems note_defs \<open>definitions of the ownership notes\<close>
named_theorems sync_defs \<open>definitions of the reconciliation layer\<close>

section \<open>Machine integers and names\<close>

type_synonym u8 = "8 word"
type_synonym u16 = "16 word"
type_synonym u32 = "32 word"
type_synonym ifindex = "32 word"
type_synonym name = string

section \<open>Addresses\<close>

text \<open>\<open>pub type Mac = [u8; 6]\<close> of \<^verbatim>\<open>src/sync/mod.rs\<close>: six bytes, compared byte by byte from the front.\<close>

datatype mac = Mac u8 u8 u8 u8 u8 u8

primrec mac_bytes :: "mac \<Rightarrow> u8 list" where
  "mac_bytes (Mac a b c d e f) = [a, b, c, d, e, f]"

primrec mac_key :: "mac \<Rightarrow> u8 \<times> u8 \<times> u8 \<times> u8 \<times> u8 \<times> u8" where
  "mac_key (Mac a b c d e f) = (a, b, c, d, e, f)"

lemma mac_key_inject [simp]: "mac_key x = mac_key y \<longleftrightarrow> x = y"
  by (cases x; cases y) auto

lemma length_mac_bytes [simp]: "length (mac_bytes m) = 6"
  by (cases m) simp

instantiation mac :: linorder
begin

definition less_eq_mac :: "mac \<Rightarrow> mac \<Rightarrow> bool" where
  "less_eq_mac x y \<longleftrightarrow> mac_key x \<le> mac_key y"

definition less_mac :: "mac \<Rightarrow> mac \<Rightarrow> bool" where
  "less_mac x y \<longleftrightarrow> mac_key x < mac_key y"

instance
  by standard (auto simp: less_eq_mac_def less_mac_def simp flip: mac_key_inject)

end

text \<open>The six bytes of an address read out of a slice that is exactly six long.\<close>

definition mac_of_bytes :: "u8 list \<Rightarrow> mac option" where
  "mac_of_bytes bs = (case bs of [a, b, c, d, e, f] \<Rightarrow> Some (Mac a b c d e f) | _ \<Rightarrow> None)"

lemma mac_of_bytes_mac_bytes [simp]: "mac_of_bytes (mac_bytes m) = Some m"
  by (cases m) (simp add: mac_of_bytes_def)

lemma mac_of_bytes_SomeD: "mac_of_bytes bs = Some m \<Longrightarrow> bs = mac_bytes m"
  by (auto simp: mac_of_bytes_def split: list.splits)

section \<open>I/O errors\<close>

text \<open>
  \<open>io::Error\<close> as far as the code looks into one: \<open>raw_os_error()\<close> (\<open>Os n\<close>), or an error made
  by the program itself (\<open>Custom\<close>), which has no number.
\<close>

datatype io_error = Os nat | Custom

abbreviation ENOENT :: io_error where "ENOENT \<equiv> Os 2"
abbreviation EEXIST :: io_error where "EEXIST \<equiv> Os 17"
abbreviation ENODEV :: io_error where "ENODEV \<equiv> Os 19"
abbreviation EINTR :: io_error where "EINTR \<equiv> Os 4"
abbreviation EAGAIN :: io_error where "EAGAIN \<equiv> Os 11"

section \<open>Lists\<close>

lemma take_while_suffix: "takeWhile P xs @ dropWhile P xs = xs"
  by simp

lemma set_removeAll_Diff: "set (filter (\<lambda>x. x \<notin> A) xs) = set xs - A"
  by auto

lemma foldr_insert_set: "foldr insert xs A = set xs \<union> A"
  by (induction xs) auto

lemma fold_insert_set: "fold insert xs A = set xs \<union> A"
  by (induction xs arbitrary: A) auto

lemma set_map_filter_eq: "set (List.map_filter f xs) = {y. \<exists>x \<in> set xs. f x = Some y}"
  by (force simp: List.map_filter_def)

section \<open>Worklists over a finite node type\<close>

text \<open>
  The walks over the interface graph keep a set of seen indices; an index is a 32-bit word,
  so the set of unseen ones shrinks with every new index. This is the one fact behind the
  termination of all of them.
\<close>

definition unseen :: "'n::finite set \<Rightarrow> nat" where
  "unseen seen = card (UNIV - seen)"

lemma unseen_insert [simp]:
  assumes "x \<notin> seen"
  shows "unseen (insert x seen) < unseen seen"
  unfolding unseen_def
proof (rule psubset_card_mono)
  show "finite (UNIV - seen)" by simp
  show "UNIV - insert x seen \<subset> UNIV - seen" using assms by auto
qed

end
