(* ===== verification/Netlink.thy ===== *)
theory Netlink
  imports Text
begin

text \<open>
  \<^verbatim>\<open>src/netlink.rs\<close>: the wire format of rtnetlink. Messages and attributes are walked out of
  byte lists, forwarding entries, links and virtual functions are read from them, requests are
  built, and notifications are collected into a batch. A \<open>u8\<close> slice is a list of bytes; every
  slice expression of the source stands behind the length check the source makes. Integers on
  the wire are in host order; both architectures the program is built for are little-endian,
  and so is the model. The socket itself (system calls, deadlines, buffer growth) is not here.
\<close>

section \<open>Constants\<close>

abbreviation RTM_NEWNEIGH :: u16 where "RTM_NEWNEIGH \<equiv> 28"
abbreviation RTM_DELNEIGH :: u16 where "RTM_DELNEIGH \<equiv> 29"
abbreviation RTM_GETNEIGH :: u16 where "RTM_GETNEIGH \<equiv> 30"
abbreviation RTM_NEWLINK :: u16 where "RTM_NEWLINK \<equiv> 16"
abbreviation RTM_DELLINK :: u16 where "RTM_DELLINK \<equiv> 17"
abbreviation RTM_GETLINK :: u16 where "RTM_GETLINK \<equiv> 18"
abbreviation NLMSG_NOOP :: u16 where "NLMSG_NOOP \<equiv> 1"
abbreviation NLMSG_ERROR :: u16 where "NLMSG_ERROR \<equiv> 2"
abbreviation NLMSG_DONE :: u16 where "NLMSG_DONE \<equiv> 3"
abbreviation AF_BRIDGE :: u8 where "AF_BRIDGE \<equiv> 7"
abbreviation NTF_SELF :: u8 where "NTF_SELF \<equiv> 0x02"
abbreviation NTF_EXT_LEARNED :: u8 where "NTF_EXT_LEARNED \<equiv> 0x10"
abbreviation NUD_PERMANENT :: u16 where "NUD_PERMANENT \<equiv> 0x80"
abbreviation NUD_NOARP :: u16 where "NUD_NOARP \<equiv> 0x40"

abbreviation NLMSG_HDR :: nat where "NLMSG_HDR \<equiv> 16"
abbreviation NDMSG_LEN :: nat where "NDMSG_LEN \<equiv> 12"
abbreviation IFINFOMSG_LEN :: nat where "IFINFOMSG_LEN \<equiv> 16"
abbreviation RTATTR_HDR :: nat where "RTATTR_HDR \<equiv> 4"

definition align4 :: "nat \<Rightarrow> nat" where
  "align4 n = 4 * ((n + 3) div 4)"

lemma align4_ge: "n \<le> align4 n"
  unfolding align4_def by presburger

lemma align4_le: "align4 n \<le> n + 3"
  unfolding align4_def by presburger

lemma align4_add_multiple: "n mod 4 = 0 \<Longrightarrow> align4 n = n"
  unfolding align4_def by presburger

section \<open>Forwarding entries\<close>

text \<open>\<open>struct FdbEntry\<close> and its three questions.\<close>

record fdb_entry =
  fe_ifindex :: ifindex
  fe_master :: "ifindex option"
  fe_mac :: mac
  fe_state :: u16
  fe_flags :: u8

text \<open>A multicast address has the lowest bit of its first byte set.\<close>

primrec mac_first :: "mac \<Rightarrow> u8" where
  "mac_first (Mac a b c d e f) = a"

definition is_learned :: "fdb_entry \<Rightarrow> bool" where
  "is_learned e =
     (if and (fe_flags e) NTF_SELF \<noteq> 0 \<or> and (fe_state e) NUD_PERMANENT \<noteq> 0 then False
      else if and (fe_flags e) NTF_EXT_LEARNED \<noteq> 0 then True
      else and (fe_state e) NUD_NOARP = 0)"

definition is_self :: "fdb_entry \<Rightarrow> bool" where
  "is_self e \<longleftrightarrow> and (fe_flags e) NTF_SELF \<noteq> 0"

definition is_unicast :: "fdb_entry \<Rightarrow> bool" where
  "is_unicast e \<longleftrightarrow> and (mac_first (fe_mac e)) 1 = 0"

lemma is_learned_not_self: "is_learned e \<Longrightarrow> \<not> is_self e"
  by (simp add: is_learned_def is_self_def split: if_splits)

section \<open>Integers in host order\<close>

definition u16_of :: "u8 list \<Rightarrow> u16" where
  "u16_of bs = of_nat (unat (bs ! 0) + 2 ^ 8 * unat (bs ! 1))"

definition u32_of :: "u8 list \<Rightarrow> u32" where
  "u32_of bs = of_nat (unat (bs ! 0) + 2 ^ 8 * unat (bs ! 1) + 2 ^ 16 * unat (bs ! 2) + 2 ^ 24 * unat (bs ! 3))"

definition bytes16 :: "u16 \<Rightarrow> u8 list" where
  "bytes16 w = [of_nat (unat w), of_nat (unat w div 2 ^ 8)]"

definition bytes32 :: "u32 \<Rightarrow> u8 list" where
  "bytes32 w = [of_nat (unat w), of_nat (unat w div 2 ^ 8), of_nat (unat w div 2 ^ 16), of_nat (unat w div 2 ^ 24)]"

text \<open>The bytes \<open>[off, off + n)\<close> of a buffer, for callers that checked its length.\<close>

definition slice :: "nat \<Rightarrow> nat \<Rightarrow> u8 list \<Rightarrow> u8 list" where
  "slice off n bs = take n (drop off bs)"

text \<open>\<open>i32::from_ne_bytes\<close>, two's complement.\<close>

definition i32_of :: "u8 list \<Rightarrow> int" where
  "i32_of bs = sint (u32_of bs)"

section \<open>Messages and attributes\<close>

record message =
  m_kind :: u16
  m_flags :: u16
  m_seq :: u32
  m_payload :: "u8 list"

text \<open>
  \<open>Messages::next\<close> until it answers \<open>None\<close>: the offset is where the suffix starts, and an
  offset past the end leaves nothing, as \<open>drop\<close> does.
\<close>

function messages :: "u8 list \<Rightarrow> message list" where
  "messages buf =
     (if length buf < NLMSG_HDR then []
      else
        let len = unat (u32_of (slice 0 4 buf)) in
        if len < NLMSG_HDR \<or> length buf < len then []
        else \<lparr>m_kind = u16_of (slice 4 2 buf), m_flags = u16_of (slice 6 2 buf),
              m_seq = u32_of (slice 8 4 buf), m_payload = slice NLMSG_HDR (len - NLMSG_HDR) buf\<rparr>
             # messages (drop (align4 len) buf))"
  by pat_completeness auto
termination
proof (relation "measure length", goal_cases)
  case 1
  show ?case by simp
next
  case (2 buf len)
  then have "0 < align4 len" "0 < length buf" using align4_ge [of len] by auto
  then show ?case by simp
qed

declare messages.simps [simp del]

text \<open>\<open>Attrs::next\<close>; the two top bits of the type are flags and are masked off.\<close>

function attrs :: "u8 list \<Rightarrow> (u16 \<times> u8 list) list" where
  "attrs buf =
     (if length buf < RTATTR_HDR then []
      else
        let len = unat (u16_of (slice 0 2 buf)) in
        if len < RTATTR_HDR \<or> length buf < len then []
        else (and (u16_of (slice 2 2 buf)) 0x3fff, slice RTATTR_HDR (len - RTATTR_HDR) buf)
             # attrs (drop (align4 len) buf))"
  by pat_completeness auto
termination
proof (relation "measure length", goal_cases)
  case 1
  show ?case by simp
next
  case (2 buf len)
  then have "0 < align4 len" "0 < length buf" using align4_ge [of len] by auto
  then show ?case by simp
qed

declare attrs.simps [simp del]

text \<open>
  \<open>nlmsg_error\<close>: zero is an acknowledgement, a payload too short to carry a code says nothing,
  and the magnitude saturates where negation would overflow.
\<close>

definition saturating_abs32 :: "int \<Rightarrow> int" where
  "saturating_abs32 c = (if c = - (2 ^ 31) then 2 ^ 31 - 1 else \<bar>c\<bar>)"

definition nlmsg_error :: "u8 list \<Rightarrow> io_error option" where
  "nlmsg_error payload =
     (if length payload < 4 then None
      else let code = i32_of (slice 0 4 payload) in
           if code = 0 then None else Some (Os (nat (saturating_abs32 code))))"

text \<open>\<open>attr_u32\<close> and \<open>attr_cstr\<close>.\<close>

definition attr_u32 :: "u8 list \<Rightarrow> u32 option" where
  "attr_u32 v = (if length v < 4 then None else Some (u32_of (slice 0 4 v)))"

definition chr_of_byte :: "u8 \<Rightarrow> char" where
  "chr_of_byte b = char_of (unat b)"

definition attr_cstr :: "u8 list \<Rightarrow> string" where
  "attr_cstr v = map chr_of_byte (takeWhile (\<lambda>b. b \<noteq> 0) v)"


section \<open>Reading bodies\<close>

text \<open>
  \<open>parse_fdb\<close>: a non-positive index is refused, an address of the wrong length costs only
  that attribute, and a body without an address is no entry.
\<close>

definition fdb_attr :: "mac option \<times> ifindex option \<Rightarrow> u16 \<times> u8 list \<Rightarrow> mac option \<times> ifindex option" where
  "fdb_attr acc kv =
     (case acc of (mac, master) \<Rightarrow> case kv of (kind, value) \<Rightarrow>
        if kind = 2 \<and> length value = 6 then (mac_of_bytes value, master)
        else if kind = 9 \<and> length value = 4 then (mac, Some (u32_of value))
        else (mac, master))"

definition parse_fdb :: "u8 list \<Rightarrow> fdb_entry option" where
  "parse_fdb payload =
     (if length payload < NDMSG_LEN then None
      else if i32_of (slice 4 4 payload) \<le> 0 then None
      else case foldl fdb_attr (None, None) (attrs (drop NDMSG_LEN payload)) of
             (None, _) \<Rightarrow> None
           | (Some mac, master) \<Rightarrow>
               Some \<lparr>fe_ifindex = u32_of (slice 4 4 payload), fe_master = master, fe_mac = mac,
                     fe_state = u16_of (slice 8 2 payload), fe_flags = payload ! 10\<rparr>)"

text \<open>\<open>struct LinkInfo\<close> and \<open>parse_link\<close>.\<close>

record link_info =
  li_index :: ifindex
  li_name :: name
  li_mac :: "mac option"
  li_master :: "ifindex option"
  li_link :: "ifindex option"
  li_kind :: "string option"
  li_ageing :: "u32 option"
  li_parent_dev :: "string option"

definition empty_link_info :: link_info where
  "empty_link_info =
     \<lparr>li_index = 0, li_name = [], li_mac = None, li_master = None, li_link = None,
      li_kind = None, li_ageing = None, li_parent_dev = None\<rparr>"

definition info_data_attr :: "link_info \<Rightarrow> u16 \<times> u8 list \<Rightarrow> link_info" where
  "info_data_attr out kv =
     (case kv of (inner, iv) \<Rightarrow>
        if inner = 4
        then out\<lparr>li_ageing := (case attr_u32 iv of Some a \<Rightarrow> Some a | None \<Rightarrow> li_ageing out)\<rparr>
        else out)"

definition linkinfo_attr :: "link_info \<Rightarrow> u16 \<times> u8 list \<Rightarrow> link_info" where
  "linkinfo_attr out kv =
     (case kv of (nested, v) \<Rightarrow>
        if nested = 1 then out\<lparr>li_kind := Some (attr_cstr v)\<rparr>
        else if nested = 2 then foldl info_data_attr out (attrs v)
        else out)"

definition link_attr :: "link_info \<times> bool \<Rightarrow> u16 \<times> u8 list \<Rightarrow> link_info \<times> bool" where
  "link_attr acc kv =
     (case acc of (out, foreign) \<Rightarrow> case kv of (kind, value) \<Rightarrow>
        if kind = 3 then (out\<lparr>li_name := attr_cstr value\<rparr>, foreign)
        else if kind = 1 \<and> length value = 6 then (out\<lparr>li_mac := mac_of_bytes value\<rparr>, foreign)
        else if kind = 10 then (out\<lparr>li_master := attr_u32 value\<rparr>, foreign)
        else if kind = 5
          then (out\<lparr>li_link := (case attr_u32 value of None \<Rightarrow> None
                               | Some i \<Rightarrow> if i \<noteq> 0 then Some i else None)\<rparr>, foreign)
        else if kind = 37 then (out, True)
        else if kind = 56 then (out\<lparr>li_parent_dev := Some (attr_cstr value)\<rparr>, foreign)
        else if kind = 18 then (foldl linkinfo_attr out (attrs value), foreign)
        else (out, foreign))"

definition parse_link :: "u8 list \<Rightarrow> link_info option" where
  "parse_link payload =
     (if length payload < IFINFOMSG_LEN then None
      else if i32_of (slice 4 4 payload) \<le> 0 then None
      else
        let (out, foreign) =
              foldl link_attr (empty_link_info\<lparr>li_index := u32_of (slice 4 4 payload)\<rparr>, False)
                (attrs (drop IFINFOMSG_LEN payload));
            out = (if foreign then out\<lparr>li_link := None\<rparr> else out)
        in if li_name out = [] then None else Some out)"

text \<open>\<open>struct VfInfo\<close> and \<open>collect_vf_info\<close>: what one physical function says about its functions.\<close>

record vf_info =
  vi_pf :: ifindex
  vi_vf :: u32
  vi_mac :: mac
  vi_trusted :: "bool option"

definition vf_attr ::
    "ifindex \<Rightarrow> vf_info option \<times> bool option \<Rightarrow> u16 \<times> u8 list \<Rightarrow> vf_info option \<times> bool option" where
  "vf_attr pf acc kv =
     (case acc of (found, trusted) \<Rightarrow> case kv of (kind, attr) \<Rightarrow>
        ((if kind = 1 \<and> 10 \<le> length attr
          then map_option (\<lambda>m. \<lparr>vi_pf = pf, vi_vf = (case attr_u32 attr of Some n \<Rightarrow> n | None \<Rightarrow> 0),
                                vi_mac = m, vi_trusted = None\<rparr>)
                 (mac_of_bytes (slice 4 6 attr))
          else found),
         (if kind = 9 \<and> 8 \<le> length attr
          then map_option (\<lambda>v. v \<noteq> 0) (attr_u32 (drop 4 attr))
          else trusted)))"

definition vf_nest :: "ifindex \<Rightarrow> vf_info list \<Rightarrow> u16 \<times> u8 list \<Rightarrow> vf_info list" where
  "vf_nest pf out kv =
     (case kv of (kind, info) \<Rightarrow>
        if kind \<noteq> 1 then out
        else case foldl (vf_attr pf) (None, None) (attrs info) of
               (None, _) \<Rightarrow> out
             | (Some vf, trusted) \<Rightarrow> out @ [vf\<lparr>vi_trusted := trusted\<rparr>])"

definition collect_vf_info :: "u8 list \<Rightarrow> vf_info list \<Rightarrow> vf_info list" where
  "collect_vf_info payload out =
     (if length payload < IFINFOMSG_LEN then out
      else if i32_of (slice 4 4 payload) \<le> 0 then out
      else
        let pf = u32_of (slice 4 4 payload) in
        foldl (\<lambda>out kv. case kv of (kind, value) \<Rightarrow>
                 if kind \<noteq> 22 then out else foldl (vf_nest pf) out (attrs value))
          out (attrs (drop IFINFOMSG_LEN payload)))"

section \<open>Notifications\<close>

text \<open>\<open>struct Events\<close>, \<open>collect_events\<close> and the bounded drain \<open>events_from\<close>.\<close>

record events =
  ev_fdb :: "(u16 \<times> fdb_entry) list"
  ev_links_changed :: bool
  ev_changed_links :: "ifindex list"

definition no_events :: events where
  "no_events = \<lparr>ev_fdb = [], ev_links_changed = False, ev_changed_links = []\<rparr>"

definition collect_message :: "events \<Rightarrow> message \<Rightarrow> events" where
  "collect_message out msg =
     (if m_kind msg = RTM_NEWLINK \<or> m_kind msg = RTM_DELLINK then
        let out = out\<lparr>ev_links_changed := True\<rparr> in
        if IFINFOMSG_LEN \<le> length (m_payload msg) \<and> 0 < i32_of (slice 4 4 (m_payload msg))
        then out\<lparr>ev_changed_links := ev_changed_links out @ [u32_of (slice 4 4 (m_payload msg))]\<rparr>
        else out
      else if m_kind msg \<noteq> RTM_NEWNEIGH \<and> m_kind msg \<noteq> RTM_DELNEIGH then out
      else if (case m_payload msg of [] \<Rightarrow> True | b # _ \<Rightarrow> b \<noteq> AF_BRIDGE) then out
      else case parse_fdb (m_payload msg) of
             None \<Rightarrow> out
           | Some e \<Rightarrow> out\<lparr>ev_fdb := ev_fdb out @ [(m_kind msg, e)]\<rparr>)"

definition collect_events :: "events \<Rightarrow> u8 list \<Rightarrow> events" where
  "collect_events out datagram = foldl collect_message out (messages datagram)"

text \<open>What one non-blocking receive may answer.\<close>

datatype received = Datagram "u8 list" | WouldBlock | RecvError io_error

fun events_from :: "nat \<Rightarrow> nat \<Rightarrow> events \<Rightarrow> received list \<Rightarrow> io_error + events" where
  "events_from buflen 0 out rs = Inr out"
| "events_from buflen (Suc k) out [] = Inr out"
| "events_from buflen (Suc k) out (WouldBlock # rs) = Inr out"
| "events_from buflen (Suc k) out (RecvError e # rs) = Inl e"
| "events_from buflen (Suc k) out (Datagram d # rs) =
     (if buflen < length d then Inl Custom
      else events_from buflen k (collect_events out d) rs)"

abbreviation DRAIN_CAP :: nat where "DRAIN_CAP \<equiv> 256"

section \<open>Dumps and acknowledgements\<close>

text \<open>
  \<open>run_dump\<close> over the datagrams the kernel sends for one question. The messages of one datagram
  are judged in order; \<open>None\<close> asks for the next datagram. No further datagram is the deadline.
\<close>

datatype dump_end = Dump_Done | Dump_Interrupted | Dump_TooBig nat

fun dump_messages ::
    "u16 \<Rightarrow> u32 \<Rightarrow> message list \<Rightarrow> u8 list list \<Rightarrow> u8 list list \<times> (io_error + dump_end) option" where
  "dump_messages want seq [] acc = (acc, None)"
| "dump_messages want seq (msg # ms) acc =
     (if m_seq msg \<noteq> seq then dump_messages want seq ms acc
      else if and (m_flags msg) 0x10 \<noteq> 0 then (acc, Some (Inr Dump_Interrupted))
      else if m_kind msg = NLMSG_DONE then
        (case nlmsg_error (m_payload msg) of
           Some e \<Rightarrow> (acc, Some (Inl e))
         | None \<Rightarrow> (acc, Some (Inr Dump_Done)))
      else if m_kind msg = NLMSG_ERROR then
        (acc, Some (Inl (case nlmsg_error (m_payload msg) of Some e \<Rightarrow> e | None \<Rightarrow> Custom)))
      else if m_kind msg = NLMSG_NOOP then dump_messages want seq ms acc
      else if m_kind msg = want then dump_messages want seq ms (acc @ [m_payload msg])
      else dump_messages want seq ms acc)"

fun run_dump ::
    "nat \<Rightarrow> u16 \<Rightarrow> u32 \<Rightarrow> u8 list list \<Rightarrow> u8 list list \<Rightarrow> u8 list list \<times> (io_error + dump_end)" where
  "run_dump buflen want seq [] acc = (acc, Inl Custom)"
| "run_dump buflen want seq (d # ds) acc =
     (if buflen < length d then (acc, Inr (Dump_TooBig (length d)))
      else case dump_messages want seq (messages d) acc of
             (acc, Some r) \<Rightarrow> (acc, r)
           | (acc, None) \<Rightarrow> run_dump buflen want seq ds acc)"

text \<open>
  \<open>dump_into\<close>: up to \<open>ATTEMPTS\<close> attempts, each under a fresh sequence number, the collected
  answer cleared before each; \<open>answers k\<close> is what the kernel sends to the attempt whose number
  is \<open>k\<close>. A datagram that did not fit grows the buffer to the next power of two, up to the ceiling.
\<close>

abbreviation CEILING :: nat where "CEILING \<equiv> 64 * 1024 * 1024"
abbreviation ATTEMPTS :: nat where "ATTEMPTS \<equiv> 8"

fun pow2_from :: "nat \<Rightarrow> nat \<Rightarrow> nat \<Rightarrow> nat" where
  "pow2_from 0 p n = p"
| "pow2_from (Suc k) p n = (if n \<le> p then p else pow2_from k (2 * p) n)"

definition next_power_of_two :: "nat \<Rightarrow> nat" where
  "next_power_of_two n = pow2_from 64 1 n"

fun dump_into ::
    "nat \<Rightarrow> nat \<Rightarrow> u16 \<Rightarrow> u32 \<Rightarrow> (u32 \<Rightarrow> u8 list list) \<Rightarrow> (io_error + u8 list list) \<times> nat \<times> u32" where
  "dump_into 0 buflen want seq answers = (Inl Custom, buflen, seq)"
| "dump_into (Suc k) buflen want seq answers =
     (let seq = seq + 1 in
      case run_dump buflen want seq (answers seq) [] of
        (out, Inr Dump_Done) \<Rightarrow> (Inr out, buflen, seq)
      | (out, Inr Dump_Interrupted) \<Rightarrow> dump_into k buflen want seq answers
      | (out, Inr (Dump_TooBig need)) \<Rightarrow>
          (if CEILING < need then (Inl Custom, buflen, seq)
           else dump_into k (min (next_power_of_two need) CEILING) want seq answers)
      | (out, Inl e) \<Rightarrow> (Inl e, buflen, seq))"

text \<open>
  The acknowledgement loop of \<open>set_self_fdb\<close> on the messages of one datagram: \<open>None\<close> reads on,
  \<open>Some None\<close> is success.
\<close>

fun ack_in :: "u32 \<Rightarrow> message list \<Rightarrow> io_error option option" where
  "ack_in seq [] = None"
| "ack_in seq (msg # ms) =
     (if m_seq msg \<noteq> seq then ack_in seq ms
      else if m_kind msg = NLMSG_ERROR then
        (if length (m_payload msg) < 4 then Some (Some Custom)
         else Some (nlmsg_error (m_payload msg)))
      else ack_in seq ms)"

text \<open>\<open>request_one_into\<close> on the messages of one datagram: the answer's payload, if it carries one.\<close>

fun one_answer :: "u16 \<Rightarrow> u32 \<Rightarrow> message list \<Rightarrow> (io_error + u8 list option) option" where
  "one_answer want seq [] = None"
| "one_answer want seq (msg # ms) =
     (if m_seq msg \<noteq> seq then one_answer want seq ms
      else if m_kind msg = NLMSG_ERROR \<or> m_kind msg = NLMSG_DONE then
        (case nlmsg_error (m_payload msg) of Some e \<Rightarrow> Some (Inl e) | None \<Rightarrow> Some (Inr None))
      else if m_kind msg = NLMSG_NOOP then one_answer want seq ms
      else if m_kind msg = want then Some (Inr (Some (m_payload msg)))
      else one_answer want seq ms)"

section \<open>Requests\<close>

definition put_nlmsghdr :: "u32 \<Rightarrow> u16 \<Rightarrow> u16 \<Rightarrow> u32 \<Rightarrow> u8 list" where
  "put_nlmsghdr len kind flags seq =
     bytes32 len @ bytes16 kind @ bytes16 flags @ bytes32 seq @ bytes32 0"

text \<open>\<open>put_attr\<close> panics on a value whose length does not fit its own field: \<open>None\<close>.\<close>

definition put_attr :: "u16 \<Rightarrow> u8 list \<Rightarrow> u8 list option" where
  "put_attr kind value =
     (let len = RTATTR_HDR + length value in
      if 65535 < len then None
      else Some (bytes16 (of_nat len) @ bytes16 kind @ value @ replicate (align4 len - len) 0))"

definition put_ifinfomsg :: "u8 \<Rightarrow> u32 \<Rightarrow> u8 list" where
  "put_ifinfomsg family index =
     [family, 0] @ bytes16 0 @ bytes32 index @ bytes32 0 @ bytes32 0"

definition link_dump_request :: "u8 list option" where
  "link_dump_request =
     map_option (\<lambda>a. put_nlmsghdr 40 RTM_GETLINK 0x301 0 @ put_ifinfomsg 0 0 @ a)
       (put_attr 29 (bytes32 8))"

definition fdb_of_request :: "ifindex \<Rightarrow> u8 list" where
  "fdb_of_request i = put_nlmsghdr 32 RTM_GETNEIGH 0x301 0 @ put_ifinfomsg AF_BRIDGE i"

definition vf_request :: "ifindex \<Rightarrow> u32 \<Rightarrow> u8 list option" where
  "vf_request i seq =
     map_option (\<lambda>a. put_nlmsghdr 40 RTM_GETLINK 0x001 seq @ put_ifinfomsg 0 i @ a)
       (put_attr 29 (bytes32 9))"

text \<open>The message \<open>set_self_fdb\<close> sends.\<close>

definition self_fdb_request :: "ifindex \<Rightarrow> mac \<Rightarrow> bool \<Rightarrow> u32 \<Rightarrow> u8 list option" where
  "self_fdb_request i m add seq =
     map_option
       (\<lambda>a. put_nlmsghdr 40 (if add then RTM_NEWNEIGH else RTM_DELNEIGH)
               (if add then 0x605 else 0x005) seq
             @ [AF_BRIDGE, 0] @ bytes16 0 @ bytes32 i @ bytes16 NUD_PERMANENT @ [NTF_SELF, 0] @ a)
       (put_attr 2 (mac_bytes m))"

section \<open>Addresses as text\<close>

definition hex_char :: "nat \<Rightarrow> char" where
  "hex_char d = char_of (if d < 10 then 48 + d else 87 + d)"

definition hex_val :: "char \<Rightarrow> nat option" where
  "hex_val c =
     (let n = of_char c :: nat in
      if 48 \<le> n \<and> n \<le> 57 then Some (n - 48)
      else if 97 \<le> n \<and> n \<le> 102 then Some (n - 87)
      else if 65 \<le> n \<and> n \<le> 70 then Some (n - 55)
      else None)"

definition format_byte :: "u8 \<Rightarrow> string" where
  "format_byte b = [hex_char (unat b div 16), hex_char (unat b mod 16)]"

definition format_mac :: "mac \<Rightarrow> string" where
  "format_mac m = join '':'' (map format_byte (mac_bytes m))"

definition parse_byte :: "string \<Rightarrow> u8 option" where
  "parse_byte part =
     (case part of
        [h, l] \<Rightarrow> (case (hex_val h, hex_val l) of (Some a, Some b) \<Rightarrow> Some (of_nat (16 * a + b)) | _ \<Rightarrow> None)
      | _ \<Rightarrow> None)"

fun parse_parts :: "u8 list \<Rightarrow> string list \<Rightarrow> mac option" where
  "parse_parts out [] = mac_of_bytes out"
| "parse_parts out (p # ps) =
     (if length out = 6 then None
      else case parse_byte p of None \<Rightarrow> None | Some b \<Rightarrow> parse_parts (out @ [b]) ps)"

definition parse_mac :: "string \<Rightarrow> mac option" where
  "parse_mac s = parse_parts [] (split_on (CHR '':'') s)"

end
