(* ===== verification/Topology.thy ===== *)
theory Topology
  imports Netlink
begin

text \<open>
  \<^verbatim>\<open>src/topology.rs\<close>: the interface graph. A \<open>Map<u32, Link>\<close> is an association list with distinct
  keys; its order stands for the hash order, which no result depends on. The walks are worklist
  loops with a set of seen indices, as in the source: a Rust \<open>Vec\<close> used as a stack is kept with
  its top first. What \<open>/sys\<close> answers is a parameter of \<open>from_links\<close>.
\<close>

section \<open>Data\<close>

record link =
  l_name :: name
  l_index :: ifindex
  l_mac :: "mac option"
  l_master :: "ifindex option"
  l_lowers :: "ifindex list"
  l_filter_below :: "ifindex option"
  l_is_bridge :: bool
  l_ageing_ms :: "nat option"
  l_numvfs :: nat
  l_driver :: "name option"
  l_physfn :: "ifindex option"
  l_is_vf :: bool
  l_vf_number :: "u32 option"
  l_pf_netdevs :: "ifindex list"
  l_vf_netdevs :: "ifindex list"
  l_uppers :: "ifindex list"
  l_slaves :: "ifindex list"

text \<open>\<open>Link::default()\<close>.\<close>

definition default_link :: link where
  "default_link =
     \<lparr>l_name = [], l_index = 0, l_mac = None, l_master = None, l_lowers = [], l_filter_below = None,
      l_is_bridge = False, l_ageing_ms = None, l_numvfs = 0, l_driver = None, l_physfn = None,
      l_is_vf = False, l_vf_number = None, l_pf_netdevs = [], l_vf_netdevs = [], l_uppers = [],
      l_slaves = []\<rparr>"

record reach =
  r_bridge :: ifindex
  r_uplink_ward :: "ifindex set"
  r_stacked_bridges :: "ifindex set"

datatype learn = Wire | Behind | NotOurs

record anatomy =
  a_dev :: ifindex
  a_bridge :: ifindex
  a_port :: ifindex
  a_card :: ifindex
  a_functions :: "ifindex list"
  a_siblings :: "ifindex list"

record topology =
  t_links :: "(ifindex \<times> link) list"
  t_by_name :: "name \<rightharpoonup> ifindex"
  t_bridge_order :: "ifindex list"

section \<open>Lookups\<close>

definition at :: "topology \<Rightarrow> ifindex \<Rightarrow> link option" where
  "at T i = map_of (t_links T) i"

definition index_of :: "topology \<Rightarrow> name \<Rightarrow> ifindex option" where
  "index_of T n = t_by_name T n"

definition get :: "topology \<Rightarrow> name \<Rightarrow> link option" where
  "get T n = (case t_by_name T n of None \<Rightarrow> None | Some i \<Rightarrow> at T i)"

definition name_of :: "topology \<Rightarrow> ifindex \<Rightarrow> name option" where
  "name_of T i = map_option l_name (at T i)"

definition is_bridge :: "topology \<Rightarrow> ifindex \<Rightarrow> bool" where
  "is_bridge T i = (case at T i of None \<Rightarrow> False | Some l \<Rightarrow> l_is_bridge l)"

definition bridges :: "topology \<Rightarrow> link list" where
  "bridges T = List.map_filter (at T) (t_bridge_order T)"

definition link_values :: "topology \<Rightarrow> link list" where
  "link_values T = map snd (t_links T)"

section \<open>Building a topology\<close>

text \<open>
  \<open>assemble\<close>: the inverse edges are collected while the links are still a list, then pushed onto
  the entries of the map; the bridges are put in name order once.
\<close>

definition link_edges :: "link \<Rightarrow> (ifindex \<times> ifindex \<times> bool) list" where
  "link_edges l =
     map (\<lambda>low. (low, l_index l, True)) (l_lowers l)
     @ (case l_master l of None \<Rightarrow> [] | Some m \<Rightarrow> [(m, l_index l, False)])"

definition push_edge ::
    "ifindex \<times> ifindex \<times> bool \<Rightarrow> (ifindex \<times> link) list \<Rightarrow> (ifindex \<times> link) list" where
  "push_edge e m =
     (case e of (to, other, is_upper) \<Rightarrow>
        AList.map_entry to
          (\<lambda>l. if is_upper then l\<lparr>l_uppers := l_uppers l @ [other]\<rparr>
               else l\<lparr>l_slaves := l_slaves l @ [other]\<rparr>) m)"

definition assemble :: "link list \<Rightarrow> (name \<rightharpoonup> ifindex) \<Rightarrow> topology" where
  "assemble links by_name =
     (let edges = concat (map link_edges links);
          m = fold (\<lambda>l m. AList.update (l_index l) l m) links [];
          m = fold push_edge edges m;
          order = sort (map (\<lambda>l. (l_name l, l_index l)) (filter l_is_bridge (map snd m)))
      in \<lparr>t_links = m, t_by_name = by_name, t_bridge_order = map snd order\<rparr>)"

section \<open>Walks\<close>

text \<open>\<open>flood\<close>: one walk over one kind of edge, roots included.\<close>

function flood_loop ::
    "topology \<Rightarrow> (link \<Rightarrow> ifindex list) \<Rightarrow> ifindex list \<Rightarrow> ifindex set \<Rightarrow> ifindex set" where
  "flood_loop T nxt [] seen = seen"
| "flood_loop T nxt (cur # stack) seen =
     (if cur \<in> seen then flood_loop T nxt stack seen
      else case at T cur of
             None \<Rightarrow> flood_loop T nxt stack (insert cur seen)
           | Some l \<Rightarrow> flood_loop T nxt (rev (nxt l) @ stack) (insert cur seen))"
  by pat_completeness auto
termination
  by (relation "measures [\<lambda>(T, nxt, stack, seen). unseen seen, \<lambda>(T, nxt, stack, seen). length stack]")
     auto

definition flood :: "topology \<Rightarrow> ifindex list \<Rightarrow> (link \<Rightarrow> ifindex list) \<Rightarrow> ifindex set" where
  "flood T roots nxt = flood_loop T nxt (rev roots) {}"

definition stacked_above :: "topology \<Rightarrow> ifindex \<Rightarrow> ifindex set" where
  "stacked_above T root = flood T [root] l_uppers"

definition subtree_of :: "topology \<Rightarrow> ifindex list \<Rightarrow> ifindex set" where
  "subtree_of T roots = flood T roots l_lowers"

text \<open>\<open>leads_to\<close>: the target ends the walk when it is met as a lower, before it is pushed.\<close>

function leads_loop ::
    "topology \<Rightarrow> ifindex \<Rightarrow> ifindex list \<Rightarrow> ifindex set \<Rightarrow> bool" where
  "leads_loop T target [] seen = False"
| "leads_loop T target (cur # stack) seen =
     (if cur \<in> seen then leads_loop T target stack seen
      else case at T cur of
             None \<Rightarrow> leads_loop T target stack (insert cur seen)
           | Some l \<Rightarrow>
               if target \<in> set (l_lowers l) then True
               else leads_loop T target (rev (l_lowers l) @ stack) (insert cur seen))"
  by pat_completeness auto
termination
  by (relation "measures [\<lambda>(T, target, stack, seen). unseen seen, \<lambda>(T, target, stack, seen). length stack]")
     auto

definition leads_to :: "topology \<Rightarrow> ifindex \<Rightarrow> ifindex \<Rightarrow> bool" where
  "leads_to T dev target = (if dev = target then True else leads_loop T target [dev] {})"

text \<open>\<open>filter_carrier\<close>: down the VLAN stack to the first interface that holds a filter.\<close>

function carrier_loop :: "topology \<Rightarrow> ifindex \<Rightarrow> ifindex set \<Rightarrow> ifindex" where
  "carrier_loop T cur seen =
     (if cur \<in> seen then cur
      else case at T cur of
             None \<Rightarrow> cur
           | Some l \<Rightarrow> (case l_filter_below l of
                          None \<Rightarrow> cur
                        | Some parent \<Rightarrow> carrier_loop T parent (insert cur seen)))"
  by pat_completeness auto
termination
  by (relation "measure (\<lambda>(T, cur, seen). unseen seen)") auto

declare carrier_loop.simps [simp del]

definition filter_carrier :: "topology \<Rightarrow> ifindex \<Rightarrow> ifindex" where
  "filter_carrier T dev = carrier_loop T dev {}"

text \<open>
  \<open>physical_functions\<close>: a virtual function names its PF netdevs, a PF is its own, a bond is its
  members'; a bridge is not looked through.
\<close>

function pf_loop ::
    "topology \<Rightarrow> ifindex list \<Rightarrow> ifindex set \<Rightarrow> ifindex list \<Rightarrow> ifindex list" where
  "pf_loop T [] seen out = out"
| "pf_loop T (cur # stack) seen out =
     (if cur \<in> seen then pf_loop T stack seen out
      else case at T cur of
             None \<Rightarrow> pf_loop T stack (insert cur seen) out
           | Some l \<Rightarrow>
               if l_pf_netdevs l \<noteq> [] then pf_loop T stack (insert cur seen) (out @ l_pf_netdevs l)
               else if 0 < l_numvfs l then pf_loop T stack (insert cur seen) (out @ [cur])
               else if \<not> l_is_bridge l then
                 pf_loop T
                   ((case l_filter_below l of None \<Rightarrow> [] | Some p \<Rightarrow> [p]) @ rev (l_slaves l) @ stack)
                   (insert cur seen) out
               else pf_loop T stack (insert cur seen) out)"
  by pat_completeness auto
termination
  by (relation "measures [\<lambda>(T, stack, seen, out). unseen seen, \<lambda>(T, stack, seen, out). length stack]")
     auto

definition physical_functions :: "topology \<Rightarrow> ifindex \<Rightarrow> ifindex list" where
  "physical_functions T dev = remdups_adj (sort (pf_loop T [dev] {} []))"

text \<open>\<open>bridge_above\<close>: up the master chain to a bridge, with the interface enslaved to it.\<close>

function bridge_loop ::
    "topology \<Rightarrow> ifindex \<Rightarrow> ifindex set \<Rightarrow> (ifindex \<times> ifindex) option" where
  "bridge_loop T cur seen =
     (if cur \<in> seen then None
      else case at T cur of
             None \<Rightarrow> None
           | Some l \<Rightarrow> (case l_master l of
                          None \<Rightarrow> None
                        | Some m \<Rightarrow> if is_bridge T m then Some (m, cur)
                                    else bridge_loop T m (insert cur seen)))"
  by pat_completeness auto
termination
  by (relation "measure (\<lambda>(T, cur, seen). unseen seen)") auto

declare bridge_loop.simps [simp del]

definition bridge_above :: "topology \<Rightarrow> ifindex \<Rightarrow> (ifindex \<times> ifindex) option" where
  "bridge_above T dev = bridge_loop T dev {}"

definition uplink_port :: "topology \<Rightarrow> ifindex \<Rightarrow> ifindex \<Rightarrow> ifindex option" where
  "uplink_port T dev bridge =
     (case bridge_above T dev of
        Some (br, port) \<Rightarrow> if br = bridge then Some port else None
      | None \<Rightarrow> None)"

text \<open>\<open>subtree_macs\<close>: the addresses at or below an interface.\<close>

definition subtree_macs :: "topology \<Rightarrow> ifindex \<Rightarrow> mac set" where
  "subtree_macs T dev =
     Option.these ((\<lambda>i. case at T i of None \<Rightarrow> None | Some l \<Rightarrow> l_mac l) ` subtree_of T [dev])"

section \<open>Reach and anatomy\<close>

definition reach_of :: "topology \<Rightarrow> ifindex \<Rightarrow> reach" where
  "reach_of T bridge =
     (let ward = stacked_above T bridge in
      \<lparr>r_bridge = bridge, r_uplink_ward = ward,
       r_stacked_bridges =
         set (map l_index
           (filter (\<lambda>b. l_index b \<noteq> bridge \<and> list_ex (\<lambda>p. p \<in> ward) (l_lowers b)) (bridges T)))\<rparr>)"

definition classify :: "reach \<Rightarrow> ifindex \<Rightarrow> ifindex \<Rightarrow> ifindex \<Rightarrow> learn" where
  "classify R i master port =
     (if master = r_bridge R then (if i = port then Wire else Behind)
      else if master \<in> r_stacked_bridges R \<and> i \<notin> r_uplink_ward R then Behind
      else NotOurs)"

definition reaches :: "reach \<Rightarrow> ifindex \<Rightarrow> bool" where
  "reaches R bridge \<longleftrightarrow> bridge = r_bridge R \<or> bridge \<in> r_stacked_bridges R"

definition anatomy_of :: "topology \<Rightarrow> ifindex \<Rightarrow> ifindex \<Rightarrow> anatomy option" where
  "anatomy_of T dev bridge =
     (case uplink_port T dev bridge of
        None \<Rightarrow> None
      | Some port \<Rightarrow>
          let card = filter_carrier T dev;
              functions = physical_functions T card;
              R = reach_of T bridge;
              siblings =
                map l_index
                  (filter (\<lambda>l. list_ex (\<lambda>f. f \<in> set functions)
                                 (physical_functions T (filter_carrier T (l_index l))))
                    (filter (\<lambda>l. l_master l = Some bridge
                               \<or> (case l_master l of None \<Rightarrow> False | Some m \<Rightarrow> m \<in> r_stacked_bridges R))
                      (filter (\<lambda>l. l_index l \<noteq> port \<and> l_index l \<noteq> dev) (link_values T))))
          in Some \<lparr>a_dev = dev, a_bridge = bridge, a_port = port, a_card = card,
                   a_functions = functions, a_siblings = sort siblings\<rparr>)"

section \<open>Autodetection\<close>

definition could_be_uplink :: "topology \<Rightarrow> link \<Rightarrow> bool" where
  "could_be_uplink T l =
     (if 0 < l_numvfs l \<or> l_pf_netdevs l \<noteq> [] then True
      else l_filter_below l \<noteq> None \<and> physical_functions T (filter_carrier T (l_index l)) \<noteq> [])"

definition stacked_related :: "topology \<Rightarrow> ifindex \<Rightarrow> ifindex \<Rightarrow> bool" where
  "stacked_related T a b \<longleftrightarrow>
     a = b \<or> b \<in> r_stacked_bridges (reach_of T a) \<or> a \<in> r_stacked_bridges (reach_of T b)"

text \<open>
  One candidate of \<open>autodetect\<close>: the pair it becomes, or nothing. The reasons the code prints
  for what it skips are kept as values rather than as sentences.
\<close>

datatype skip_reason =
    NotInBridge name nat
  | PfCarries name name name
  | FunctionTaken name name name
  | ReachesThrough name name name

record detection =
  d_pairs :: "(name \<times> name) list"
  d_taken :: "(ifindex list \<times> ifindex \<times> name) list"
  d_skipped :: "skip_reason list"

definition name_or_empty :: "topology \<Rightarrow> ifindex \<Rightarrow> name" where
  "name_or_empty T i = (case name_of T i of None \<Rightarrow> [] | Some n \<Rightarrow> n)"

definition detect_step :: "topology \<Rightarrow> link \<Rightarrow> detection \<Rightarrow> detection" where
  "detect_step T l D =
     (if \<not> could_be_uplink T l then D
      else case bridge_above T (l_index l) of
        None \<Rightarrow> (if 0 < l_numvfs l
                 then D\<lparr>d_skipped := d_skipped D @ [NotInBridge (l_name l) (l_numvfs l)]\<rparr> else D)
      | Some (br, port) \<Rightarrow>
          (case anatomy_of T (l_index l) br of
             None \<Rightarrow> D
           | Some an \<Rightarrow>
               let br_name = name_or_empty T br in
               case find (\<lambda>pf. pf \<noteq> l_index l
                            \<and> (case bridge_above T pf of None \<Rightarrow> False
                               | Some (b, _) \<Rightarrow> stacked_related T b br)) (a_functions an) of
                 Some pf \<Rightarrow>
                   D\<lparr>d_skipped := d_skipped D @ [PfCarries (l_name l) (name_or_empty T pf) br_name]\<rparr>
               | None \<Rightarrow>
                   (case find (\<lambda>(f, b, _). stacked_related T b br
                                 \<and> list_ex (\<lambda>x. x \<in> set (a_functions an)) f) (d_taken D) of
                      Some (_, _, by) \<Rightarrow>
                        D\<lparr>d_skipped := d_skipped D @ [FunctionTaken (l_name l) by br_name]\<rparr>
                    | None \<Rightarrow>
                        D\<lparr>d_skipped := d_skipped D @
                            (if port \<noteq> l_index l
                             then [ReachesThrough (l_name l) br_name (name_or_empty T port)] else []),
                          d_taken := d_taken D @ [(a_functions an, br, l_name l)],
                          d_pairs := d_pairs D @ [(l_name l, br_name)]\<rparr>)))"

definition autodetect :: "topology \<Rightarrow> (name \<times> name) list \<times> skip_reason list" where
  "autodetect T =
     (let D = fold (detect_step T) (sort_key l_name (link_values T))
                \<lparr>d_pairs = [], d_taken = [], d_skipped = []\<rparr>
      in (d_pairs D, d_skipped D))"

section \<open>From a link dump\<close>

text \<open>
  What \<open>/sys/class/net\<close> answers, by interface name: whether \<open>device/\<close> is a directory, the
  index it answers for before and after the reads, the VF count, and the facts that cannot
  change while an index lives.
\<close>

record device_facts =
  df_driver :: "name option"
  df_pf_netdevs :: "name list"
  df_is_vf :: bool
  df_vf_number :: "u32 option"

definition default_facts :: device_facts where
  "default_facts = \<lparr>df_driver = None, df_pf_netdevs = [], df_is_vf = False, df_vf_number = None\<rparr>"

record sysfs =
  sy_device_dir :: "name \<Rightarrow> bool"
  sy_ifindex :: "name \<Rightarrow> ifindex option"
  sy_ifindex_after :: "name \<Rightarrow> ifindex option"
  sy_numvfs :: "name \<Rightarrow> nat option"
  sy_facts :: "name \<Rightarrow> device_facts"

text \<open>\<open>device_facts\<close>: the per-index cache, re-read when the entry is stale or missing.\<close>

definition device_facts_of ::
    "ifindex \<Rightarrow> (device_facts \<Rightarrow> bool) \<Rightarrow> device_facts option \<Rightarrow> (ifindex \<rightharpoonup> device_facts)
     \<Rightarrow> device_facts option \<times> (ifindex \<rightharpoonup> device_facts)" where
  "device_facts_of i stale rd facts =
     (case facts i of
        Some f \<Rightarrow> if \<not> stale f then (Some f, facts)
                  else (case rd of None \<Rightarrow> (None, facts) | Some fresh \<Rightarrow> (Some fresh, facts(i \<mapsto> fresh)))
      | None \<Rightarrow> (case rd of None \<Rightarrow> (None, facts) | Some fresh \<Rightarrow> (Some fresh, facts(i \<mapsto> fresh))))"

definition STACKED_ON_PARENT :: "string list" where
  "STACKED_ON_PARENT =
     [''vlan'', ''macvlan'', ''macvtap'', ''ipvlan'', ''ipvtap'', ''macsec'', ''vxlan'']"

text \<open>One interface of the dump: what the dump itself says.\<close>

definition link_of_info :: "link_info \<Rightarrow> nat \<Rightarrow> link" where
  "link_of_info l numvfs =
     default_link\<lparr>l_name := li_name l, l_index := li_index l, l_mac := li_mac l,
       l_master := li_master l,
       l_lowers := (case (li_kind l, li_link l) of
                      (Some k, Some parent) \<Rightarrow> if k \<in> set STACKED_ON_PARENT then [parent] else []
                    | _ \<Rightarrow> []),
       l_filter_below := (case (li_kind l, li_link l) of
                      (Some k, Some parent) \<Rightarrow> if k = ''vlan'' then Some parent else None
                    | _ \<Rightarrow> None),
       l_is_bridge := (li_kind l = Some ''bridge''),
       l_ageing_ms := map_option (\<lambda>c. unat c * 10) (li_ageing l),
       l_numvfs := numvfs\<rparr>"

text \<open>The same interface with what \<open>/sys\<close> adds, when a device stands behind it.\<close>

definition link_from_info ::
    "sysfs \<Rightarrow> bool \<Rightarrow> (name \<rightharpoonup> ifindex) \<Rightarrow> link_info \<Rightarrow> (ifindex \<rightharpoonup> device_facts)
     \<Rightarrow> link \<times> (ifindex \<rightharpoonup> device_facts)" where
  "link_from_info sy names_parents by_name l facts =
     (let probed = (if names_parents then li_parent_dev l \<noteq> None
                    else li_kind l = None \<and> sy_device_dir sy (li_name l));
          has_device = (probed \<and> sy_ifindex sy (li_name l) = Some (li_index l));
          base = link_of_info l
                   (if has_device then (case sy_numvfs sy (li_name l) of None \<Rightarrow> 0 | Some n \<Rightarrow> n) else 0)
      in if \<not> has_device then (base, facts)
         else
           let stale = (\<lambda>f. list_ex (\<lambda>n. by_name n = None) (df_pf_netdevs f)
                            \<or> (df_is_vf f \<and> df_pf_netdevs f = []));
               rd = (if sy_ifindex_after sy (li_name l) = Some (li_index l)
                     then Some (sy_facts sy (li_name l)) else None);
               (got, facts') = device_facts_of (li_index l) stale rd facts;
               f = (case got of None \<Rightarrow> default_facts | Some f \<Rightarrow> f);
               pfs = sort (List.map_filter by_name (df_pf_netdevs f))
           in (base\<lparr>l_driver := df_driver f, l_is_vf := df_is_vf f, l_vf_number := df_vf_number f,
                    l_pf_netdevs := pfs,
                    l_physfn := (case pfs of [] \<Rightarrow> None | p # _ \<Rightarrow> Some p)\<rparr>, facts'))"

fun links_from_infos ::
    "sysfs \<Rightarrow> bool \<Rightarrow> (name \<rightharpoonup> ifindex) \<Rightarrow> link_info list \<Rightarrow> (ifindex \<rightharpoonup> device_facts)
     \<Rightarrow> link list \<times> (ifindex \<rightharpoonup> device_facts)" where
  "links_from_infos sy np bn [] facts = ([], facts)"
| "links_from_infos sy np bn (l # ls) facts =
     (let (x, facts) = link_from_info sy np bn l facts;
          (xs, facts) = links_from_infos sy np bn ls facts
      in (x # xs, facts))"

text \<open>
  The inverse relations that \<open>from_links\<close> pushes onto its list: a master's ports become its
  lowers, a PF's virtual functions its \<open>vf_netdevs\<close>. \<open>at\<close> holds the last position of an index.
\<close>

definition last_position :: "link list \<Rightarrow> ifindex \<Rightarrow> nat option" where
  "last_position ls i =
     map_of (rev (zip (map l_index ls) [0..<length ls])) i"

definition push_at :: "(ifindex \<Rightarrow> nat option) \<Rightarrow> (ifindex \<Rightarrow> link \<Rightarrow> link) \<Rightarrow> ifindex \<times> ifindex
     \<Rightarrow> link list \<Rightarrow> link list" where
  "push_at pos upd e ls =
     (case pos (fst e) of None \<Rightarrow> ls | Some k \<Rightarrow> ls[k := upd (snd e) (ls ! k)])"

definition from_links ::
    "sysfs \<Rightarrow> link_info list \<Rightarrow> (ifindex \<rightharpoonup> device_facts) \<Rightarrow> topology \<times> (ifindex \<rightharpoonup> device_facts)" where
  "from_links sy infos facts =
     (let names_parents = list_ex (\<lambda>l. li_parent_dev l \<noteq> None) infos;
          by_name = fold (\<lambda>l m. m(li_name l \<mapsto> li_index l)) infos Map.empty;
          (out, facts) = links_from_infos sy names_parents by_name infos facts;
          pos = last_position out;
          ports = List.map_filter (\<lambda>l. map_option (\<lambda>m. (m, l_index l)) (l_master l)) out;
          out1 = fold (push_at pos (\<lambda>p l. l\<lparr>l_lowers := l_lowers l @ [p]\<rparr>)) ports out;
          vfs_of = concat (map (\<lambda>l. map (\<lambda>pf. (pf, l_index l)) (l_pf_netdevs l)) out1);
          out2 = fold (push_at pos (\<lambda>v l. l\<lparr>l_vf_netdevs := l_vf_netdevs l @ [v]\<rparr>)) vfs_of out1;
          out3 = map (\<lambda>l. l\<lparr>l_vf_netdevs := sort (l_vf_netdevs l)\<rparr>) out2
      in (assemble out3 by_name, facts))"

end
