(* ===== verification/Notes.thy ===== *)
theory Notes
  imports Netlink
begin

text \<open>
  \<^verbatim>\<open>src/sync/notes.rs\<close>: the ownership notes. The state directory is a list of files under the
  three kinds of path the code builds; a file has the identity a stat reports (inode, length,
  modification time), so the stat-checked copies in memory are modelled with it. What the
  operating system may refuse is a parameter (\<open>fs\<close>). Every operation runs under the note's
  lock in the source, so each is one step here; a second process acts between steps. The
  lock's own failure only sets a mark. Text printed for the operator is left out, the
  say-once marks it is guarded by are kept.
\<close>

section \<open>Say-once marks\<close>

record said =
  sd_unknown_vf :: "name set"
  sd_extra :: "name \<rightharpoonup> mac set"
  sd_over :: "name set"
  sd_tight :: "name set"
  sd_unreadable :: "name set"
  sd_lock :: "name set"
  sd_ports :: "name set"
  sd_index :: "name set"
  sd_reused :: "name set"

definition no_said :: said where
  "no_said = \<lparr>sd_unknown_vf = {}, sd_extra = Map.empty, sd_over = {}, sd_tight = {},
     sd_unreadable = {}, sd_lock = {}, sd_ports = {}, sd_index = {}, sd_reused = {}\<rparr>"

definition said_forget :: "said \<Rightarrow> name \<Rightarrow> said" where
  "said_forget S dev =
     \<lparr>sd_unknown_vf = sd_unknown_vf S - {dev}, sd_extra = (sd_extra S)(dev := None),
      sd_over = sd_over S - {dev}, sd_tight = sd_tight S - {dev},
      sd_unreadable = sd_unreadable S - {dev}, sd_lock = sd_lock S - {dev},
      sd_ports = sd_ports S - {dev}, sd_index = sd_index S - {dev}, sd_reused = sd_reused S - {dev}\<rparr>"

definition said_retire :: "said \<Rightarrow> name \<Rightarrow> said" where
  "said_retire S dev =
     S\<lparr>sd_unknown_vf := sd_unknown_vf S - {dev}, sd_extra := (sd_extra S)(dev := None),
       sd_over := sd_over S - {dev}, sd_tight := sd_tight S - {dev}\<rparr>"

definition set_rename :: "name \<Rightarrow> name \<Rightarrow> name set \<Rightarrow> name set" where
  "set_rename old new A = (if old \<in> A then insert new (A - {old}) else A)"

definition said_rename :: "said \<Rightarrow> name \<Rightarrow> name \<Rightarrow> said" where
  "said_rename S old new =
     \<lparr>sd_unknown_vf = set_rename old new (sd_unknown_vf S),
      sd_extra = (case sd_extra S old of None \<Rightarrow> sd_extra S
                  | Some v \<Rightarrow> (sd_extra S)(old := None, new \<mapsto> v)),
      sd_over = set_rename old new (sd_over S), sd_tight = set_rename old new (sd_tight S),
      sd_unreadable = set_rename old new (sd_unreadable S), sd_lock = set_rename old new (sd_lock S),
      sd_ports = set_rename old new (sd_ports S), sd_index = set_rename old new (sd_index S),
      sd_reused = set_rename old new (sd_reused S)\<rparr>"

section \<open>Files\<close>

datatype path = OwnedP name | IndexP name | PortsP name

record dfile =
  fl_text :: string
  fl_ino :: nat
  fl_mtime :: nat

record disk =
  dk_files :: "(path \<times> dfile) list"
  dk_next_ino :: nat
  dk_clock :: nat
  dk_now :: nat

text \<open>
  \<open>dk_clock\<close> is the coarse clock the file system stamps modification times with, \<open>dk_now\<close> the
  finer one \<open>SystemTime::now\<close> reads. What a stat reports: inode, length, modification time.\<close>

type_synonym meta = "nat \<times> nat \<times> nat"

definition meta_of :: "dfile \<Rightarrow> meta" where
  "meta_of f = (fl_ino f, length (fl_text f), fl_mtime f)"

text \<open>
  What the operating system lets through: reading a file, replacing one through a temporary
  and a rename, appending in place (which may stop part way), taking the lock.
\<close>

datatype append_outcome = AppendOk | OpenFails | TrimFails | WriteStops nat

record fs =
  fs_read :: "path \<Rightarrow> bool"
  fs_put :: "path \<Rightarrow> bool"
  fs_append :: "path \<Rightarrow> append_outcome"
  fs_lock :: "name \<Rightarrow> bool"
  fs_list :: bool

definition file_at :: "disk \<Rightarrow> path \<Rightarrow> dfile option" where
  "file_at d p = map_of (dk_files d) p"

definition stat :: "disk \<Rightarrow> path \<Rightarrow> meta option" where
  "stat d p = map_option meta_of (file_at d p)"

text \<open>A file renamed into place: a new inode, stamped with the clock.\<close>

definition put_new :: "disk \<Rightarrow> path \<Rightarrow> string \<Rightarrow> disk" where
  "put_new d p text =
     d\<lparr>dk_files := AList.update p \<lparr>fl_text = text, fl_ino = dk_next_ino d, fl_mtime = dk_clock d\<rparr> (dk_files d),
       dk_next_ino := Suc (dk_next_ino d)\<rparr>"

text \<open>A file changed in place: the same inode, or a new file.\<close>

definition put_in_place :: "disk \<Rightarrow> path \<Rightarrow> string \<Rightarrow> disk" where
  "put_in_place d p text =
     (case file_at d p of
        None \<Rightarrow> put_new d p text
      | Some f \<Rightarrow> d\<lparr>dk_files := AList.update p (f\<lparr>fl_text := text, fl_mtime := dk_clock d\<rparr>) (dk_files d)\<rparr>)"

definition unlink :: "disk \<Rightarrow> path \<Rightarrow> disk" where
  "unlink d p = d\<lparr>dk_files := AList.delete p (dk_files d)\<rparr>"

section \<open>The store\<close>

text \<open>\<open>struct Note\<close>, and the part of the syncer the notes live in.\<close>

record cached_note =
  n_macs :: "mac set"
  n_ino :: nat
  n_len :: nat
  n_mtime :: nat
  n_read_at :: nat

record store =
  st_disk :: disk
  st_notes :: "name \<rightharpoonup> cached_note"
  st_indices :: "name \<rightharpoonup> ifindex"
  st_said :: said

definition is_still :: "cached_note \<Rightarrow> meta \<Rightarrow> bool" where
  "is_still n m =
     (case m of (ino, len, mtime) \<Rightarrow>
        n_ino n = ino \<and> n_len n = len \<and> n_mtime n = mtime \<and> n_mtime n < n_read_at n)"

definition note_is_readable :: "store \<Rightarrow> name \<Rightarrow> bool" where
  "note_is_readable s dev \<longleftrightarrow> dev \<notin> sd_unreadable (st_said s)"

text \<open>\<open>read_owned\<close>: the addresses on the lines that parse; a failed read is "could not tell".\<close>

definition parse_owned :: "string \<Rightarrow> mac set" where
  "parse_owned text = set (List.map_filter (\<lambda>l. parse_mac (trim l)) (lines text))"

definition read_owned :: "fs \<Rightarrow> store \<Rightarrow> name \<Rightarrow> mac set \<times> store" where
  "read_owned fs s dev =
     (let ok = s\<lparr>st_said := (st_said s)\<lparr>sd_unreadable := sd_unreadable (st_said s) - {dev}\<rparr>\<rparr> in
      case file_at (st_disk s) (OwnedP dev) of
        None \<Rightarrow> ({}, ok)
      | Some f \<Rightarrow>
          if fs_read fs (OwnedP dev) then (parse_owned (fl_text f), ok)
          else ({}, s\<lparr>st_said := (st_said s)\<lparr>sd_unreadable := insert dev (sd_unreadable (st_said s))\<rparr>\<rparr>))"

definition drop_cached :: "store \<Rightarrow> name \<Rightarrow> store" where
  "drop_cached s dev = s\<lparr>st_notes := (st_notes s)(dev := None)\<rparr>"

text \<open>\<open>remember\<close>: with the stat the caller proved, or with a fresh one.\<close>

definition remember :: "store \<Rightarrow> name \<Rightarrow> mac set \<Rightarrow> meta option \<Rightarrow> store" where
  "remember s dev macs m =
     (case (case m of Some x \<Rightarrow> Some x | None \<Rightarrow> stat (st_disk s) (OwnedP dev)) of
        None \<Rightarrow> drop_cached s dev
      | Some (ino, len, mtime) \<Rightarrow>
          s\<lparr>st_notes := (st_notes s)(dev \<mapsto> \<lparr>n_macs = macs, n_ino = ino, n_len = len,
                           n_mtime = mtime, n_read_at = dk_now (st_disk s)\<rparr>)\<rparr>)"

text \<open>
  \<open>with_owned\<close>: the copy is believed while the stat says the file is the one it was read from.
  The stats before and after the read are arguments, since another process may write between.
\<close>

definition with_owned_between ::
    "fs \<Rightarrow> meta option \<Rightarrow> meta option \<Rightarrow> store \<Rightarrow> name \<Rightarrow> mac set \<times> store" where
  "with_owned_between fs before after s dev =
     (let usable = (case stat (st_disk s) (OwnedP dev) of
                      None \<Rightarrow> False
                    | Some m \<Rightarrow> (case st_notes s dev of None \<Rightarrow> False | Some n \<Rightarrow> is_still n m))
      in if usable then (case st_notes s dev of Some n \<Rightarrow> (n_macs n, s) | None \<Rightarrow> ({}, s))
         else
           let (macs, s) = read_owned fs s dev;
               steady = (before \<noteq> None \<and> before = after);
               forget = s\<lparr>st_notes := (st_notes s)(dev := None), st_indices := (st_indices s)(dev := None)\<rparr>
           in if note_is_readable s dev \<and> steady then (macs, remember s dev macs after)
              else if note_is_readable s dev then (macs, forget)
              else ({}, forget))"

text \<open>\<open>load_owned\<close> when nobody writes between the two stats.\<close>

definition load_owned :: "fs \<Rightarrow> store \<Rightarrow> name \<Rightarrow> mac set \<times> store" where
  "load_owned fs s dev =
     (let m = stat (st_disk s) (OwnedP dev) in with_owned_between fs m m s dev)"

text \<open>\<open>locked\<close>: only its failure changes anything but the interleaving.\<close>

definition locked :: "fs \<Rightarrow> store \<Rightarrow> name \<Rightarrow> store" where
  "locked fs s dev =
     (if fs_lock fs dev then s
      else s\<lparr>st_said := (st_said s)\<lparr>sd_lock := insert dev (sd_lock (st_said s))\<rparr>\<rparr>)"

text \<open>\<open>put_file\<close>: a temporary, then a rename; a refused one leaves the destination alone.\<close>

definition put_file :: "fs \<Rightarrow> store \<Rightarrow> path \<Rightarrow> string \<Rightarrow> bool \<times> store" where
  "put_file fs s p text =
     (if fs_put fs p then (True, s\<lparr>st_disk := put_new (st_disk s) p text\<rparr>) else (False, s))"

abbreviation NL :: char where "NL \<equiv> CHR 0x0A"

definition line_of :: "mac \<Rightarrow> string" where
  "line_of m = format_mac m @ [NL]"

text \<open>\<open>write_owned\<close>: the whole set, in order, unless the file already says it.\<close>

definition owned_text :: "mac set \<Rightarrow> string" where
  "owned_text macs =
     (let ls = sort (map format_mac (sorted_list_of_set macs))
      in if ls = [] then [] else join [NL] ls @ [NL])"

definition write_owned :: "fs \<Rightarrow> store \<Rightarrow> name \<Rightarrow> mac set \<Rightarrow> bool \<times> store" where
  "write_owned fs s dev macs =
     (if \<not> note_is_readable s dev then (False, s)
      else
        let (cur, s) = load_owned fs s dev in
        if cur = macs then (True, s)
        else
          let (ok, s) = put_file fs s (OwnedP dev) (owned_text macs) in
          if ok then (True, remember s dev macs None) else (False, drop_cached s dev))"

text \<open>\<open>finish_the_last_line\<close>: back to the end of the last line that is finished.\<close>

definition finish_the_last_line :: "string \<Rightarrow> string" where
  "finish_the_last_line text =
     (if text = [] \<or> last text = NL then text
      else rev (dropWhile (\<lambda>c. c \<noteq> NL) (rev text)))"

text \<open>
  \<open>append_owned_locked\<close>: the lines the note does not name yet, at its end; \<open>None\<close> when the note
  could not take them.
\<close>

definition append_text :: "fs \<Rightarrow> disk \<Rightarrow> name \<Rightarrow> string \<Rightarrow> bool \<times> disk" where
  "append_text fs d dev text =
     (let p = OwnedP dev; old = (case file_at d p of None \<Rightarrow> [] | Some f \<Rightarrow> fl_text f) in
      case fs_append fs p of
        AppendOk \<Rightarrow> (True, put_in_place d p (finish_the_last_line old @ text))
      | OpenFails \<Rightarrow> (False, d)
      | TrimFails \<Rightarrow> (False, put_in_place d p old)
      | WriteStops k \<Rightarrow> (False, put_in_place d p (finish_the_last_line old @ take k text)))"

definition append_owned_locked :: "fs \<Rightarrow> store \<Rightarrow> name \<Rightarrow> mac list \<Rightarrow> mac list option \<times> store" where
  "append_owned_locked fs s dev added =
     (let (macs, s) = load_owned fs s dev in
      if \<not> note_is_readable s dev then (None, s)
      else
        let fresh = filter (\<lambda>m. m \<notin> macs) added in
        if fresh = [] then (Some [], s)
        else
          let text = concat (map line_of fresh);
              was = map_option n_len (st_notes s dev);
              (ok, d) = append_text fs (st_disk s) dev text;
              s = s\<lparr>st_disk := d\<rparr>
          in if ok then
               let s = remember s dev (macs \<union> set fresh) None;
                   agrees = (case (map_option (\<lambda>w. w + length text) was, st_notes s dev) of
                               (Some want, Some now) \<Rightarrow> n_len now = want
                             | _ \<Rightarrow> True)
               in (Some fresh, if agrees then s else drop_cached s dev)
             else (None, drop_cached s dev))"

definition append_owned :: "fs \<Rightarrow> bool \<Rightarrow> store \<Rightarrow> name \<Rightarrow> mac list \<Rightarrow> bool \<times> store" where
  "append_owned fs dry_run s dev added =
     (if dry_run \<or> added = [] then (True, s)
      else
        let (r, s) = append_owned_locked fs (locked fs s dev) dev added in (r \<noteq> None, s))"

text \<open>\<open>unnote_locked\<close>, \<open>forget_locked\<close> and \<open>save_owned_merged\<close>: differences, never whole sets.\<close>

definition unnote_locked :: "fs \<Rightarrow> store \<Rightarrow> name \<Rightarrow> mac list \<Rightarrow> bool \<times> store" where
  "unnote_locked fs s dev macs =
     (if \<not> note_is_readable s dev then (False, s)
      else
        let (before, s) = load_owned fs s dev; after = before - set macs in
        if after = before then (True, s) else write_owned fs s dev after)"

definition forget_locked :: "fs \<Rightarrow> store \<Rightarrow> name \<Rightarrow> mac list \<Rightarrow> store" where
  "forget_locked fs s dev dropped =
     (if dropped = [] then s
      else let (fin, s) = read_owned fs s dev in snd (write_owned fs s dev (fin - set dropped)))"

definition save_owned_merged ::
    "fs \<Rightarrow> bool \<Rightarrow> store \<Rightarrow> name \<Rightarrow> mac set \<Rightarrow> mac set \<Rightarrow> store" where
  "save_owned_merged fs dry_run s dev before after =
     (if dry_run then s
      else
        let (current, s) = read_owned fs (locked fs s dev) dev in
        snd (write_owned fs s dev ((current \<union> (after - before)) - (before - after))))"

section \<open>The interface record\<close>

definition note_index :: "fs \<Rightarrow> store \<Rightarrow> name \<Rightarrow> ifindex \<Rightarrow> store" where
  "note_index fs s dev i =
     (if st_indices s dev = Some i then s
      else
        let (ok, s) = put_file fs s (IndexP dev) (show_nat (unat i) @ [NL]) in
        if ok then s\<lparr>st_indices := (st_indices s)(dev \<mapsto> i),
                     st_said := (st_said s)\<lparr>sd_index := sd_index (st_said s) - {dev}\<rparr>\<rparr>
        else s\<lparr>st_said := (st_said s)\<lparr>sd_index := insert dev (sd_index (st_said s))\<rparr>\<rparr>)"

definition noted_index :: "fs \<Rightarrow> store \<Rightarrow> name \<Rightarrow> ifindex option" where
  "noted_index fs s dev =
     (case file_at (st_disk s) (IndexP dev) of
        None \<Rightarrow> None
      | Some f \<Rightarrow> if fs_read fs (IndexP dev)
                  then map_option of_nat (parse_uint 32 (trim (fl_text f))) else None)"

definition recorded_index :: "fs \<Rightarrow> store \<Rightarrow> name \<Rightarrow> ifindex option" where
  "recorded_index fs s dev =
     (case st_indices s dev of Some i \<Rightarrow> Some i | None \<Rightarrow> noted_index fs s dev)"

definition remove_note :: "store \<Rightarrow> name \<Rightarrow> store" where
  "remove_note s dev =
     s\<lparr>st_disk := unlink (unlink (unlink (st_disk s) (OwnedP dev)) (IndexP dev)) (PortsP dev),
       st_notes := (st_notes s)(dev := None), st_indices := (st_indices s)(dev := None)\<rparr>"

text \<open>\<open>drop_line_locked\<close>: one address out, the other lines byte for byte.\<close>

definition drop_line_locked :: "fs \<Rightarrow> store \<Rightarrow> name \<Rightarrow> mac \<Rightarrow> store" where
  "drop_line_locked fs s dev m =
     (case file_at (st_disk s) (OwnedP dev) of
        None \<Rightarrow> s
      | Some f \<Rightarrow>
          if \<not> fs_read fs (OwnedP dev) then s
          else
            let kept = filter (\<lambda>l. trim l \<noteq> format_mac m \<and> trim l \<noteq> []) (lines (fl_text f)) in
            if kept = [] then remove_note s dev
            else snd (put_file fs (drop_cached s dev) (OwnedP dev) (join [NL] kept @ [NL])))"

text \<open>
  \<open>migrate_note\<close>: both locks, the record before the note, the note before the unlink. \<open>order\<close> is
  the order the process iterates a set in.
\<close>

definition migrate_note ::
    "fs \<Rightarrow> (mac set \<Rightarrow> mac list) \<Rightarrow> store \<Rightarrow> name \<Rightarrow> name \<Rightarrow> ifindex \<Rightarrow> bool \<times> store" where
  "migrate_note fs order s old new i =
     (if old = new then (True, s)
      else
        let (first, second) = (if old \<le> new then (old, new) else (new, old));
            s = locked fs (locked fs s first) second;
            (macs, s) = load_owned fs s old
        in if \<not> note_is_readable s old then (False, s)
           else if macs = {} then (True, remove_note s old)
           else
             let s = note_index fs s new i;
                 (r, s) = append_owned_locked fs s new (order macs)
             in case r of None \<Rightarrow> (False, s) | Some _ \<Rightarrow> (True, remove_note s old))"

section \<open>Listing\<close>

definition noted_names :: "disk \<Rightarrow> name list" where
  "noted_names d = sort (List.map_filter (\<lambda>(p, _). case p of OwnedP n \<Rightarrow> Some n | _ \<Rightarrow> None) (dk_files d))"

definition noted_devices :: "fs \<Rightarrow> store \<Rightarrow> io_error + name list" where
  "noted_devices fs s = (if fs_list fs then Inr (noted_names (st_disk s)) else Inl Custom)"

definition noted_devices_or_none :: "fs \<Rightarrow> store \<Rightarrow> name list" where
  "noted_devices_or_none fs s = (case noted_devices fs s of Inr ns \<Rightarrow> ns | Inl _ \<Rightarrow> [])"

fun registered :: "fs \<Rightarrow> store \<Rightarrow> name list \<Rightarrow> nat \<times> store" where
  "registered fs s [] = (0, s)"
| "registered fs s (dev # devs) =
     (let (macs, s) = load_owned fs s dev; (n, s) = registered fs s devs in (card macs + n, s))"

section \<open>The quiet memory on disk\<close>

definition PORTS_FORMAT :: string where
  "PORTS_FORMAT = ''sriov-mac-sync ports 3''"

definition ports_line :: "mac \<Rightarrow> name \<Rightarrow> ifindex \<Rightarrow> nat \<Rightarrow> string" where
  "ports_line m name i seen =
     format_mac m @ '' '' @ name @ '' '' @ show_nat (unat i) @ '' '' @ show_nat seen"

definition parse_ports_line :: "string \<Rightarrow> (mac \<times> name \<times> ifindex \<times> nat) option" where
  "parse_ports_line line =
     (case split_whitespace line of
        m # name # i # rest \<Rightarrow>
          (case (parse_mac m, parse_uint 32 i) of
             (Some m, Some i) \<Rightarrow>
               (case rest of
                  [] \<Rightarrow> None
                | v # _ \<Rightarrow> map_option (\<lambda>seen. (m, name, of_nat i, seen)) (parse_uint 64 v))
           | _ \<Rightarrow> None)
      | _ \<Rightarrow> None)"

definition parse_ports :: "string \<Rightarrow> (mac \<times> name \<times> ifindex \<times> nat) list" where
  "parse_ports text =
     (case lines text of
        [] \<Rightarrow> []
      | l # ls \<Rightarrow> if l = PORTS_FORMAT then List.map_filter parse_ports_line ls else [])"

definition read_ports :: "fs \<Rightarrow> store \<Rightarrow> name \<Rightarrow> (mac \<times> name \<times> ifindex \<times> nat) list" where
  "read_ports fs s dev =
     (case file_at (st_disk s) (PortsP dev) of
        None \<Rightarrow> []
      | Some f \<Rightarrow> if fs_read fs (PortsP dev) then parse_ports (fl_text f) else [])"

definition write_ports :: "fs \<Rightarrow> store \<Rightarrow> name \<Rightarrow> string list \<Rightarrow> bool \<times> store" where
  "write_ports fs s dev ls =
     (let (ok, s) = put_file fs s (PortsP dev) (PORTS_FORMAT @ [NL] @ join [NL] ls @ [NL]) in
      if ok then (True, s)
      else (False, s\<lparr>st_said := (st_said s)\<lparr>sd_ports := insert dev (sd_ports (st_said s))\<rparr>\<rparr>))"

end
