(* ===== verification/Decide.thy ===== *)
theory Decide
  imports Topology Notes
begin

text \<open>
  The deciding half of \<^verbatim>\<open>src/sync/mod.rs\<close>: which addresses belong in an uplink's filter
  (\<open>exclusions\<close>, \<open>desired\<close>, \<open>quiet_survivors\<close>), what is known about when an address last spoke
  (\<open>note_seen\<close>, \<open>date_the_silence\<close>), and which kept addresses are surrendered under pressure
  (\<open>press_at_pass\<close>). Nothing here writes to the card or to a file. Stamps are milliseconds since
  boot; the \<open>saturating_sub\<close> of the source is the subtraction of natural numbers.
\<close>

section \<open>State\<close>

record pair =
  p_dev :: name
  p_bridge :: name

text \<open>The port memory of one uplink: per address the port index and the stamp.\<close>

type_synonym ports = "(mac \<times> ifindex \<times> nat) list"

text \<open>\<open>struct Carried\<close> and its default.\<close>

record carried =
  c_card :: name
  c_occupancy :: nat
  c_quiet :: "mac set"
  c_wire :: "mac set"
  c_passed_at :: nat

definition default_carried :: carried where
  "default_carried = \<lparr>c_card = [], c_occupancy = 0, c_quiet = {}, c_wire = {}, c_passed_at = 0\<rparr>"

type_synonym vf_macs = "(ifindex \<times> mac) list"

text \<open>
  \<open>struct Syncer\<close>, less what the notes own (the \<open>store\<close>). Times of the monotonic clock are
  natural numbers too.
\<close>

record syncer =
  sy_pairs :: "pair list"
  sy_exclude :: "mac set"
  sy_extra :: "mac set"
  sy_dry_run :: bool
  sy_detail :: bool
  sy_authoritative :: bool
  sy_carried_vf :: "(ifindex list \<times> vf_macs) option"
  sy_vf_stale :: bool
  sy_orphan_grace :: nat
  sy_absent_since :: "(name \<times> nat) list"
  sy_carried_ports :: "name \<rightharpoonup> ports"
  sy_ports_loaded :: "name set"
  sy_ports_written :: "name \<rightharpoonup> string list"
  sy_max_macs :: nat
  sy_max_macs_per_card :: "name \<rightharpoonup> nat"
  sy_carried :: "(name \<times> carried) list"
  sy_last_pass_at :: nat
  sy_store :: store

definition carried_of :: "syncer \<Rightarrow> name \<Rightarrow> carried option" where
  "carried_of S dev = map_of (sy_carried S) dev"

abbreviation DEFAULT_MAX_MACS :: nat where "DEFAULT_MAX_MACS \<equiv> 128"

text \<open>\<open>Syncer::new\<close>, on the store the state directory holds.\<close>

definition new_syncer :: "pair list \<Rightarrow> disk \<Rightarrow> syncer" where
  "new_syncer pairs d =
     \<lparr>sy_pairs = pairs, sy_exclude = {}, sy_extra = {}, sy_dry_run = False, sy_detail = False,
      sy_authoritative = False, sy_carried_vf = None, sy_vf_stale = True, sy_orphan_grace = 0,
      sy_absent_since = [], sy_carried_ports = Map.empty, sy_ports_loaded = {},
      sy_ports_written = Map.empty, sy_max_macs = DEFAULT_MAX_MACS,
      sy_max_macs_per_card = Map.empty, sy_carried = [], sy_last_pass_at = 0,
      sy_store = \<lparr>st_disk = d, st_notes = Map.empty, st_indices = Map.empty, st_said = no_said\<rparr>\<rparr>"

section \<open>Predicates on addresses\<close>

definition is_registerable :: "mac \<Rightarrow> bool" where
  "is_registerable m \<longleftrightarrow> and (mac_first m) 1 = 0 \<and> m \<noteq> Mac 0 0 0 0 0 0"

text \<open>\<open>self_list\<close>: the card's own list out of a dump.\<close>

definition self_list :: "fdb_entry list \<Rightarrow> ifindex \<Rightarrow> mac set" where
  "self_list fdb i =
     set (map fe_mac (filter (\<lambda>e. is_self e \<and> fe_ifindex e = i \<and> is_unicast e) fdb))"

abbreviation CAPACITY_HEADROOM :: nat where "CAPACITY_HEADROOM \<equiv> 4"

definition headroom :: "nat \<Rightarrow> nat" where
  "headroom limit = min CAPACITY_HEADROOM (limit - 1)"

section \<open>Virtual functions\<close>

definition touches_virtual_functions :: "topology \<Rightarrow> ifindex \<Rightarrow> bool option" where
  "touches_virtual_functions T i = map_option (\<lambda>l. 0 < l_numvfs l \<or> l_physfn l \<noteq> None) (at T i)"

definition vf_may_have_changed :: "topology option \<Rightarrow> topology option \<Rightarrow> ifindex list \<Rightarrow> bool" where
  "vf_may_have_changed before after changed \<longleftrightarrow>
     list_ex (\<lambda>i.
       let b = (case before of None \<Rightarrow> None | Some t \<Rightarrow> touches_virtual_functions t i);
           a = (case after of None \<Rightarrow> None | Some t \<Rightarrow> touches_virtual_functions t i)
       in (case (b, a) of
             (None, None) \<Rightarrow> True
           | _ \<Rightarrow> b = Some True \<or> a = Some True)) changed"

text \<open>\<open>live_pfs\<close>: the functions behind the uplinks, first mention first.\<close>

definition add_pfs :: "ifindex list \<Rightarrow> ifindex list \<Rightarrow> ifindex list" where
  "add_pfs pfs new = foldl (\<lambda>acc pf. if pf \<in> set acc then acc else acc @ [pf]) pfs new"

definition live_pfs :: "topology \<Rightarrow> name list \<Rightarrow> ifindex list" where
  "live_pfs T devs =
     foldl (\<lambda>pfs dev. case index_of T dev of
              None \<Rightarrow> pfs
            | Some i \<Rightarrow> add_pfs pfs (physical_functions T (filter_carrier T i))) [] devs"

definition vf_reported :: "ifindex list \<Rightarrow> vf_macs \<Rightarrow> mac set" where
  "vf_reported functions vfs = set (map snd (filter (\<lambda>(pf, _). pf \<in> set functions) vfs))"

definition carried_vf_for :: "syncer \<Rightarrow> ifindex list \<Rightarrow> vf_macs option" where
  "carried_vf_for S pfs =
     (case sy_carried_vf S of
        Some (for_pfs, kept) \<Rightarrow> if \<not> sy_vf_stale S \<and> for_pfs = pfs then Some kept else None
      | None \<Rightarrow> None)"

definition remember_vf :: "syncer \<Rightarrow> ifindex list \<Rightarrow> vf_macs \<Rightarrow> syncer" where
  "remember_vf S pfs macs = S\<lparr>sy_carried_vf := Some (pfs, macs), sy_vf_stale := False\<rparr>"

section \<open>What must stay out\<close>

definition mac_at :: "topology \<Rightarrow> ifindex \<Rightarrow> mac set" where
  "mac_at T i = (case at T i of None \<Rightarrow> {} | Some l \<Rightarrow> set_option (l_mac l))"

definition function_macs :: "topology \<Rightarrow> ifindex \<Rightarrow> mac set" where
  "function_macs T pf =
     (case at T pf of
        None \<Rightarrow> {}
      | Some l \<Rightarrow> set_option (l_mac l) \<union> \<Union> (mac_at T ` set (l_vf_netdevs l)))"

definition exclusions :: "syncer \<Rightarrow> topology \<Rightarrow> anatomy \<Rightarrow> vf_macs \<Rightarrow> mac set" where
  "exclusions S T an vfs =
     sy_exclude S \<union> subtree_macs T (a_port an) \<union> mac_at T (a_dev an)
     \<union> vf_reported (a_functions an) vfs \<union> \<Union> (function_macs T ` set (a_functions an))"

section \<open>What belongs in\<close>

text \<open>\<open>desired\<close>: one forwarding entry at a time, as the loop goes.\<close>

record sighting =
  s_want :: "mac set"
  s_wire :: "mac set"
  s_learnt_at :: "(mac \<times> ifindex) list"

definition sight :: "anatomy \<Rightarrow> reach \<Rightarrow> sighting \<Rightarrow> fdb_entry \<Rightarrow> sighting" where
  "sight an R acc e =
     (if \<not> is_learned e \<or> \<not> is_unicast e then acc
      else case fe_master e of
        None \<Rightarrow> acc
      | Some master \<Rightarrow>
          if fe_ifindex e \<in> set (a_siblings an) then acc\<lparr>s_wire := insert (fe_mac e) (s_wire acc)\<rparr>
          else (case classify R (fe_ifindex e) master (a_port an) of
                  Wire \<Rightarrow> acc\<lparr>s_wire := insert (fe_mac e) (s_wire acc)\<rparr>
                | Behind \<Rightarrow> acc\<lparr>s_want := insert (fe_mac e) (s_want acc),
                                s_learnt_at := AList.update (fe_mac e) (fe_ifindex e) (s_learnt_at acc)\<rparr>
                | NotOurs \<Rightarrow> acc))"

definition sightings :: "anatomy \<Rightarrow> reach \<Rightarrow> fdb_entry list \<Rightarrow> sighting" where
  "sightings an R fdb = foldl (sight an R) \<lparr>s_want = {}, s_wire = {}, s_learnt_at = []\<rparr> fdb"

definition ward_macs :: "topology \<Rightarrow> ifindex \<Rightarrow> mac set" where
  "ward_macs T bridge = \<Union> (mac_at T ` (stacked_above T bridge - {bridge}))"

record wanted =
  w_want :: "mac set"
  w_stacked :: "name list"
  w_wire :: "mac set"
  w_learnt_at :: "(mac \<times> ifindex) list"
  w_kept :: "mac set"

definition desired ::
    "syncer \<Rightarrow> topology \<Rightarrow> anatomy \<Rightarrow> reach \<Rightarrow> mac set \<Rightarrow> fdb_entry list
     \<Rightarrow> mac set \<times> name list \<times> mac set \<times> (mac \<times> ifindex) list" where
  "desired S T an R skip fdb =
     (case at T (a_bridge an) of
        None \<Rightarrow> ({}, [], {}, [])
      | Some bl \<Rightarrow>
          let acc = sightings an R fdb;
              want = s_want acc \<union> set_option (l_mac bl) \<union> ward_macs T (a_bridge an) \<union> sy_extra S;
              want = Set.filter (\<lambda>m. m \<notin> skip \<and> m \<notin> s_wire acc \<and> is_registerable m) want;
              stacked = sort (List.map_filter (name_of T) (sorted_list_of_set (r_stacked_bridges R)))
          in (want, stacked, s_wire acc, s_learnt_at acc))"

text \<open>\<open>quiet_survivors\<close>: owned, aged out, and the port it was learnt behind still hangs there.\<close>

definition still_behind :: "topology \<Rightarrow> reach \<Rightarrow> ifindex \<Rightarrow> bool" where
  "still_behind T R p =
     (case bridge_above T p of Some (br, _) \<Rightarrow> reaches R br | None \<Rightarrow> False)"

definition survives ::
    "topology \<Rightarrow> anatomy \<Rightarrow> reach \<Rightarrow> mac set \<Rightarrow> mac set \<Rightarrow> mac set \<Rightarrow> ports \<Rightarrow> mac \<Rightarrow> bool" where
  "survives T an R skip want wire ps m =
     (if m \<in> want \<or> m \<in> wire \<or> m \<in> skip then False
      else if \<not> is_registerable m then False
      else case map_of ps m of
        None \<Rightarrow> False
      | Some (p, _) \<Rightarrow>
          if p \<in> subtree_of T [a_port an] \<union> set (a_siblings an) then False
          else still_behind T R p)"

definition quiet_survivors ::
    "syncer \<Rightarrow> topology \<Rightarrow> anatomy \<Rightarrow> reach \<Rightarrow> mac set \<Rightarrow> mac set \<Rightarrow> mac set \<Rightarrow> mac set \<Rightarrow> mac set" where
  "quiet_survivors S T an R skip want wire owned_before =
     (case name_of T (a_dev an) of
        None \<Rightarrow> {}
      | Some n \<Rightarrow>
          (case sy_carried_ports S n of
             None \<Rightarrow> {}
           | Some ps \<Rightarrow> Set.filter (survives T an R skip want wire ps) owned_before))"

definition wanted_with_keeps ::
    "syncer \<Rightarrow> topology \<Rightarrow> anatomy \<Rightarrow> fdb_entry list \<Rightarrow> vf_macs \<Rightarrow> mac set \<Rightarrow> wanted" where
  "wanted_with_keeps S T an fdb vfs owned_before =
     (let skip = exclusions S T an vfs;
          R = reach_of T (a_bridge an);
          (want, stacked, wire, learnt_at) = desired S T an R skip fdb;
          kept = quiet_survivors S T an R skip want wire owned_before
      in \<lparr>w_want = want \<union> kept, w_stacked = stacked, w_wire = wire, w_learnt_at = learnt_at,
          w_kept = kept\<rparr>)"

section \<open>Stamps\<close>

text \<open>\<open>note_seen\<close>: the one place a stamp is written, and it only moves forward.\<close>

definition note_seen :: "ports \<Rightarrow> mac \<Rightarrow> ifindex option \<Rightarrow> nat \<Rightarrow> ports" where
  "note_seen ps m port t =
     (case map_of ps m of
        Some (p, seen) \<Rightarrow>
          AList.update m ((case port of Some q \<Rightarrow> q | None \<Rightarrow> p), max seen t) ps
      | None \<Rightarrow> (case port of Some q \<Rightarrow> AList.update m (q, t) ps | None \<Rightarrow> ps))"

definition stamp_of :: "ports \<Rightarrow> mac \<Rightarrow> nat" where
  "stamp_of ps m = (case map_of ps m of None \<Rightarrow> 0 | Some (_, t) \<Rightarrow> t)"

text \<open>\<open>date_the_silence\<close>: one deletion dates the keeps of the uplinks its bridge serves.\<close>

definition serves :: "syncer \<Rightarrow> topology \<Rightarrow> ifindex \<Rightarrow> pair list" where
  "serves S T master =
     filter (\<lambda>p. case index_of T (p_bridge p) of None \<Rightarrow> False | Some b \<Rightarrow> leads_to T master b)
       (sy_pairs S)"

definition date_pair :: "mac \<Rightarrow> nat \<Rightarrow> pair \<Rightarrow> (name \<rightharpoonup> ports) \<Rightarrow> (name \<rightharpoonup> ports)" where
  "date_pair m spoke p cp =
     (case cp (p_dev p) of None \<Rightarrow> cp | Some ps \<Rightarrow> cp(p_dev p \<mapsto> note_seen ps m None spoke))"

definition date_event :: "topology \<Rightarrow> nat \<Rightarrow> u16 \<times> fdb_entry \<Rightarrow> syncer \<Rightarrow> syncer" where
  "date_event T now ev S =
     (case ev of (kind, e) \<Rightarrow>
        if kind \<noteq> RTM_DELNEIGH then S
        else case fe_master e of
          None \<Rightarrow> S
        | Some master \<Rightarrow>
            (case at T master of
               None \<Rightarrow> S
             | Some l \<Rightarrow>
                 (case l_ageing_ms l of
                    None \<Rightarrow> S
                  | Some ageing \<Rightarrow>
                      S\<lparr>sy_carried_ports :=
                          fold (date_pair (fe_mac e) (now - ageing)) (serves S T master)
                            (sy_carried_ports S)\<rparr>)))"

definition date_the_silence :: "topology \<Rightarrow> nat \<Rightarrow> (u16 \<times> fdb_entry) list \<Rightarrow> syncer \<Rightarrow> syncer" where
  "date_the_silence T now evs S = fold (date_event T now) evs S"

text \<open>\<open>silence_of\<close>.\<close>

definition silence_of :: "syncer \<Rightarrow> name \<Rightarrow> mac list \<Rightarrow> nat \<Rightarrow> (nat \<times> mac) list" where
  "silence_of S dev macs now =
     map (\<lambda>m. (now - (case sy_carried_ports S dev of
                          None \<Rightarrow> 0
                        | Some ps \<Rightarrow> min (stamp_of ps m) now), m)) macs"

section \<open>Capacity\<close>

definition limit_of :: "syncer \<Rightarrow> name \<Rightarrow> nat" where
  "limit_of S crd =
     (case sy_max_macs_per_card S crd of Some n \<Rightarrow> n | None \<Rightarrow> sy_max_macs S)"

definition any_filter_filling :: "syncer \<Rightarrow> bool" where
  "any_filter_filling S \<longleftrightarrow>
     list_ex (\<lambda>(_, c). limit_of S (c_card c) * 9 \<le> c_occupancy c * 10) (sy_carried S)"

text \<open>
  \<open>press_at_pass\<close>: the keeps ordered by raw stamp, then address; surrendered from the front until
  the list fits under the limit less its headroom.
\<close>

fun press_loop ::
    "nat \<Rightarrow> nat \<Rightarrow> (nat \<times> mac) list \<Rightarrow> nat \<Rightarrow> mac set \<Rightarrow> mac set \<Rightarrow> nat \<Rightarrow> mac set \<times> mac set \<times> nat" where
  "press_loop limit reserve [] occupied want kept shed = (want, kept, shed)"
| "press_loop limit reserve ((t, m) # order) occupied want kept shed =
     (if occupied + reserve \<le> limit then (want, kept, shed)
      else press_loop limit reserve order (occupied - 1) (want - {m}) (kept - {m}) (Suc shed))"

definition keep_order :: "ports option \<Rightarrow> mac set \<Rightarrow> (nat \<times> mac) list" where
  "keep_order ps kept =
     sort (map (\<lambda>m. (case ps of None \<Rightarrow> 0 | Some ps \<Rightarrow> stamp_of ps m, m)) (sorted_list_of_set kept))"

definition press_at_pass ::
    "syncer \<Rightarrow> name \<Rightarrow> name \<Rightarrow> nat \<Rightarrow> mac set \<Rightarrow> mac set \<Rightarrow> mac set \<times> mac set \<times> nat" where
  "press_at_pass S dev card_name occupied want kept =
     (let limit = limit_of S card_name; reserve = headroom limit in
      if kept = {} \<or> occupied + reserve \<le> limit then (want, kept, 0)
      else press_loop limit reserve (keep_order (sy_carried_ports S dev) kept) occupied want kept 0)"

text \<open>The candidates of \<open>shed_keeps\<close>: the pass's keeps not heard from since, oldest first.\<close>

definition shed_candidates :: "carried \<Rightarrow> ports \<Rightarrow> nat \<Rightarrow> mac list" where
  "shed_candidates c ps need =
     map snd (take need (sort (filter (\<lambda>(seen, _). seen < c_passed_at c)
       (List.map_filter (\<lambda>m. map_option (\<lambda>(_, seen). (seen, m)) (map_of ps m))
          (sorted_list_of_set (c_quiet c))))))"

definition no_longer_kept :: "syncer \<Rightarrow> name \<Rightarrow> mac list \<Rightarrow> syncer" where
  "no_longer_kept S dev macs =
     (case carried_of S dev of
        None \<Rightarrow> S
      | Some c \<Rightarrow> S\<lparr>sy_carried := AList.update dev (c\<lparr>c_quiet := c_quiet c - set macs\<rparr>) (sy_carried S)\<rparr>)"

end
