(* ===== verification/Card.thy ===== *)
theory Card
  imports Decide
begin

text \<open>
  The writing half of \<^verbatim>\<open>src/sync/mod.rs\<close>: what goes into a card's filter and comes out of it,
  note and card together under the note's lock. The kernel is the parameter the source already
  has, the trait \<open>FdbWriter\<close>: a record of functions over an unknown world \<open>'w\<close>, each returning
  the world it leaves. The clocks are read from the same world.
\<close>

section \<open>The world\<close>

record 'w writer =
  k_dump_fdb :: "'w \<Rightarrow> (io_error + fdb_entry list) \<times> 'w"
  k_dump_fdb_of :: "ifindex \<Rightarrow> 'w \<Rightarrow> (io_error + fdb_entry list) \<times> 'w"
  k_dump_links :: "'w \<Rightarrow> (io_error + link_info list) \<times> 'w"
  k_vf_macs_of :: "ifindex list \<Rightarrow> 'w \<Rightarrow> (io_error + vf_macs) \<times> 'w"
  k_vf_info_of :: "ifindex \<Rightarrow> 'w \<Rightarrow> (io_error + vf_info list) \<times> 'w"
  k_set_self_fdb :: "ifindex \<Rightarrow> mac \<Rightarrow> bool \<Rightarrow> 'w \<Rightarrow> io_error option \<times> 'w"
  k_boot_millis :: "'w \<Rightarrow> nat \<times> 'w"
  k_instant :: "'w \<Rightarrow> nat \<times> 'w"

text \<open>
  What an operation is run in: the kernel, the file system's answers, and the order this
  process iterates a set in (its hash seed decides it).
\<close>

record 'w env =
  e_kernel :: "'w writer"
  e_fs :: fs
  e_order :: "mac set \<Rightarrow> mac list"

abbreviation with_store :: "syncer \<Rightarrow> store \<Rightarrow> syncer" where
  "with_store S s \<equiv> S\<lparr>sy_store := s\<rparr>"

section \<open>Registering\<close>

record registered =
  rg_put :: "mac list"
  rg_failures :: "(mac \<times> io_error) list"

text \<open>The loop of \<open>register_batch_locked\<close>: put, taken back from the note, failed.\<close>

fun register_loop ::
    "'w writer \<Rightarrow> ifindex \<Rightarrow> mac set \<Rightarrow> mac list \<Rightarrow> 'w
     \<Rightarrow> (mac list \<times> mac list \<times> (mac \<times> io_error) list) \<times> 'w" where
  "register_loop K i fresh [] w = (([], [], []), w)"
| "register_loop K i fresh (m # ms) w =
     (let (r, w) = k_set_self_fdb K i m True w;
          ((put, unclaim, failed), w) = register_loop K i fresh ms w
      in case r of
           None \<Rightarrow> ((m # put, unclaim, failed), w)
         | Some e \<Rightarrow>
             if e = EEXIST then ((put, if m \<in> fresh then m # unclaim else unclaim, failed), w)
             else ((put, unclaim, (m, e) # failed), w))"

definition register_batch_locked ::
    "'w env \<Rightarrow> name \<Rightarrow> ifindex \<Rightarrow> mac list \<Rightarrow> store \<Rightarrow> 'w \<Rightarrow> registered option \<times> store \<times> 'w" where
  "register_batch_locked E dev i macs s w =
     (let (r, s) = append_owned_locked (e_fs E) (locked (e_fs E) s dev) dev macs in
      case r of
        None \<Rightarrow> (None, s, w)
      | Some fresh \<Rightarrow>
          let ((put, unclaim, failed), w) = register_loop (e_kernel E) i (set fresh) macs w;
              s = (if unclaim = [] then s else snd (unnote_locked (e_fs E) s dev unclaim))
          in (Some \<lparr>rg_put = put, rg_failures = failed\<rparr>, s, w))"

section \<open>Taking out\<close>

text \<open>\<open>struct Retired\<close> and \<open>retire\<close>: card first, the note settled for what the card let go.\<close>

record retired =
  rt_dropped :: "mac list"
  rt_removed :: "mac list"
  rt_failed :: "(mac \<times> io_error) list"

fun retire_loop :: "'w writer \<Rightarrow> ifindex \<Rightarrow> mac list \<Rightarrow> 'w \<Rightarrow> retired \<times> 'w" where
  "retire_loop K i [] w = (\<lparr>rt_dropped = [], rt_removed = [], rt_failed = []\<rparr>, w)"
| "retire_loop K i (m # ms) w =
     (let (r, w) = k_set_self_fdb K i m False w;
          (out, w) = retire_loop K i ms w
      in case r of
           None \<Rightarrow> (out\<lparr>rt_dropped := m # rt_dropped out, rt_removed := m # rt_removed out\<rparr>, w)
         | Some e \<Rightarrow>
             if e = ENOENT then (out\<lparr>rt_dropped := m # rt_dropped out\<rparr>, w)
             else (out\<lparr>rt_failed := (m, e) # rt_failed out\<rparr>, w))"

definition retire ::
    "'w env \<Rightarrow> name \<Rightarrow> ifindex \<Rightarrow> mac list \<Rightarrow> store \<Rightarrow> 'w \<Rightarrow> retired \<times> store \<times> 'w" where
  "retire E dev i macs s w =
     (let s = locked (e_fs E) s dev;
          (out, w) = retire_loop (e_kernel E) i macs w
      in (out, forget_locked (e_fs E) s dev (rt_dropped out), w))"

text \<open>\<open>unregister_all\<close>: how many are gone, and what stays owned.\<close>

fun unregister_all :: "'w writer \<Rightarrow> ifindex \<Rightarrow> mac list \<Rightarrow> 'w \<Rightarrow> (nat \<times> mac set) \<times> 'w" where
  "unregister_all K i [] w = ((0, {}), w)"
| "unregister_all K i (m # ms) w =
     (let (r, w) = k_set_self_fdb K i m False w;
          ((gone, kept), w) = unregister_all K i ms w
      in case r of
           None \<Rightarrow> ((Suc gone, kept), w)
         | Some e \<Rightarrow> if e = ENOENT then ((Suc gone, kept), w) else ((gone, insert m kept), w))"

section \<open>The probe of --check\<close>

definition note_check_probe :: "fs \<Rightarrow> bool \<Rightarrow> name \<Rightarrow> ifindex \<Rightarrow> mac \<Rightarrow> store \<Rightarrow> bool \<times> store" where
  "note_check_probe fs dry_run dev i m s = append_owned fs dry_run (note_index fs s dev i) dev [m]"

definition forget_check_probe :: "fs \<Rightarrow> name \<Rightarrow> mac \<Rightarrow> store \<Rightarrow> store" where
  "forget_check_probe fs dev m s =
     (let (owned, s) = load_owned fs s dev in
      if m \<notin> owned then s else drop_line_locked fs (locked fs s dev) dev m)"

section \<open>The quiet memory\<close>

definition flag :: "bool \<Rightarrow> string" where
  "flag b = (if b then ''1'' else ''0'')"

definition ports_key :: "mac \<Rightarrow> name \<Rightarrow> ifindex \<Rightarrow> bool \<Rightarrow> string" where
  "ports_key m n i quiet = format_mac m @ '' '' @ n @ '' '' @ show_nat (unat i) @ '' '' @ flag quiet"

text \<open>The lines of one memory, and the keys a rewrite is decided by: quiet or not, never the stamp.\<close>

definition ports_entries :: "topology \<Rightarrow> ports \<Rightarrow> (mac \<times> name \<times> ifindex \<times> nat) list" where
  "ports_entries T ps =
     List.map_filter (\<lambda>(m, i, seen). map_option (\<lambda>n. (m, n, i, seen)) (name_of T i)) ps"

definition ports_lines :: "topology \<Rightarrow> ports \<Rightarrow> string list" where
  "ports_lines T ps = sort (map (\<lambda>(m, n, i, seen). ports_line m n i seen) (ports_entries T ps))"

definition ports_keys :: "topology \<Rightarrow> ports \<Rightarrow> nat \<Rightarrow> string list" where
  "ports_keys T ps pass_at =
     sort (map (\<lambda>(m, n, i, seen). ports_key m n i (seen < pass_at)) (ports_entries T ps))"

text \<open>\<open>load_ports\<close>: believed once, and only where a line still describes this kernel.\<close>

definition shifted_ports :: "(mac \<times> name \<times> ifindex \<times> nat) list \<Rightarrow> nat \<Rightarrow> ports" where
  "shifted_ports rd now =
     (let ahead = Max (insert 0 (set (map (\<lambda>(_, _, _, seen). seen) rd))) - now
      in fold (\<lambda>(m, _, i, seen) ps. AList.update m (i, seen - ahead) ps) rd [])"

definition load_ports ::
    "'w env \<Rightarrow> topology \<Rightarrow> name \<Rightarrow> syncer \<Rightarrow> 'w \<Rightarrow> syncer \<times> 'w" where
  "load_ports E T dev S w =
     (if dev \<in> sy_ports_loaded S then (S, w)
      else
        let S = S\<lparr>sy_ports_loaded := insert dev (sy_ports_loaded S)\<rparr> in
        if sy_carried_ports S dev \<noteq> None then (S, w)
        else
          let (now, w) = k_boot_millis (e_kernel E) w;
              rd = filter (\<lambda>(_, n, i, _). index_of T n = Some i)
                     (read_ports (e_fs E) (sy_store S) dev);
              ps = shifted_ports rd now
          in if ps = [] then (S, w)
             else
               let newest = Max (insert 0 (set (map (\<lambda>(_, _, seen). seen) ps))) in
               (S\<lparr>sy_carried_ports := (sy_carried_ports S)(dev \<mapsto> ps),
                  sy_ports_written := (sy_ports_written S)(dev \<mapsto> ports_keys T ps newest)\<rparr>, w))"

text \<open>\<open>save_ports\<close>: look and write in one locked stretch; memoised only when the file says it.\<close>

definition save_ports :: "fs \<Rightarrow> topology \<Rightarrow> name \<Rightarrow> nat \<Rightarrow> syncer \<Rightarrow> syncer" where
  "save_ports fs T dev pass_at S =
     (if sy_dry_run S then S
      else if dev \<notin> sy_ports_loaded S \<and> sy_carried_ports S dev = None then S
      else
        let ps = (case sy_carried_ports S dev of None \<Rightarrow> [] | Some ps \<Rightarrow> ps);
            ls = ports_lines T ps;
            keys = ports_keys T ps pass_at;
            memo_holds = (sy_ports_written S dev = Some keys);
            s = locked fs (sy_store S) dev;
            there = (file_at (st_disk s) (PortsP dev) \<noteq> None)
        in if memo_holds \<and> there \<noteq> (ls = []) then with_store S s
           else
             let (wrote, s) =
                   (if ls = [] then (True, s\<lparr>st_disk := unlink (st_disk s) (PortsP dev)\<rparr>)
                    else write_ports fs s dev ls)
             in (with_store S s)\<lparr>sy_ports_written :=
                    (sy_ports_written S)(dev := if wrote then Some keys else None)\<rparr>)"

section \<open>Renames\<close>

definition noted_link :: "fs \<Rightarrow> topology \<Rightarrow> name \<Rightarrow> store \<Rightarrow> link option" where
  "noted_link fs T dev s =
     (case get T dev of
        None \<Rightarrow> None
      | Some l \<Rightarrow>
          (case recorded_index fs s dev of
             Some i \<Rightarrow> if i \<noteq> l_index l then None else Some l
           | None \<Rightarrow> Some l))"

definition renamed_target :: "fs \<Rightarrow> topology \<Rightarrow> name \<Rightarrow> store \<Rightarrow> (ifindex \<times> name) option" where
  "renamed_target fs T dev s =
     (case noted_index fs s dev of
        None \<Rightarrow> None
      | Some i \<Rightarrow> (case at T i of
                     None \<Rightarrow> None
                   | Some l \<Rightarrow> if l_name l = dev then None else Some (i, l_name l)))"

definition move_key :: "name \<Rightarrow> name \<Rightarrow> (name \<times> 'a) list \<Rightarrow> (name \<times> 'a) list" where
  "move_key old new m =
     (case map_of m old of None \<Rightarrow> m | Some v \<Rightarrow> AList.update new v (AList.delete old m))"

definition follow_rename ::
    "'w env \<Rightarrow> topology \<Rightarrow> name \<Rightarrow> name \<Rightarrow> ifindex \<Rightarrow> syncer \<Rightarrow> 'w \<Rightarrow> bool \<times> syncer \<times> 'w" where
  "follow_rename E T dev new i S w =
     (let (S, w) = load_ports E T dev S w;
          (moved, s) = migrate_note (e_fs E) (e_order E) (sy_store S) dev new i;
          S = with_store S s
      in if \<not> moved then (False, S, w)
         else
           let S = (case sy_carried_ports S dev of
                      None \<Rightarrow> S
                    | Some ps \<Rightarrow> S\<lparr>sy_carried_ports := (sy_carried_ports S)(dev := None, new \<mapsto> ps),
                                   sy_ports_loaded := insert new (sy_ports_loaded S)\<rparr>);
               S = S\<lparr>sy_ports_loaded := sy_ports_loaded S - {dev},
                     sy_ports_written := (sy_ports_written S)(dev := None, new := None),
                     sy_store := (sy_store S)\<lparr>st_said := said_rename (st_said (sy_store S)) dev new\<rparr>,
                     sy_carried := move_key dev new (sy_carried S)\<rparr>
           in (True, save_ports (e_fs E) T new (sy_last_pass_at S) S, w))"

section \<open>The event path's arm of the valve\<close>

definition drop_ports :: "syncer \<Rightarrow> name \<Rightarrow> mac list \<Rightarrow> syncer" where
  "drop_ports S dev macs =
     (case sy_carried_ports S dev of
        None \<Rightarrow> S
      | Some ps \<Rightarrow> S\<lparr>sy_carried_ports :=
                      (sy_carried_ports S)(dev \<mapsto> filter (\<lambda>(m, _). m \<notin> set macs) ps)\<rparr>)"

definition shed_keeps ::
    "'w env \<Rightarrow> topology \<Rightarrow> name \<Rightarrow> ifindex \<Rightarrow> nat \<Rightarrow> mac set \<Rightarrow> syncer \<Rightarrow> 'w \<Rightarrow> nat \<times> syncer \<times> 'w" where
  "shed_keeps E T dev i need on_card S w =
     (let S = with_store S (snd (load_owned (e_fs E) (sy_store S) dev)) in
      if \<not> note_is_readable (sy_store S) dev then (0, S, w)
      else case carried_of S dev of
        None \<Rightarrow> (0, S, w)
      | Some c \<Rightarrow>
          (case sy_carried_ports S dev of
             None \<Rightarrow> (0, S, w)
           | Some ps \<Rightarrow>
               let macs = shed_candidates c ps need in
               if macs = [] then (0, S, w)
               else
                 let (out, s, w) = retire E dev i macs (sy_store S) w; S = with_store S s in
                 if rt_dropped out = [] then (0, S, w)
                 else
                   let S = drop_ports S dev (rt_dropped out);
                       S = save_ports (e_fs E) T dev (c_passed_at c) S;
                       freed = length (filter (\<lambda>m. m \<in> on_card) (rt_dropped out))
                   in (freed, no_longer_kept S dev (rt_dropped out), w)))"

text \<open>\<open>read_back\<close>: one interface's list as the kernel holds it, read once per batch.\<close>

definition read_back ::
    "'w writer \<Rightarrow> ifindex \<Rightarrow> (ifindex \<rightharpoonup> mac set) \<Rightarrow> 'w
     \<Rightarrow> (io_error + mac set) \<times> (ifindex \<rightharpoonup> mac set) \<times> 'w" where
  "read_back K i cache w =
     (case cache i of
        Some held \<Rightarrow> (Inr held, cache, w)
      | None \<Rightarrow>
          (case k_dump_fdb_of K i w of
             (Inl e, w) \<Rightarrow> (Inl e, cache, w)
           | (Inr fdb, w) \<Rightarrow> (Inr (self_list fdb i), cache(i \<mapsto> self_list fdb i), w)))"

end
