(* ===== verification/Sweep.thy ===== *)
theory Sweep
  imports Card
begin

text \<open>
  Notes that no longer belong to an uplink: \<open>orphaned\<close> and \<open>drop_orphans\<close>, and \<open>flush\<close>, of
  \<^verbatim>\<open>src/sync/mod.rs\<close>.
\<close>

section \<open>Orphans\<close>

text \<open>
  \<open>orphaned\<close>: noted devices missing from the pairs for the whole grace period. \<open>now\<close> is one
  reading of the monotonic clock.
\<close>

fun orphan_loop ::
    "name set \<Rightarrow> nat \<Rightarrow> nat \<Rightarrow> name list \<Rightarrow> (name \<times> nat) list \<Rightarrow> name list \<times> (name \<times> nat) list" where
  "orphan_loop live now grace [] absent = ([], absent)"
| "orphan_loop live now grace (dev # devs) absent =
     (if dev \<in> live then orphan_loop live now grace devs absent
      else
        let (since, absent) = (case map_of absent dev of
                                 Some t \<Rightarrow> (t, absent)
                               | None \<Rightarrow> (now, AList.update dev now absent));
            (out, absent) = orphan_loop live now grace devs absent
        in (if grace \<le> now - since then dev # out else out, absent))"

definition orphaned :: "'w env \<Rightarrow> syncer \<Rightarrow> 'w \<Rightarrow> name list \<times> syncer \<times> 'w" where
  "orphaned E S w =
     (if \<not> sy_authoritative S then ([], S\<lparr>sy_absent_since := []\<rparr>, w)
      else
        let (now, w) = k_instant (e_kernel E) w;
            live = set (map p_dev (sy_pairs S));
            noted = noted_devices_or_none (e_fs E) (sy_store S);
            absent = filter (\<lambda>(dev, _). dev \<in> set noted \<and> dev \<notin> live) (sy_absent_since S);
            (out, absent) = orphan_loop live now (sy_orphan_grace S) noted absent
        in (out, S\<lparr>sy_absent_since := absent\<rparr>, w))"

text \<open>What a pass could not do without stopping: \<open>timings.failures\<close>, as values.\<close>

datatype failure =
    OrphansRemain name nat
  | NoteNotRewritten name
  | RegisterFailed name mac io_error
  | NoteUnusable name nat
  | UnregisterFailed name mac io_error

text \<open>The locked stretch of \<open>drop_orphans\<close>: whether the note is gone.\<close>

definition drop_orphan_locked ::
    "'w env \<Rightarrow> topology \<Rightarrow> name \<Rightarrow> store \<Rightarrow> 'w \<Rightarrow> bool \<times> failure list \<times> store \<times> 'w" where
  "drop_orphan_locked E T dev s w =
     (let s = locked (e_fs E) s dev;
          (owned, s) = load_owned (e_fs E) s dev
      in if owned = {} then
           (if note_is_readable s dev then (True, [], remove_note s dev, w) else (False, [], s, w))
         else
           let ((gone, kept), w) =
                 (case noted_link (e_fs E) T dev s of
                    Some l \<Rightarrow> unregister_all (e_kernel E) (l_index l) (e_order E owned) w
                  | None \<Rightarrow> ((card owned, {}), w))
           in if kept = {} \<and> note_is_readable s dev then (True, [], remove_note s dev, w)
              else
                let (ok, s) = write_owned (e_fs E) s dev kept in
                (False, OrphansRemain dev (card kept) # (if ok then [] else [NoteNotRewritten dev]), s, w))"

text \<open>What is forgotten about a device that stopped being an uplink.\<close>

definition forget_device :: "name \<Rightarrow> bool \<Rightarrow> syncer \<Rightarrow> syncer" where
  "forget_device dev note_gone S =
     S\<lparr>sy_carried_ports := (sy_carried_ports S)(dev := None),
       sy_store := (sy_store S)\<lparr>st_said :=
          (if note_gone then said_forget (st_said (sy_store S)) dev
           else said_retire (st_said (sy_store S)) dev)\<rparr>,
       sy_carried := AList.delete dev (sy_carried S),
       sy_ports_loaded := sy_ports_loaded S - {dev},
       sy_ports_written := (sy_ports_written S)(dev := None)\<rparr>"

definition say_index :: "name \<Rightarrow> store \<Rightarrow> store" where
  "say_index dev s = s\<lparr>st_said := (st_said s)\<lparr>sd_index := insert dev (sd_index (st_said s))\<rparr>\<rparr>"

text \<open>One orphan of \<open>drop_orphans\<close>.\<close>

definition take_out_orphan ::
    "'w env \<Rightarrow> topology \<Rightarrow> bool \<Rightarrow> name \<Rightarrow> syncer \<Rightarrow> 'w \<Rightarrow> failure list \<times> syncer \<times> 'w" where
  "take_out_orphan E T apply_it dev S w =
     (if \<not> apply_it \<or> sy_dry_run S
      then ([], with_store S (snd (load_owned (e_fs E) (sy_store S) dev)), w)
      else
        let (note_gone, fails, s, w) = drop_orphan_locked E T dev (sy_store S) w
        in (fails, forget_device dev note_gone (with_store S s), w))"

definition drop_orphan ::
    "'w env \<Rightarrow> topology \<Rightarrow> bool \<Rightarrow> name \<Rightarrow> syncer \<Rightarrow> 'w \<Rightarrow> failure list \<times> syncer \<times> 'w" where
  "drop_orphan E T apply_it dev S w =
     (if noted_link (e_fs E) T dev (sy_store S) \<noteq> None then take_out_orphan E T apply_it dev S w
      else if noted_index (e_fs E) (sy_store S) dev = None then
        (let (owned, s) = load_owned (e_fs E) (sy_store S) dev; S = with_store S s in
         if owned \<noteq> {} then ([], with_store S (say_index dev s), w)
         else take_out_orphan E T apply_it dev S w)
      else case renamed_target (e_fs E) T dev (sy_store S) of
             Some (i, new) \<Rightarrow>
               if \<not> apply_it \<or> sy_dry_run S then ([], S, w)
               else (let (_, S, w) = follow_rename E T dev new i S w in ([], S, w))
           | None \<Rightarrow> take_out_orphan E T apply_it dev S w)"

fun drop_orphan_list ::
    "'w env \<Rightarrow> topology \<Rightarrow> bool \<Rightarrow> name list \<Rightarrow> syncer \<Rightarrow> 'w \<Rightarrow> failure list \<times> syncer \<times> 'w" where
  "drop_orphan_list E T apply_it [] S w = ([], S, w)"
| "drop_orphan_list E T apply_it (dev # devs) S w =
     (let (f1, S, w) = drop_orphan E T apply_it dev S w;
          (f2, S, w) = drop_orphan_list E T apply_it devs S w
      in (f1 @ f2, S, w))"

definition drop_orphans ::
    "'w env \<Rightarrow> topology \<Rightarrow> bool \<Rightarrow> syncer \<Rightarrow> 'w \<Rightarrow> failure list \<times> syncer \<times> 'w" where
  "drop_orphans E T apply_it S w =
     (let (devs, S, w) = orphaned E S w in drop_orphan_list E T apply_it devs S w)"

section \<open>Flush\<close>

text \<open>The locked stretch of \<open>flush\<close> for one note: whether it is settled.\<close>

definition flush_device :: "'w env \<Rightarrow> topology \<Rightarrow> name \<Rightarrow> store \<Rightarrow> 'w \<Rightarrow> bool \<times> store \<times> 'w" where
  "flush_device E T dev s w =
     (let s = locked (e_fs E) s dev;
          (owned, s) = load_owned (e_fs E) s dev;
          i = (case noted_link (e_fs E) T dev s of
                 Some l \<Rightarrow> Some (l_index l)
               | None \<Rightarrow> map_option fst (renamed_target (e_fs E) T dev s));
          ((gone, kept), w) =
            (case i of
               Some i \<Rightarrow> unregister_all (e_kernel E) i (e_order E owned) w
             | None \<Rightarrow> ((card owned, {}), w))
      in if kept = {} \<and> note_is_readable s dev then (True, remove_note s dev, w)
         else if \<not> note_is_readable s dev then (False, s, w)
         else (False, snd (write_owned (e_fs E) s dev kept), w))"

fun flush_list ::
    "'w env \<Rightarrow> topology \<Rightarrow> bool \<Rightarrow> name list \<Rightarrow> store \<Rightarrow> 'w \<Rightarrow> bool \<times> store \<times> 'w" where
  "flush_list E T dry_run [] s w = (True, s, w)"
| "flush_list E T dry_run (dev # devs) s w =
     (let (ok, s, w) =
            (if dry_run then
               (let (_, s) = load_owned (e_fs E) s dev in (note_is_readable s dev, s, w))
             else flush_device E T dev s w);
          (oks, s, w) = flush_list E T dry_run devs s w
      in (ok \<and> oks, s, w))"

definition flush ::
    "'w env \<Rightarrow> sysfs \<Rightarrow> (ifindex \<rightharpoonup> device_facts) \<Rightarrow> syncer \<Rightarrow> 'w \<Rightarrow> (io_error + bool) \<times> syncer \<times> 'w" where
  "flush E sysfs facts S w =
     (case k_dump_links (e_kernel E) w of
        (Inl e, w) \<Rightarrow> (Inl e, S, w)
      | (Inr infos, w) \<Rightarrow>
          (case noted_devices (e_fs E) (sy_store S) of
             Inl e \<Rightarrow> (Inl e, S, w)
           | Inr devs \<Rightarrow>
               let (ok, s, w) =
                     flush_list E (fst (from_links sysfs infos facts)) (sy_dry_run S) devs (sy_store S) w
               in (Inr ok, with_store S s, w)))"

end
