(* ===== verification/Reconcile.thy ===== *)
theory Reconcile
  imports Sweep
begin

text \<open>
  \<open>Syncer::reconcile\<close> of \<^verbatim>\<open>src/sync/mod.rs\<close>: one pass against a fresh dump. The source is one long
  function whose order is the content; here each stretch of it is a definition, composed in
  that order. Timing figures and printed text are left out.
\<close>

record detail =
  dt_wanted :: "mac list"
  dt_quiet_ages :: "(mac \<times> nat) list"
  dt_learnt_behind :: "(mac \<times> name) list"

record report =
  rp_dev :: name
  rp_bridge :: name
  rp_port :: name
  rp_driver :: name
  rp_wanted :: nat
  rp_owned :: nat
  rp_present :: nat
  rp_stacked :: "name list"
  rp_added :: nat
  rp_removed :: nat
  rp_foreign :: nat
  rp_quiet :: nat
  rp_detail :: "detail option"

section \<open>Whose note is it\<close>

text \<open>
  A note found by name has to be about this interface: \<open>None\<close> leaves the pair alone for this
  pass.
\<close>

definition say_reused :: "name \<Rightarrow> syncer \<Rightarrow> syncer" where
  "say_reused dev S =
     (let s = sy_store S in
      with_store S (s\<lparr>st_said := (st_said s)\<lparr>sd_reused := insert dev (sd_reused (st_said s))\<rparr>\<rparr>))"

definition settle_identity ::
    "'w env \<Rightarrow> topology \<Rightarrow> bool \<Rightarrow> name \<Rightarrow> ifindex \<Rightarrow> syncer \<Rightarrow> 'w \<Rightarrow> bool \<times> syncer \<times> 'w" where
  "settle_identity E T apply_it dev i S w =
     (if (case recorded_index (e_fs E) (sy_store S) dev of None \<Rightarrow> False | Some j \<Rightarrow> j \<noteq> i) then
        (if \<not> apply_it \<or> sy_dry_run S then (False, say_reused dev S, w)
         else case renamed_target (e_fs E) T dev (sy_store S) of
           Some (j, new) \<Rightarrow> follow_rename E T dev new j S w
         | None \<Rightarrow>
             (True,
              forget_device dev True
                (with_store S (remove_note (locked (e_fs E) (sy_store S) dev) dev)), w))
      else (True, S, w))"

section \<open>What is wanted, with the grow-only refresh\<close>

definition newly_quiet :: "syncer \<Rightarrow> name \<Rightarrow> mac set \<Rightarrow> bool" where
  "newly_quiet S dev kept =
     (case carried_of S dev of Some c \<Rightarrow> \<not> kept \<subseteq> c_quiet c | None \<Rightarrow> kept \<noteq> {})"

text \<open>The driver's answer a pass works with: the addresses, and whether they were carried.\<close>

definition decide_wanted ::
    "'w env \<Rightarrow> topology \<Rightarrow> name \<Rightarrow> anatomy \<Rightarrow> ifindex list \<Rightarrow> fdb_entry list \<Rightarrow> mac set \<Rightarrow> mac set
     \<Rightarrow> vf_macs \<times> bool \<Rightarrow> syncer \<Rightarrow> 'w
     \<Rightarrow> (io_error + wanted \<times> vf_macs \<times> bool) \<times> syncer \<times> 'w" where
  "decide_wanted E T dev an pfs fdb owned_before present vf S w =
     (case vf of (vfs, carried) \<Rightarrow>
        let d = wanted_with_keeps S T an fdb vfs owned_before in
        if carried \<and> (newly_quiet S dev (w_kept d) \<or> \<not> w_want d \<subseteq> present) then
          (let S = S\<lparr>sy_vf_stale := True\<rparr> in
           case k_vf_macs_of (e_kernel E) pfs w of
             (Inl e, w) \<Rightarrow> (Inl e, S, w)
           | (Inr fresh, w) \<Rightarrow>
               let S = remember_vf S pfs fresh in
               (Inr (wanted_with_keeps S T an fdb fresh owned_before, fresh, False), S, w))
        else (Inr (d, vfs, carried), S, w))"

section \<open>What is said once\<close>

definition unknowable_vfs :: "topology \<Rightarrow> anatomy \<Rightarrow> vf_macs \<Rightarrow> (name \<times> nat \<times> nat) list" where
  "unknowable_vfs T an vfs =
     List.map_filter (\<lambda>pf.
        case at T pf of
          None \<Rightarrow> None
        | Some l \<Rightarrow>
            let named = length (filter (\<lambda>(i, m). i = pf \<and> m \<noteq> Mac 0 0 0 0 0 0) vfs);
                known = max named (length (l_vf_netdevs l))
            in if known < l_numvfs l then Some (l_name l, l_numvfs l - known, l_numvfs l) else None)
       (a_functions an)"

definition warn_about_unknowable_vfs :: "topology \<Rightarrow> name \<Rightarrow> anatomy \<Rightarrow> vf_macs \<Rightarrow> said \<Rightarrow> said" where
  "warn_about_unknowable_vfs T dev an vfs sd =
     (if unknowable_vfs T an vfs = [] then sd\<lparr>sd_unknown_vf := sd_unknown_vf sd - {dev}\<rparr>
      else sd\<lparr>sd_unknown_vf := insert dev (sd_unknown_vf sd)\<rparr>)"

definition note_unpinned :: "name \<Rightarrow> mac set \<Rightarrow> mac set \<Rightarrow> said \<Rightarrow> said" where
  "note_unpinned dev extra want sd = sd\<lparr>sd_extra := (sd_extra sd)(dev \<mapsto> extra - want)\<rparr>"

definition map_said :: "(said \<Rightarrow> said) \<Rightarrow> syncer \<Rightarrow> syncer" where
  "map_said f S = (let s = sy_store S in with_store S (s\<lparr>st_said := f (st_said s)\<rparr>))"

section \<open>Writing\<close>

text \<open>
  The card and the note of one pair brought to \<open>want\<close>: what was added, removed and left alone,
  what is owned afterwards, and what failed.
\<close>

record outcome =
  oc_owned :: "mac set"
  oc_added :: nat
  oc_removed :: nat
  oc_foreign :: nat
  oc_failures :: "failure list"

definition add_wanted ::
    "'w env \<Rightarrow> bool \<Rightarrow> name \<Rightarrow> ifindex \<Rightarrow> mac set \<Rightarrow> mac set \<Rightarrow> mac set \<Rightarrow> syncer \<Rightarrow> 'w
     \<Rightarrow> outcome \<times> syncer \<times> 'w" where
  "add_wanted E apply_it dev i owned_before present want S w =
     (let to_add = e_order E (want - present);
          foreign = card (want \<inter> present - owned_before);
          base = \<lparr>oc_owned = owned_before, oc_added = 0, oc_removed = 0, oc_foreign = foreign,
                  oc_failures = []\<rparr>;
          acts = (apply_it \<and> \<not> sy_dry_run S);
          S = (if acts \<and> \<not> (owned_before = {} \<and> to_add = [])
               then with_store S (note_index (e_fs E) (sy_store S) dev i) else S)
      in if \<not> acts then (base\<lparr>oc_added := length to_add\<rparr>, S, w)
         else if to_add = [] then (base, S, w)
         else
           let (r, s, w) = register_batch_locked E dev i to_add (sy_store S) w; S = with_store S s in
           (case r of
              Some r \<Rightarrow> (base\<lparr>oc_added := length (rg_put r), oc_owned := owned_before \<union> set (rg_put r),
                            oc_failures := map (\<lambda>(m, e). RegisterFailed dev m e) (rg_failures r)\<rparr>, S, w)
            | None \<Rightarrow> (base\<lparr>oc_failures := [NoteUnusable dev (length to_add)]\<rparr>, S, w)))"

definition remove_stale ::
    "'w env \<Rightarrow> bool \<Rightarrow> name \<Rightarrow> ifindex \<Rightarrow> mac set \<Rightarrow> outcome \<Rightarrow> syncer \<Rightarrow> 'w
     \<Rightarrow> outcome \<times> syncer \<times> 'w" where
  "remove_stale E apply_it dev i want oc S w =
     (let stale = e_order E (oc_owned oc - want) in
      if apply_it \<and> \<not> sy_dry_run S \<and> stale \<noteq> [] then
        (let (out, s, w) = retire E dev i stale (sy_store S) w;
             S = drop_ports (with_store S s) dev (map fst (rt_failed out))
         in (oc\<lparr>oc_removed := oc_removed oc + length (rt_dropped out),
                oc_owned := oc_owned oc - set (rt_dropped out),
                oc_failures := oc_failures oc
                  @ map (\<lambda>(m, e). UnregisterFailed dev m e) (rt_failed out)\<rparr>, S, w))
      else (oc\<lparr>oc_removed := oc_removed oc + length stale\<rparr>, S, w))"

definition merge_note :: "'w env \<Rightarrow> bool \<Rightarrow> name \<Rightarrow> mac set \<Rightarrow> mac set \<Rightarrow> syncer \<Rightarrow> syncer" where
  "merge_note E apply_it dev owned_before owned S =
     (if apply_it \<and> owned \<noteq> owned_before
      then with_store S (save_owned_merged (e_fs E) (sy_dry_run S) (sy_store S) dev owned_before owned)
      else S)"

section \<open>Remembering\<close>

definition learn_ports :: "(mac \<rightharpoonup> ifindex) \<Rightarrow> mac list \<Rightarrow> nat \<Rightarrow> ports \<Rightarrow> ports" where
  "learn_ports learnt ms pass_at ps = fold (\<lambda>m ps. note_seen ps m (learnt m) pass_at) ms ps"

definition follow_pass ::
    "'w env \<Rightarrow> topology \<Rightarrow> bool \<Rightarrow> name \<Rightarrow> bool \<Rightarrow> (mac \<times> ifindex) list \<Rightarrow> mac set \<Rightarrow> nat \<Rightarrow> syncer \<Rightarrow> syncer" where
  "follow_pass E T apply_it dev readable learnt owned pass_at S =
     (if \<not> readable then S
      else
        let ps = (case sy_carried_ports S dev of None \<Rightarrow> [] | Some ps \<Rightarrow> ps);
            ps = filter (\<lambda>(m, _). m \<in> owned) 
                   (learn_ports (map_of learnt) (e_order E (set (map fst learnt))) pass_at ps);
            S = S\<lparr>sy_carried_ports := (sy_carried_ports S)(dev \<mapsto> ps)\<rparr>
        in if apply_it then save_ports (e_fs E) T dev pass_at S else S)"

definition mark_capacity :: "name \<Rightarrow> nat \<Rightarrow> nat \<Rightarrow> said \<Rightarrow> said" where
  "mark_capacity dev occupied limit sd =
     (let sd = (if limit < occupied then sd\<lparr>sd_over := insert dev (sd_over sd)\<rparr>
                else sd\<lparr>sd_over := sd_over sd - {dev}\<rparr>)
      in if occupied + headroom limit \<le> limit then sd\<lparr>sd_tight := sd_tight sd - {dev}\<rparr> else sd)"

definition leave_carried ::
    "name \<Rightarrow> name \<Rightarrow> nat \<Rightarrow> mac set \<Rightarrow> mac set \<Rightarrow> bool \<Rightarrow> nat \<Rightarrow> syncer \<Rightarrow> syncer" where
  "leave_carried dev crd occupied kept wire readable pass_at S =
     S\<lparr>sy_carried := AList.update dev
         \<lparr>c_card = crd, c_occupancy = occupied, c_quiet = kept, c_wire = wire,
          c_passed_at = (if readable then pass_at
                         else (case carried_of S dev of None \<Rightarrow> 0 | Some c \<Rightarrow> c_passed_at c))\<rparr>
         (sy_carried S)\<rparr>"

definition detail_of :: "'w env \<Rightarrow> topology \<Rightarrow> name \<Rightarrow> mac set \<Rightarrow> mac set \<Rightarrow> nat \<Rightarrow> syncer \<Rightarrow> detail" where
  "detail_of E T dev want kept pass_at S =
     \<lparr>dt_wanted = e_order E want,
      dt_quiet_ages = map (\<lambda>(silent, m). (m, silent)) (silence_of S dev (e_order E kept) pass_at),
      dt_learnt_behind =
        (case sy_carried_ports S dev of
           None \<Rightarrow> []
         | Some ps \<Rightarrow> List.map_filter (\<lambda>(m, i, _). if m \<in> want then map_option (\<lambda>n. (m, n)) (name_of T i) else None) ps)\<rparr>"

section \<open>One pair\<close>

text \<open>The pressure of one pair: what is wanted and kept after the valve, and what the card then holds.\<close>

record pressed =
  pr_want :: "mac set"
  pr_kept :: "mac set"
  pr_occupied :: nat
  pr_card :: name

definition press_pair ::
    "topology \<Rightarrow> name \<Rightarrow> anatomy \<Rightarrow> fdb_entry list \<Rightarrow> mac set \<Rightarrow> wanted \<Rightarrow> syncer \<Rightarrow> pressed" where
  "press_pair T dev an fdb owned_before d S =
     (let on_card = self_list fdb (a_card an);
          occupied = card (w_want d) + card (on_card - w_want d - owned_before);
          crd = (case name_of T (a_card an) of Some n \<Rightarrow> n | None \<Rightarrow> dev);
          (want, kept, shed) = press_at_pass S dev crd occupied (w_want d) (w_kept d)
      in \<lparr>pr_want = want, pr_kept = kept, pr_occupied = occupied - shed, pr_card = crd\<rparr>)"

text \<open>Everything after the driver question: press, write, remember, report.\<close>

definition finish_pair ::
    "'w env \<Rightarrow> topology \<Rightarrow> bool \<Rightarrow> pair \<Rightarrow> link \<Rightarrow> anatomy \<Rightarrow> fdb_entry list \<Rightarrow> nat \<Rightarrow> mac set \<Rightarrow> bool
     \<Rightarrow> wanted \<Rightarrow> vf_macs \<Rightarrow> syncer \<Rightarrow> 'w \<Rightarrow> report \<times> failure list \<times> syncer \<times> 'w" where
  "finish_pair E T apply_it p dl an fdb pass_at owned_before readable d vfs S w =
     (let dev = p_dev p;
          present = self_list fdb (l_index dl);
          S = map_said (warn_about_unknowable_vfs T dev an vfs) S;
          S = map_said (note_unpinned dev (sy_extra S) (w_want d)) S;
          pr = press_pair T dev an fdb owned_before d S;
          (oc, S, w) = add_wanted E apply_it dev (l_index dl) owned_before present (pr_want pr) S w;
          (oc, S, w) = remove_stale E apply_it dev (l_index dl) (pr_want pr) oc S w;
          S = merge_note E apply_it dev owned_before (oc_owned oc) S;
          S = follow_pass E T apply_it dev readable (w_learnt_at d) (oc_owned oc) pass_at S;
          S = (if apply_it then map_said (mark_capacity dev (pr_occupied pr) (limit_of S (pr_card pr))) S
               else S);
          S = leave_carried dev (pr_card pr) (pr_occupied pr) (pr_kept pr) (w_wire d) readable pass_at S;
          rep = \<lparr>rp_dev = dev, rp_bridge = p_bridge p,
                 rp_port = (case name_of T (a_port an) of Some n \<Rightarrow> n | None \<Rightarrow> dev),
                 rp_driver = (case l_driver dl of Some n \<Rightarrow> n | None \<Rightarrow> []),
                 rp_wanted = card (pr_want pr), rp_owned = card (oc_owned oc),
                 rp_present = card present, rp_stacked = w_stacked d, rp_added = oc_added oc,
                 rp_removed = oc_removed oc, rp_foreign = oc_foreign oc,
                 rp_quiet = card (pr_kept pr),
                 rp_detail = (if sy_detail S
                              then Some (detail_of E T dev (pr_want pr) (pr_kept pr) pass_at S) else None)\<rparr>
      in (rep, oc_failures oc, S, w))"

text \<open>
  One turn of the pair loop: nothing to report for a pair that is left alone, an error when the
  driver would not answer.
\<close>

definition reconcile_pair ::
    "'w env \<Rightarrow> topology \<Rightarrow> bool \<Rightarrow> ifindex list \<Rightarrow> fdb_entry list \<Rightarrow> nat \<Rightarrow> pair \<Rightarrow> vf_macs \<times> bool
     \<Rightarrow> syncer \<Rightarrow> 'w
     \<Rightarrow> (io_error + report option \<times> failure list \<times> (vf_macs \<times> bool)) \<times> syncer \<times> 'w" where
  "reconcile_pair E T apply_it pfs fdb pass_at p vf S w =
     (case get T (p_dev p) of
        None \<Rightarrow> (Inr (None, [], vf), S, w)
      | Some dl \<Rightarrow>
          (case index_of T (p_bridge p) of
             None \<Rightarrow> (Inr (None, [], vf), S, w)
           | Some br \<Rightarrow>
               (case anatomy_of T (l_index dl) br of
                  None \<Rightarrow> (Inr (None, [], vf), S, w)
                | Some an \<Rightarrow>
                    let (go, S, w) = settle_identity E T apply_it (p_dev p) (l_index dl) S w in
                    if \<not> go then (Inr (None, [], vf), S, w)
                    else
                      let (S, w) = load_ports E T (p_dev p) S w;
                          (owned_before, s) = load_owned (e_fs E) (sy_store S) (p_dev p);
                          S = with_store S s;
                          readable = note_is_readable (sy_store S) (p_dev p)
                      in (case decide_wanted E T (p_dev p) an pfs fdb owned_before
                                 (self_list fdb (l_index dl)) vf S w of
                            (Inl e, S, w) \<Rightarrow> (Inl e, S, w)
                          | (Inr (d, vfs, carried), S, w) \<Rightarrow>
                              let (rep, fails, S, w) =
                                    finish_pair E T apply_it p dl an fdb pass_at owned_before readable d vfs S w
                              in (Inr (Some rep, fails, (vfs, carried)), S, w)))))"

fun reconcile_pairs ::
    "'w env \<Rightarrow> topology \<Rightarrow> bool \<Rightarrow> ifindex list \<Rightarrow> fdb_entry list \<Rightarrow> nat \<Rightarrow> pair list \<Rightarrow> vf_macs \<times> bool
     \<Rightarrow> syncer \<Rightarrow> 'w \<Rightarrow> (io_error + report list \<times> failure list) \<times> syncer \<times> 'w" where
  "reconcile_pairs E T apply_it pfs fdb pass_at [] vf S w = (Inr ([], []), S, w)"
| "reconcile_pairs E T apply_it pfs fdb pass_at (p # ps) vf S w =
     (case reconcile_pair E T apply_it pfs fdb pass_at p vf S w of
        (Inl e, S, w) \<Rightarrow> (Inl e, S, w)
      | (Inr (rep, f1, vf), S, w) \<Rightarrow>
          (case reconcile_pairs E T apply_it pfs fdb pass_at ps vf S w of
             (Inl e, S, w) \<Rightarrow> (Inl e, S, w)
           | (Inr (reps, f2), S, w) \<Rightarrow>
               (Inr ((case rep of None \<Rightarrow> reps | Some r \<Rightarrow> r # reps), f1 @ f2), S, w)))"

section \<open>The pass\<close>

text \<open>The driver's answer a pass or a batch starts from: carried where it fits, else asked for.\<close>

definition ask_vfs ::
    "'w env \<Rightarrow> ifindex list \<Rightarrow> syncer \<Rightarrow> 'w \<Rightarrow> (io_error + vf_macs \<times> bool) \<times> syncer \<times> 'w" where
  "ask_vfs E pfs S w =
     (case carried_vf_for S pfs of
        Some kept \<Rightarrow> (Inr (kept, True), S, w)
      | None \<Rightarrow>
          (case k_vf_macs_of (e_kernel E) pfs w of
             (Inl e, w) \<Rightarrow> (Inl e, S, w)
           | (Inr fresh, w) \<Rightarrow> (Inr (fresh, False), remember_vf S pfs fresh, w)))"

definition reconcile ::
    "'w env \<Rightarrow> topology \<Rightarrow> bool \<Rightarrow> syncer \<Rightarrow> 'w \<Rightarrow> (io_error + report list \<times> failure list) \<times> syncer \<times> 'w" where
  "reconcile E T apply_it S w =
     (if sy_pairs S = [] then
        (let (fails, S, w) = drop_orphans E T apply_it S w in (Inr ([], fails), S, w))
      else
        case k_dump_fdb (e_kernel E) w of
          (Inl e, w) \<Rightarrow> (Inl e, S, w)
        | (Inr fdb, w) \<Rightarrow>
            let pfs = live_pfs T (map p_dev (sy_pairs S)) in
            (case ask_vfs E pfs S w of
               (Inl e, S, w) \<Rightarrow> (Inl e, S, w)
             | (Inr vf, S, w) \<Rightarrow>
                 let (now, w) = k_boot_millis (e_kernel E) w;
                     pass_at = max now (sy_last_pass_at S + 1);
                     S = S\<lparr>sy_last_pass_at := pass_at\<rparr>;
                     (fails, S, w) = drop_orphans E T apply_it S w
                 in (case reconcile_pairs E T apply_it pfs fdb pass_at (sy_pairs S) vf S w of
                       (Inl e, S, w) \<Rightarrow> (Inl e, S, w)
                     | (Inr (reps, f2), S, w) \<Rightarrow> (Inr (reps, fails @ f2), S, w))))"

end
