(* ===== verification/Fast_Path.thy ===== *)
theory Fast_Path
  imports Reconcile
begin

text \<open>
  \<open>Syncer::fast_apply\<close> and \<open>fast_add\<close> of \<^verbatim>\<open>src/sync/mod.rs\<close>: a batch of forwarding notifications
  answered before the pass that follows. As in \<open>Reconcile\<close>, each stretch of the one long
  function is a definition and the composition keeps the source's order.
\<close>

section \<open>Urgency\<close>

datatype urgency = Nothing | WhenConvenient | Now

primrec urgency_rank :: "urgency \<Rightarrow> nat" where
  "urgency_rank Nothing = 0"
| "urgency_rank WhenConvenient = 1"
| "urgency_rank Now = 2"

lemma urgency_rank_inject [simp]: "urgency_rank x = urgency_rank y \<longleftrightarrow> x = y"
  by (cases x; cases y) auto

instantiation urgency :: linorder
begin

definition less_eq_urgency :: "urgency \<Rightarrow> urgency \<Rightarrow> bool" where
  "less_eq_urgency x y \<longleftrightarrow> urgency_rank x \<le> urgency_rank y"

definition less_urgency :: "urgency \<Rightarrow> urgency \<Rightarrow> bool" where
  "less_urgency x y \<longleftrightarrow> urgency_rank x < urgency_rank y"

instance
  by standard (auto simp: less_eq_urgency_def less_urgency_def simp flip: urgency_rank_inject)

end

section \<open>The pairs of a batch\<close>

datatype fast_phase = Decide | Commit

record fast_pair =
  fp_anat :: anatomy
  fp_reach :: reach
  fp_dev :: name
  fp_skip :: "mac set"
  fp_reflected :: "mac set"
  fp_vf_own :: "mac set"

type_synonym candidates = "(name \<times> (mac \<times> ifindex) list) list"

definition fast_pair_of ::
    "syncer \<Rightarrow> topology \<Rightarrow> vf_macs \<times> bool \<Rightarrow> pair \<Rightarrow> fast_pair option" where
  "fast_pair_of S T vf p =
     (case (index_of T (p_dev p), index_of T (p_bridge p)) of
        (Some dev, Some bridge) \<Rightarrow>
          map_option (\<lambda>an.
              \<lparr>fp_anat = an, fp_reach = reach_of T bridge, fp_dev = p_dev p,
               fp_skip = exclusions S T an (fst vf), fp_reflected = {},
               fp_vf_own = (if snd vf then vf_reported (a_functions an) (fst vf) else {})\<rparr>)
            (anatomy_of T dev bridge)
      | _ \<Rightarrow> None)"

definition fast_pairs :: "syncer \<Rightarrow> topology \<Rightarrow> vf_macs \<times> bool \<Rightarrow> fast_pair list" where
  "fast_pairs S T vf = List.map_filter (fast_pair_of S T vf) (sy_pairs S)"

definition push_candidate :: "name \<Rightarrow> mac \<times> ifindex \<Rightarrow> candidates \<Rightarrow> candidates" where
  "push_candidate dev mp reg =
     AList.update dev ((case map_of reg dev of None \<Rightarrow> [] | Some xs \<Rightarrow> xs) @ [mp]) reg"

text \<open>One entry against one pair, in the order the source asks.\<close>

definition on_carried_wire :: "syncer \<Rightarrow> name \<Rightarrow> mac \<Rightarrow> bool" where
  "on_carried_wire S dev m =
     (case carried_of S dev of None \<Rightarrow> False | Some c \<Rightarrow> m \<in> c_wire c)"

definition fast_add_pair ::
    "syncer \<Rightarrow> fast_phase \<Rightarrow> fdb_entry \<Rightarrow> ifindex \<Rightarrow> fast_pair \<Rightarrow> bool \<times> candidates \<Rightarrow> bool \<times> candidates" where
  "fast_add_pair S phase e master fp acc =
     (case acc of (ours, reg) \<Rightarrow>
        if fe_ifindex e \<in> set (a_siblings (fp_anat fp)) then (ours, reg)
        else if fe_mac e \<in> fp_skip fp then
          (ours, if phase = Decide \<and> fe_mac e \<in> fp_vf_own fp
                 then push_candidate (fp_dev fp) (fe_mac e, fe_ifindex e) reg else reg)
        else if on_carried_wire S (fp_dev fp) (fe_mac e) then (True, reg)
        else if classify (fp_reach fp) (fe_ifindex e) master (a_port (fp_anat fp)) \<noteq> Behind
          then (ours, reg)
        else if fe_mac e \<in> fp_reflected fp then (True, reg)
        else (True, push_candidate (fp_dev fp) (fe_mac e, fe_ifindex e) reg))"

definition fast_add ::
    "syncer \<Rightarrow> topology \<Rightarrow> fast_phase \<Rightarrow> fast_pair list \<Rightarrow> fdb_entry \<Rightarrow> candidates \<Rightarrow> bool \<times> candidates" where
  "fast_add S T phase fps e reg =
     (if \<not> is_learned e \<or> \<not> is_registerable (fe_mac e) then (False, reg)
      else case fe_master e of
        None \<Rightarrow> (False, reg)
      | Some master \<Rightarrow>
          if at T (fe_ifindex e) = None then (False, reg)
          else fold (fast_add_pair S phase e master) fps (False, reg))"

text \<open>All \<open>RTM_NEWNEIGH\<close> events of a batch; whether any of them was ours.\<close>

definition fast_add_event ::
    "syncer \<Rightarrow> topology \<Rightarrow> fast_phase \<Rightarrow> fast_pair list \<Rightarrow> u16 \<times> fdb_entry \<Rightarrow> bool \<times> candidates
     \<Rightarrow> bool \<times> candidates" where
  "fast_add_event S T phase fps ev acc =
     (case ev of (kind, e) \<Rightarrow> case acc of (ours, reg) \<Rightarrow>
        if kind \<noteq> RTM_NEWNEIGH then (ours, reg)
        else (let (o1, reg) = fast_add S T phase fps e reg in (ours \<or> o1, reg)))"

definition fast_candidates ::
    "syncer \<Rightarrow> topology \<Rightarrow> fast_phase \<Rightarrow> fast_pair list \<Rightarrow> (u16 \<times> fdb_entry) list \<Rightarrow> bool \<times> candidates" where
  "fast_candidates S T phase fps evs = fold (fast_add_event S T phase fps) evs (False, [])"

section \<open>Reflections\<close>

text \<open>What the batch saw arrive on the uplink's own port, or on a sibling of it.\<close>

definition reflected_on :: "fast_pair \<Rightarrow> u16 \<times> fdb_entry \<Rightarrow> bool" where
  "reflected_on fp ev =
     (case ev of (kind, e) \<Rightarrow>
        kind = RTM_NEWNEIGH \<and> is_learned e \<and> is_unicast e
        \<and> (fe_ifindex e = a_port (fp_anat fp) \<or> fe_ifindex e \<in> set (a_siblings (fp_anat fp))))"

definition reflected_macs :: "fast_pair list \<Rightarrow> (u16 \<times> fdb_entry) list \<Rightarrow> name \<Rightarrow> mac set" where
  "reflected_macs fps evs dev =
     set (map (\<lambda>(_, e). fe_mac e)
       (filter (\<lambda>ev. list_ex (\<lambda>fp. fp_dev fp = dev \<and> reflected_on fp ev) fps) evs))"

text \<open>The removal that answers a reflection, for one pair.\<close>

definition shrink_occupancy :: "name \<Rightarrow> nat \<Rightarrow> syncer \<Rightarrow> syncer" where
  "shrink_occupancy dev n S =
     (case carried_of S dev of
        None \<Rightarrow> S
      | Some c \<Rightarrow> S\<lparr>sy_carried := AList.update dev (c\<lparr>c_occupancy := c_occupancy c - n\<rparr>) (sy_carried S)\<rparr>)"

definition carried_or_default :: "syncer \<Rightarrow> name \<Rightarrow> carried" where
  "carried_or_default S dev = (case carried_of S dev of None \<Rightarrow> default_carried | Some c \<Rightarrow> c)"

definition remember_wire :: "name \<Rightarrow> mac list \<Rightarrow> syncer \<Rightarrow> syncer" where
  "remember_wire dev macs S =
     (if macs = [] then S
      else let c = carried_or_default S dev in
           S\<lparr>sy_carried := AList.update dev (c\<lparr>c_wire := c_wire c \<union> set macs\<rparr>) (sy_carried S)\<rparr>)"

definition reflect_pair ::
    "'w env \<Rightarrow> topology \<Rightarrow> mac set \<Rightarrow> fast_pair \<Rightarrow> urgency \<Rightarrow> syncer \<Rightarrow> 'w \<Rightarrow> urgency \<times> syncer \<times> 'w" where
  "reflect_pair E T macs fp u S w =
     (if macs = {} then (u, S, w)
      else
        let dev = fp_dev fp; (o1, s) = load_owned (e_fs E) (sy_store S) dev; S = with_store S s in
        if macs \<inter> o1 = {} then (u, S, w)
        else
          let (owned, s) = load_owned (e_fs E) (sy_store S) dev;
              ours = filter (\<lambda>m. m \<in> owned) (e_order E macs);
              (out, s, w) = retire E dev (a_dev (fp_anat fp)) ours s w;
              S = with_store S s;
              u = (if rt_removed out \<noteq> [] \<or> rt_failed out \<noteq> [] then Now else u);
              S = (if ours = [] then S
                   else
                     let S = drop_ports S dev ours;
                         S = no_longer_kept S dev ours;
                         S = shrink_occupancy dev (length (rt_removed out)) S;
                         passed = (case carried_of S dev of None \<Rightarrow> 0 | Some c \<Rightarrow> c_passed_at c)
                     in save_ports (e_fs E) T dev passed S)
          in (u, remember_wire dev (rt_removed out) S, w))"

fun reflect_pairs ::
    "'w env \<Rightarrow> topology \<Rightarrow> (name \<Rightarrow> mac set) \<Rightarrow> fast_pair list \<Rightarrow> urgency \<Rightarrow> syncer \<Rightarrow> 'w
     \<Rightarrow> fast_pair list \<times> urgency \<times> syncer \<times> 'w" where
  "reflect_pairs E T rf [] u S w = ([], u, S, w)"
| "reflect_pairs E T rf (fp # fps) u S w =
     (let macs = rf (fp_dev fp);
          (u, S, w) = reflect_pair E T macs fp u S w;
          (fps, u, S, w) = reflect_pairs E T rf fps u S w
      in (fp\<lparr>fp_reflected := fp_reflected fp \<union> macs\<rparr> # fps, u, S, w))"

section \<open>The grow-only driver refresh\<close>

definition find_pair :: "fast_pair list \<Rightarrow> name \<Rightarrow> fast_pair option" where
  "find_pair fps dev = find (\<lambda>fp. fp_dev fp = dev) fps"

text \<open>What would really grow: ours and in the card was vetted by the answer that let it in.\<close>

fun growing ::
    "'w env \<Rightarrow> fast_pair list \<Rightarrow> candidates \<Rightarrow> (ifindex \<rightharpoonup> mac set) \<Rightarrow> syncer \<Rightarrow> 'w
     \<Rightarrow> (io_error + candidates) \<times> (ifindex \<rightharpoonup> mac set) \<times> syncer \<times> 'w" where
  "growing E fps [] cache S w = (Inr [], cache, S, w)"
| "growing E fps ((dev, macs) # rest) cache S w =
     (case find_pair fps dev of
        None \<Rightarrow>
          (case growing E fps rest cache S w of
             (Inl e, r) \<Rightarrow> (Inl e, r)
           | (Inr xs, r) \<Rightarrow> (Inr ((dev, macs) # xs), r))
      | Some fp \<Rightarrow>
          (case read_back (e_kernel E) (a_dev (fp_anat fp)) cache w of
             (Inl e, cache, w) \<Rightarrow> (Inl e, cache, S, w)
           | (Inr present, cache, w) \<Rightarrow>
               let (owned, s) = load_owned (e_fs E) (sy_store S) dev; S = with_store S s;
                   macs = filter (\<lambda>(m, _). \<not> (m \<in> owned \<and> m \<in> present)) macs
               in (case growing E fps rest cache S w of
                     (Inl e, r) \<Rightarrow> (Inl e, r)
                   | (Inr xs, r) \<Rightarrow> (Inr ((dev, macs) # xs), r))))"

definition refresh_pairs :: "syncer \<Rightarrow> topology \<Rightarrow> vf_macs \<Rightarrow> fast_pair list \<Rightarrow> fast_pair list" where
  "refresh_pairs S T fresh fps = map (\<lambda>fp. fp\<lparr>fp_skip := exclusions S T (fp_anat fp) fresh\<rparr>) fps"

definition grow_refresh ::
    "'w env \<Rightarrow> topology \<Rightarrow> ifindex list \<Rightarrow> vf_macs \<times> bool \<Rightarrow> fast_pair list \<Rightarrow> (u16 \<times> fdb_entry) list
     \<Rightarrow> syncer \<Rightarrow> 'w \<Rightarrow> (io_error + fast_pair list) \<times> (ifindex \<rightharpoonup> mac set) \<times> syncer \<times> 'w" where
  "grow_refresh E T pfs vf fps evs S w =
     (if \<not> snd vf then (Inr fps, Map.empty, S, w)
      else
        case growing E fps (snd (fast_candidates S T Decide fps evs)) Map.empty S w of
          (Inl e, r) \<Rightarrow> (Inl e, r)
        | (Inr would, cache, S, w) \<Rightarrow>
            let would = filter (\<lambda>(_, macs). macs \<noteq> []) would in
            if would = [] then (Inr fps, cache, S, w)
            else
              let S = S\<lparr>sy_vf_stale := True\<rparr>;
                  ask = live_pfs T (map fst would);
                  unasked = filter (\<lambda>(pf, _). pf \<notin> set ask) (fst vf)
              in (case k_vf_macs_of (e_kernel E) ask w of
                    (Inl e, w) \<Rightarrow> (Inl e, cache, S, w)
                  | (Inr got, w) \<Rightarrow>
                      let S = remember_vf S pfs (unasked @ got) in
                      (Inr (refresh_pairs S T (unasked @ got) fps), cache, S, w)))"

section \<open>Writing the batch\<close>

definition stamp_learns :: "name \<Rightarrow> mac list \<Rightarrow> (mac \<rightharpoonup> ifindex) \<Rightarrow> nat \<Rightarrow> syncer \<Rightarrow> syncer" where
  "stamp_learns dev macs learnt_on now S =
     (if dev \<in> sy_ports_loaded S then
        (let ps = (case sy_carried_ports S dev of None \<Rightarrow> [] | Some ps \<Rightarrow> ps) in
         S\<lparr>sy_carried_ports := (sy_carried_ports S)(dev \<mapsto> learn_ports learnt_on macs now ps)\<rparr>)
      else S)"

definition register_learns ::
    "'w env \<Rightarrow> topology \<Rightarrow> fast_pair \<Rightarrow> (mac \<times> ifindex) list \<Rightarrow> (ifindex \<rightharpoonup> mac set) \<Rightarrow> syncer \<Rightarrow> 'w
     \<Rightarrow> (io_error + unit) \<times> (ifindex \<rightharpoonup> mac set) \<times> syncer \<times> 'w" where
  "register_learns E T fp learns cache S w =
     (let dev = fp_dev fp;
          learnt_on = map_of (rev learns);
          macs = sorted_list_of_set (set (map fst learns));
          (now, w) = k_boot_millis (e_kernel E) w;
          S = stamp_learns dev macs learnt_on now S;
          crd = (case name_of T (a_card (fp_anat fp)) of Some n \<Rightarrow> n | None \<Rightarrow> dev)
      in case read_back (e_kernel E) (a_card (fp_anat fp)) cache w of
           (Inl e, cache, w) \<Rightarrow> (Inl e, cache, S, w)
         | (Inr on_card, cache, w) \<Rightarrow>
             let limit = limit_of S crd;
                 allowed = limit - headroom limit;
                 fresh_slots = length (filter (\<lambda>m. m \<notin> on_card) macs);
                 over = (card on_card + fresh_slots) - allowed;
                 (freed, S, w) = (if 0 < over
                    then shed_keeps E T dev (a_dev (fp_anat fp)) over on_card S w else (0, S, w));
                 S = (if 0 < over \<and> freed < over
                      then map_said (\<lambda>sd. sd\<lparr>sd_tight := insert dev (sd_tight sd)\<rparr>) S else S);
                 S = with_store S (note_index (e_fs E) (sy_store S) dev (a_dev (fp_anat fp)));
                 (r, s, w) = register_batch_locked E dev (a_dev (fp_anat fp)) macs (sy_store S) w;
                 S = with_store S s;
                 put = (case r of Some r \<Rightarrow> length (rg_put r) | None \<Rightarrow> 0);
                 c = carried_or_default S dev
             in (Inr (), cache,
                 S\<lparr>sy_carried := AList.update dev
                     (c\<lparr>c_card := crd, c_occupancy := (card on_card - freed) + put\<rparr>) (sy_carried S)\<rparr>, w))"

fun register_all ::
    "'w env \<Rightarrow> topology \<Rightarrow> fast_pair list \<Rightarrow> candidates \<Rightarrow> (ifindex \<rightharpoonup> mac set) \<Rightarrow> syncer \<Rightarrow> 'w
     \<Rightarrow> (io_error + unit) \<times> syncer \<times> 'w" where
  "register_all E T fps [] cache S w = (Inr (), S, w)"
| "register_all E T fps ((dev, learns) # rest) cache S w =
     (case find_pair fps dev of
        None \<Rightarrow> register_all E T fps rest cache S w
      | Some fp \<Rightarrow>
          (case register_learns E T fp learns cache S w of
             (Inl e, cache, S, w) \<Rightarrow> (Inl e, S, w)
           | (Inr _, cache, S, w) \<Rightarrow> register_all E T fps rest cache S w))"

section \<open>The batch\<close>

definition has_kind :: "u16 \<Rightarrow> (u16 \<times> fdb_entry) list \<Rightarrow> bool" where
  "has_kind k evs = list_ex (\<lambda>(kind, _). kind = k) evs"

text \<open>The part of \<open>fast_apply\<close> that acts on \<open>RTM_NEWNEIGH\<close>.\<close>

definition fast_learn ::
    "'w env \<Rightarrow> topology \<Rightarrow> (u16 \<times> fdb_entry) list \<Rightarrow> urgency \<Rightarrow> syncer \<Rightarrow> 'w
     \<Rightarrow> (io_error + urgency) \<times> syncer \<times> 'w" where
  "fast_learn E T evs u S w =
     (let pfs = live_pfs T (map p_dev (sy_pairs S)) in
      case ask_vfs E pfs S w of
        (Inl e, S, w) \<Rightarrow> (Inl e, S, w)
      | (Inr vf, S, w) \<Rightarrow>
          let fps = fast_pairs S T vf;
              (fps, u, S, w) = reflect_pairs E T (reflected_macs fps evs) fps u S w
          in (case grow_refresh E T pfs vf fps evs S w of
                (Inl e, cache, S, w) \<Rightarrow> (Inl e, S, w)
              | (Inr fps, cache, S, w) \<Rightarrow>
                  let (ours, reg) = fast_candidates S T Commit fps evs;
                      u = (if ours then Now else u)
                  in (case register_all E T fps reg cache S w of
                        (Inl e, S, w) \<Rightarrow> (Inl e, S, w)
                      | (Inr _, S, w) \<Rightarrow> (Inr u, S, w))))"

definition fast_apply ::
    "'w env \<Rightarrow> topology \<Rightarrow> (u16 \<times> fdb_entry) list \<Rightarrow> syncer \<Rightarrow> 'w \<Rightarrow> (io_error + urgency) \<times> syncer \<times> 'w" where
  "fast_apply E T evs S w =
     (if evs = [] then (Inr Nothing, S, w)
      else if sy_dry_run S then (Inr Now, S, w)
      else
        let (u, S, w) =
              (if has_kind RTM_DELNEIGH evs
               then (let (now, w) = k_boot_millis (e_kernel E) w
                     in (WhenConvenient, date_the_silence T now evs S, w))
               else (Nothing, S, w))
        in if \<not> has_kind RTM_NEWNEIGH evs then (Inr u, S, w)
           else fast_learn E T evs u S w)"

end
