(* ===== verification/Drivers.thy ===== *)
theory Drivers
  imports Prelude
begin

text \<open>
  \<^verbatim>\<open>src/drivers.rs\<close>: what the kernel's drivers do with an interface's unicast list, the one
  table the daemon takes a card's capacity from, and the lookups on it.
\<close>

datatype past = Drops | Promisc | Hashes | PromiscFromFirst | Ignored

record filter_info =
  f_holds :: "nat option"
  f_past :: past

datatype role = AnyRole | Pf | Vf | TrustedVf

definition LOCKED_UNTRUSTED :: "string list" where
  "LOCKED_UNTRUSTED = [''igbvf'', ''ixgbevf'', ''iavf'', ''bnxt_en'', ''hinic'']"

type_synonym row = "string \<times> role \<times> nat option \<times> past"

definition TABLE :: "row list" where
  "TABLE =
     [(''igb'', Pf, Some 16, Promisc),
      (''igbvf'', Vf, Some 3, Drops),
      (''ixgbe'', Pf, Some 128, Promisc),
      (''ixgbevf'', Vf, Some 96, Drops),
      (''i40e'', Pf, None, Promisc),
      (''iavf'', Vf, Some 12, Drops),
      (''iavf'', TrustedVf, None, Drops),
      (''ice'', Pf, None, Drops),
      (''idpf'', AnyRole, None, Drops),
      (''fm10k'', Pf, None, Drops),
      (''fm10k'', Vf, None, Ignored),
      (''mlx5_core'', AnyRole, Some 128, Drops),
      (''mlx4_core'', AnyRole, Some 128, Promisc),
      (''bnxt_en'', Pf, Some 4, Promisc),
      (''bnxt_en'', Vf, Some 4, Drops),
      (''bnxt_en'', TrustedVf, Some 4, Promisc),
      (''bnx2x'', Pf, None, Promisc),
      (''bnx2x'', Vf, None, Ignored),
      (''qede'', Pf, None, Promisc),
      (''qede'', Vf, None, Ignored),
      (''qede'', TrustedVf, None, PromiscFromFirst),
      (''qlcnic'', Pf, None, Promisc),
      (''qlcnic'', Vf, Some 2, Drops),
      (''cxgb4'', AnyRole, None, Hashes),
      (''cxgb4vf'', AnyRole, None, Hashes),
      (''be2net'', Pf, Some 30, Promisc),
      (''be2net'', Vf, Some 2, Drops),
      (''sfc'', Pf, Some 32, Promisc),
      (''sfc'', Vf, Some 32, Drops),
      (''sfc_ef100'', AnyRole, None, PromiscFromFirst),
      (''sfc_siena'', AnyRole, None, PromiscFromFirst),
      (''nfp'', AnyRole, None, PromiscFromFirst),
      (''rvu_nicpf'', Pf, Some 4, Promisc),
      (''rvu_nicvf'', Vf, None, Ignored),
      (''rvu_nicvf'', TrustedVf, None, PromiscFromFirst),
      (''octeon_ep'', AnyRole, None, Ignored),
      (''octeon_ep_vf'', AnyRole, None, Ignored),
      (''LiquidIO'', Pf, None, PromiscFromFirst),
      (''LiquidIO_VF'', Vf, Some 32, Drops),
      (''nicvf'', AnyRole, None, PromiscFromFirst),
      (''hns3'', Pf, None, Promisc),
      (''hns3'', Vf, None, Drops),
      (''hns3'', TrustedVf, None, Promisc),
      (''hinic'', Pf, None, PromiscFromFirst),
      (''hinic'', Vf, None, Drops),
      (''hinic3'', AnyRole, None, Promisc),
      (''ena'', AnyRole, None, Ignored),
      (''alibaba_eea'', AnyRole, None, Ignored),
      (''ionic'', AnyRole, None, Promisc),
      (''enic'', AnyRole, Some 32, Promisc),
      (''fsl_enetc'', Pf, None, Hashes),
      (''fsl_enetc_vf'', Vf, None, Ignored),
      (''funeth'', AnyRole, None, Ignored),
      (''mana'', AnyRole, None, Ignored),
      (''ngbe'', Pf, Some 32, Promisc),
      (''txgbe'', Pf, Some 128, Promisc),
      (''ngbevf'', Vf, None, Ignored),
      (''txgbevf'', Vf, None, Ignored)]"

text \<open>\<open>filter_of\<close>: the first row of the driver whose role fits; a trusted function falls back to the plain one.\<close>

definition find_row :: "string \<Rightarrow> role \<Rightarrow> row option" where
  "find_row driver wanted =
     find (\<lambda>(n, r, _, _). n = driver \<and> (r = AnyRole \<or> r = wanted)) TABLE"

definition filter_of :: "string \<Rightarrow> bool \<Rightarrow> bool \<Rightarrow> filter_info option" where
  "filter_of driver vf trusted =
     map_option (\<lambda>(_, _, holds, past). \<lparr>f_holds = holds, f_past = past\<rparr>)
       (if \<not> vf then find_row driver Pf
        else if \<not> trusted then find_row driver Vf
        else (case find_row driver TrustedVf of Some r \<Rightarrow> Some r | None \<Rightarrow> find_row driver Vf))"

definition locks_untrusted :: "string \<Rightarrow> bool" where
  "locks_untrusted driver \<longleftrightarrow> driver \<in> set LOCKED_UNTRUSTED"

definition trust_matters :: "string \<Rightarrow> bool" where
  "trust_matters driver \<longleftrightarrow>
     locks_untrusted driver \<or> list_ex (\<lambda>(n, r, _, _). n = driver \<and> r = TrustedVf) TABLE"

section \<open>Laws\<close>

text \<open>A role the table splits by trust is split beside a row for the untrusted function.\<close>

lemma find_in_list: "find P xs = Some x \<Longrightarrow> x \<in> set xs \<and> P x"
  by (induction xs) (auto split: if_splits)

lemma find_row_in_table: "find_row d r = Some x \<Longrightarrow> x \<in> set TABLE"
  unfolding find_row_def by (blast dest: find_in_list)

lemma find_row_driver: "find_row d r = Some (n, r', h, p) \<Longrightarrow> n = d \<and> (r' = AnyRole \<or> r' = r)"
  unfolding find_row_def by (auto dest: find_in_list)

lemma find_row_None:
  "find_row d r = None \<longleftrightarrow> (\<forall>x \<in> set TABLE. fst x = d \<longrightarrow> fst (snd x) \<noteq> AnyRole \<and> fst (snd x) \<noteq> r)"
  unfolding find_row_def find_None_iff case_prod_unfold by metis

lemma filter_of_pf_ignores_trust: "filter_of d False t = filter_of d False t'"
  by (simp add: filter_of_def)

text \<open>Every number in the table leaves a slot usable after the headroom is taken.\<close>

lemma TABLE_holds_two: "(n, r, Some h, p) \<in> set TABLE \<Longrightarrow> 2 \<le> h \<and> h \<le> 128"
  by (auto simp: TABLE_def)

end
