(* ===== verification/Config.thy ===== *)
theory Config
  imports Decide
begin

text \<open>
  The part of \<^verbatim>\<open>src/main.rs\<close> that reads what the operator said: the configuration file, the
  command line, and the pairs they name, judged against the topology. Warnings are printed and
  change nothing, so they are not in the model; every refusal is a value.
\<close>

section \<open>Options\<close>

datatype mode = Daemon_Mode | Once_Mode | Status_Mode | Check_Mode | Flush_Mode | Resync_Mode

record options =
  o_mode :: mode
  o_pairs :: "string list"
  o_max_macs :: nat
  o_max_macs_set :: bool
  o_exclude :: "string list"
  o_extra :: "string list"
  o_dry_run :: bool
  o_timings :: bool

definition default_options :: options where
  "default_options =
     \<lparr>o_mode = Daemon_Mode, o_pairs = [], o_max_macs = DEFAULT_MAX_MACS, o_max_macs_set = False,
      o_exclude = [], o_extra = [], o_dry_run = False, o_timings = False\<rparr>"

datatype usage_error =
    SecondMode string
  | MissingValue string
  | NotANumber
  | OutOfRange
  | UnknownOption string
  | MalformedPair string
  | OwnUplink string
  | NoInterface string
  | NotABridge string
  | NotEnslaved string
  | NamedTwice string
  | NothingFound

section \<open>Values\<close>

text \<open>\<open>addresses\<close>: commas or white space in any mixture; \<open>macs\<close> drops what is not an address.\<close>

fun pieces_acc :: "string \<Rightarrow> string \<Rightarrow> string list" where
  "pieces_acc w [] = [rev w]"
| "pieces_acc w (c # cs) =
     (if c = CHR '','' \<or> is_space c then rev w # pieces_acc [] cs else pieces_acc (c # w) cs)"

definition addresses :: "string \<Rightarrow> string list" where
  "addresses v = filter (\<lambda>s. s \<noteq> []) (pieces_acc [] v)"

definition macs :: "string list \<Rightarrow> mac set" where
  "macs given = set (List.map_filter parse_mac given)"

text \<open>\<open>strip_comment\<close>: everything up to a hash that is not inside quotes.\<close>

fun strip_comment_from :: "char option \<Rightarrow> string \<Rightarrow> string" where
  "strip_comment_from q [] = []"
| "strip_comment_from None (c # cs) =
     (if c = CHR 0x22 \<or> c = CHR 0x27 then c # strip_comment_from (Some c) cs
      else if c = CHR ''#'' then []
      else c # strip_comment_from None cs)"
| "strip_comment_from (Some q) (c # cs) =
     c # strip_comment_from (if c = q then None else Some q) cs"

definition strip_comment :: "string \<Rightarrow> string" where
  "strip_comment v = strip_comment_from None v"

text \<open>\<open>str::trim_matches(c)\<close>.\<close>

definition trim_matches :: "char \<Rightarrow> string \<Rightarrow> string" where
  "trim_matches c s = rev (dropWhile (\<lambda>x. x = c) (rev (dropWhile (\<lambda>x. x = c) s)))"

definition MAX_OF_MAX :: nat where "MAX_OF_MAX = 2 ^ 20"

definition clamp_max_macs :: "nat \<Rightarrow> usage_error + nat" where
  "clamp_max_macs v = (if v = 0 \<or> v > MAX_OF_MAX then Inl OutOfRange else Inr v)"

section \<open>The configuration file\<close>

definition conf_value :: "string \<Rightarrow> string" where
  "conf_value v = trim_matches (CHR 0x27) (trim_matches (CHR 0x22) (trim (strip_comment v)))"

definition apply_setting :: "string \<Rightarrow> string \<Rightarrow> options \<Rightarrow> options" where
  "apply_setting key v opts =
     (if key = ''PAIRS'' then opts\<lparr>o_pairs := o_pairs opts @ split_whitespace v\<rparr>
      else if key = ''MAX_MACS'' then
        (case parse_uint 64 v of
           None \<Rightarrow> opts
         | Some n \<Rightarrow> (case clamp_max_macs n of
                       Inl _ \<Rightarrow> opts
                     | Inr n \<Rightarrow> opts\<lparr>o_max_macs := n, o_max_macs_set := True\<rparr>))
      else if key = ''EXTRA'' then opts\<lparr>o_extra := o_extra opts @ addresses v\<rparr>
      else if key = ''EXCLUDE'' then opts\<lparr>o_exclude := o_exclude opts @ addresses v\<rparr>
      else opts)"

definition read_conf_line :: "options \<Rightarrow> string \<Rightarrow> options" where
  "read_conf_line opts l =
     (let l = trim l in
      if l = [] \<or> hd l = CHR ''#'' then opts
      else case split_once (CHR ''='') l of
             None \<Rightarrow> opts
           | Some (key, v) \<Rightarrow> apply_setting (trim key) (conf_value v) opts)"

definition read_conf :: "string \<Rightarrow> options \<Rightarrow> options" where
  "read_conf txt opts = foldl read_conf_line opts (lines txt)"

definition load_conf :: "io_error + string \<Rightarrow> options \<Rightarrow> options" where
  "load_conf r opts = (case r of Inl _ \<Rightarrow> opts | Inr txt \<Rightarrow> read_conf txt opts)"

section \<open>The command line\<close>

definition set_mode :: "mode \<Rightarrow> string \<Rightarrow> options \<Rightarrow> usage_error + options" where
  "set_mode m arg opts =
     (if o_mode opts \<noteq> Daemon_Mode then Inl (SecondMode arg) else Inr (opts\<lparr>o_mode := m\<rparr>))"

definition mode_of_arg :: "string \<Rightarrow> mode option" where
  "mode_of_arg a =
     (if a = ''--once'' then Some Once_Mode
      else if a = ''--status'' then Some Status_Mode
      else if a = ''--check'' then Some Check_Mode
      else if a = ''--flush'' then Some Flush_Mode
      else if a = ''--resync'' then Some Resync_Mode
      else None)"

text \<open>\<open>parse_args_from\<close>; \<open>Shown\<close> is the help or the version printed and the process left.\<close>

datatype parsed = Parsed options | Refused usage_error | Shown

text \<open>The options that take a value, with the value that follows them.\<close>

definition apply_valued :: "string \<Rightarrow> string \<Rightarrow> bool \<Rightarrow> options \<Rightarrow> usage_error + options" where
  "apply_valued a v pairs_from_cli opts =
     (if a = ''--pair'' then
        Inr (opts\<lparr>o_pairs := (if pairs_from_cli then o_pairs opts else []) @ [v]\<rparr>)
      else if a = ''--max'' then
        (case parse_uint 64 v of
           None \<Rightarrow> Inl NotANumber
         | Some n \<Rightarrow> (case clamp_max_macs n of
                       Inl e \<Rightarrow> Inl e
                     | Inr n \<Rightarrow> Inr (opts\<lparr>o_max_macs_set := True, o_max_macs := n\<rparr>)))
      else if a = ''--extra'' then Inr (opts\<lparr>o_extra := o_extra opts @ addresses v\<rparr>)
      else if a = ''--exclude'' then Inr (opts\<lparr>o_exclude := o_exclude opts @ addresses v\<rparr>)
      else Inr opts)"

definition takes_value :: "string \<Rightarrow> bool" where
  "takes_value a \<longleftrightarrow> a \<in> {''--pair'', ''--interval'', ''--max'', ''--extra'', ''--exclude''}"

fun parse_args_from :: "bool \<Rightarrow> options \<Rightarrow> string list \<Rightarrow> parsed" where
  "parse_args_from cli opts [] = Parsed opts"
| "parse_args_from cli opts (a # args) =
     (case mode_of_arg a of
        Some m \<Rightarrow> (case set_mode m a opts of
                     Inl e \<Rightarrow> Refused e
                   | Inr opts \<Rightarrow> parse_args_from cli opts args)
      | None \<Rightarrow>
          if a = ''--dry-run'' then parse_args_from cli (opts\<lparr>o_dry_run := True\<rparr>) args
          else if a = ''--timings'' then parse_args_from cli (opts\<lparr>o_timings := True\<rparr>) args
          else if takes_value a then
            (case args of
               [] \<Rightarrow> Refused (MissingValue a)
             | v # args \<Rightarrow> (case apply_valued a v cli opts of
                              Inl e \<Rightarrow> Refused e
                            | Inr opts \<Rightarrow> parse_args_from (cli \<or> a = ''--pair'') opts args))
          else if a \<in> {''-h'', ''--help'', ''--version''} then Shown
          else Refused (UnknownOption a))"

section \<open>Pairs\<close>

definition pair_name :: "pair \<Rightarrow> string" where
  "pair_name p = p_dev p @ '':'' @ p_bridge p"

definition pair_names :: "pair list \<Rightarrow> string list" where
  "pair_names ps = sort (map pair_name ps)"

text \<open>What the topology says against a pair named by hand.\<close>

definition topology_says :: "topology \<Rightarrow> name \<Rightarrow> name \<Rightarrow> usage_error option" where
  "topology_says T dev bridge =
     (case index_of T dev of
        None \<Rightarrow> Some (NoInterface dev)
      | Some d \<Rightarrow>
          (case index_of T bridge of
             None \<Rightarrow> Some (NoInterface bridge)
           | Some b \<Rightarrow>
               if \<not> is_bridge T b then Some (NotABridge bridge)
               else if map_option fst (bridge_above T d) \<noteq> Some b then Some (NotEnslaved dev)
               else None))"

definition allow_empty :: "mode \<Rightarrow> bool" where
  "allow_empty m \<longleftrightarrow> m \<in> {Daemon_Mode, Flush_Mode, Status_Mode}"

definition strict :: "mode \<Rightarrow> bool" where
  "strict m \<longleftrightarrow> m \<in> {Once_Mode, Check_Mode}"

fun named_pairs :: "topology \<Rightarrow> mode \<Rightarrow> pair list \<Rightarrow> string list \<Rightarrow> usage_error + pair list" where
  "named_pairs T m ps [] = Inr ps"
| "named_pairs T m ps (spec # specs) =
     (case split_once (CHR '':'') spec of
        None \<Rightarrow> Inl (MalformedPair spec)
      | Some (dev, bridge) \<Rightarrow>
          if dev = bridge then Inl (OwnUplink spec)
          else if strict m \<and> topology_says T dev bridge \<noteq> None
            then Inl (the (topology_says T dev bridge))
          else if list_ex (\<lambda>p. p_dev p = dev) ps then Inl (NamedTwice spec)
          else named_pairs T m (ps @ [\<lparr>p_dev = dev, p_bridge = bridge\<rparr>]) specs)"

definition detected_pairs :: "topology \<Rightarrow> pair list" where
  "detected_pairs T = map (\<lambda>(d, b). \<lparr>p_dev = d, p_bridge = b\<rparr>) (fst (autodetect T))"

definition resolve_pairs :: "topology \<Rightarrow> options \<Rightarrow> usage_error + pair list" where
  "resolve_pairs T opts =
     (if o_pairs opts = [] then
        (if detected_pairs T = [] \<and> \<not> allow_empty (o_mode opts) then Inl NothingFound
         else Inr (detected_pairs T))
      else named_pairs T (o_mode opts) [] (o_pairs opts))"

end
