(* ===== verification/Daemon.thy ===== *)
theory Daemon
  imports Fast_Path Drivers Config
begin

text \<open>
  \<^verbatim>\<open>src/daemon.rs\<close>: what happens between events, and when. The world is the trait \<open>World\<close>: the
  kernel of the lower layers, the clock, the subscription and the stop flag, all functions over
  \<open>'w\<close>. Moments and spans of the monotonic clock are natural numbers of nanoseconds.
\<close>

section \<open>Constants\<close>

abbreviation SECOND :: nat where "SECOND \<equiv> 1000000000"
abbreviation RETRY_AFTER :: nat where "RETRY_AFTER \<equiv> 5 * SECOND"
abbreviation AGEING_SETTLE :: nat where "AGEING_SETTLE \<equiv> 5 * SECOND"
abbreviation PASS_FLOOR :: nat where "PASS_FLOOR \<equiv> 200000000"

section \<open>The schedule\<close>

datatype trigger =
    Start | Operator | Recovery | LostEvents | InterfaceChange | ForwardingChange | Once

primrec trigger_label :: "trigger \<Rightarrow> string" where
  "trigger_label Start = ''start''"
| "trigger_label Operator = ''operator''"
| "trigger_label Recovery = ''recovery''"
| "trigger_label LostEvents = ''lost events''"
| "trigger_label InterfaceChange = ''interface change''"
| "trigger_label ForwardingChange = ''forwarding change''"
| "trigger_label Once = ''once''"

record schedule =
  sc_due :: "nat option"
  sc_last_pass :: nat
  sc_trigger :: trigger

definition new_schedule :: "nat \<Rightarrow> schedule" where
  "new_schedule now = \<lparr>sc_due = Some now, sc_last_pass = now, sc_trigger = Start\<rparr>"

definition pass_due :: "schedule \<Rightarrow> nat \<Rightarrow> bool" where
  "pass_due c now = (case sc_due c of None \<Rightarrow> False | Some due \<Rightarrow> due \<le> now)"

definition retry_soon :: "schedule \<Rightarrow> nat \<Rightarrow> schedule" where
  "retry_soon c now = c\<lparr>sc_due := Some (now + RETRY_AFTER), sc_last_pass := now\<rparr>"

definition completed :: "schedule \<Rightarrow> nat \<Rightarrow> schedule" where
  "completed c now = c\<lparr>sc_last_pass := now, sc_due := None\<rparr>"

definition bring_forward :: "schedule \<Rightarrow> nat \<Rightarrow> trigger \<Rightarrow> schedule" where
  "bring_forward c due t =
     c\<lparr>sc_due := Some (case sc_due c of None \<Rightarrow> due | Some d \<Rightarrow> min d due), sc_trigger := t\<rparr>"

definition at_once :: "schedule \<Rightarrow> nat \<Rightarrow> trigger \<Rightarrow> schedule" where
  "at_once c now t = c\<lparr>sc_due := Some now, sc_trigger := t\<rparr>"

definition wait_for :: "schedule \<Rightarrow> nat \<Rightarrow> nat option" where
  "wait_for c now = map_option (\<lambda>due. due - now) (sc_due c)"

text \<open>The argument of poll: rounded up to whole milliseconds, capped, or for ever.\<close>

definition poll_millis :: "nat option \<Rightarrow> int" where
  "poll_millis d = (case d of
       None \<Rightarrow> -1
     | Some ns \<Rightarrow> int (min ((ns + 999999) div 1000000) (2 ^ 31 - 1)))"

section \<open>What the cards hold\<close>

text \<open>\<open>filter_carriers\<close>: the interfaces that really hold the uplinks' filters, each once.\<close>

definition carrier_name :: "topology \<Rightarrow> name \<Rightarrow> name" where
  "carrier_name T d =
     (case index_of T d of
        None \<Rightarrow> d
      | Some i \<Rightarrow> (case name_of T (filter_carrier T i) of None \<Rightarrow> d | Some n \<Rightarrow> n))"

definition filter_carriers :: "name list \<Rightarrow> topology \<Rightarrow> name list" where
  "filter_carriers devs T =
     foldl (\<lambda>out d. if carrier_name T d \<in> set out then out else out @ [carrier_name T d]) [] devs"

record standing =
  sn_trusted :: "bool option"
  sn_lift :: "(name \<times> u32) option"

text \<open>\<open>judge\<close>: the PF is asked only where the driver cares.\<close>

definition unknown_standing :: standing where
  "unknown_standing = \<lparr>sn_trusted = None, sn_lift = None\<rparr>"

definition judge ::
    "'w writer \<Rightarrow> topology \<Rightarrow> link \<Rightarrow> string \<Rightarrow> 'w
     \<Rightarrow> (filter_info option \<times> standing option) \<times> 'w" where
  "judge K T l driver w =
     (let vf = (l_is_vf l \<or> l_physfn l \<noteq> None) in
      if \<not> vf \<or> \<not> trust_matters driver then ((filter_of driver vf False, None), w)
      else
        let (st, w) =
              (case (l_physfn l, l_vf_number l) of
                 (Some pf, Some n) \<Rightarrow>
                   (let (r, w) = k_vf_info_of K pf w in
                    (case r of
                       Inl _ \<Rightarrow> (unknown_standing, w)
                     | Inr vs \<Rightarrow>
                         (case find (\<lambda>i. vi_vf i = n) vs of
                            None \<Rightarrow> (unknown_standing, w)
                          | Some i \<Rightarrow> (\<lparr>sn_trusted = vi_trusted i,
                              sn_lift = Some (case at T pf of Some p \<Rightarrow> l_name p | None \<Rightarrow> show_nat (unat pf), n)\<rparr>, w))))
               | _ \<Rightarrow> (unknown_standing, w))
        in ((filter_of driver True (sn_trusted st = Some True), Some st), w))"

definition holds_or_max :: "filter_info \<Rightarrow> nat" where
  "holds_or_max f = (case f_holds f of None \<Rightarrow> 2 ^ 64 - 1 | Some n \<Rightarrow> n)"

text \<open>\<open>card_filter\<close>: an interface's own driver, or the smallest among what carries it.\<close>

function behind_loop ::
    "'w writer \<Rightarrow> topology \<Rightarrow> ifindex list \<Rightarrow> ifindex set
     \<Rightarrow> (string \<times> filter_info \<times> standing option) option \<Rightarrow> 'w
     \<Rightarrow> (string \<times> filter_info \<times> standing option) option \<times> 'w" where
  "behind_loop K T [] seen best w = (best, w)"
| "behind_loop K T (i # stack) seen best w =
     (if i \<in> seen then behind_loop K T stack seen best w
      else case at T i of
        None \<Rightarrow> behind_loop K T stack (insert i seen) best w
      | Some l \<Rightarrow>
          (case l_driver l of
             Some d \<Rightarrow>
               (case judge K T l d w of
                  ((None, _), w) \<Rightarrow> behind_loop K T stack (insert i seen) best w
                | ((Some f, st), w) \<Rightarrow>
                    behind_loop K T stack (insert i seen)
                      (case best of
                         None \<Rightarrow> Some (d, f, st)
                       | Some (_, b, _) \<Rightarrow>
                           if holds_or_max f < holds_or_max b then Some (d, f, st) else best) w)
           | None \<Rightarrow>
               behind_loop K T
                 ((case l_filter_below l of None \<Rightarrow> [] | Some p \<Rightarrow> [p]) @ rev (l_slaves l) @ stack)
                 (insert i seen) best w))"
  by pat_completeness auto
termination
  by (relation "measures [\<lambda>(K, T, stack, seen, best, w). unseen seen, \<lambda>(K, T, stack, seen, best, w). length stack]")
     auto

definition card_filter ::
    "'w writer \<Rightarrow> topology \<Rightarrow> link \<Rightarrow> 'w
     \<Rightarrow> (string option \<times> filter_info option \<times> standing option) \<times> 'w" where
  "card_filter K T l w =
     (case l_driver l of
        Some d \<Rightarrow> (case judge K T l d w of ((f, st), w) \<Rightarrow> ((Some d, f, st), w))
      | None \<Rightarrow>
          if l_is_bridge l \<or> l_slaves l = [] then ((None, None, None), w)
          else (case behind_loop K T (rev (l_slaves l)) {} None w of
                  (Some (d, f, st), w) \<Rightarrow> ((Some (d @ '' behind '' @ l_name l), Some f, st), w)
                | (None, w) \<Rightarrow> ((None, None, None), w)))"

text \<open>\<open>apply_card_limits\<close>: a number per card, the smallest of them the number to warn at.\<close>

definition card_holds :: "string option \<Rightarrow> filter_info option \<Rightarrow> nat" where
  "card_holds driver f =
     (case (driver, f) of
        (Some _, Some f) \<Rightarrow>
          (case f_past f of
             Ignored \<Rightarrow> DEFAULT_MAX_MACS
           | PromiscFromFirst \<Rightarrow> DEFAULT_MAX_MACS
           | _ \<Rightarrow> (case f_holds f of Some n \<Rightarrow> n | None \<Rightarrow> DEFAULT_MAX_MACS))
      | _ \<Rightarrow> DEFAULT_MAX_MACS)"

fun collect_limits ::
    "'w writer \<Rightarrow> topology \<Rightarrow> (name \<rightharpoonup> nat) \<Rightarrow> name list \<Rightarrow> (name \<times> nat) list \<Rightarrow> name set \<Rightarrow> 'w
     \<Rightarrow> (name \<times> nat) list \<times> name set \<times> 'w" where
  "collect_limits K T old [] limits said w = (limits, said, w)"
| "collect_limits K T old (crd # cards) limits said w =
     (case (case index_of T crd of None \<Rightarrow> None | Some i \<Rightarrow> at T i) of
        None \<Rightarrow>
          collect_limits K T old cards
            (case old crd of None \<Rightarrow> limits | Some n \<Rightarrow> AList.update crd n limits) said w
      | Some l \<Rightarrow>
          (case card_filter K T l w of
             ((driver, f, st), w) \<Rightarrow>
               collect_limits K T old cards (AList.update crd (card_holds driver f) limits)
                 (if driver \<noteq> None then insert crd said else said) w))"

definition smallest_limit :: "(name \<times> nat) list \<Rightarrow> nat" where
  "smallest_limit limits = (if limits = [] then DEFAULT_MAX_MACS else Min (set (map snd limits)))"

definition apply_card_limits ::
    "'w writer \<Rightarrow> topology \<Rightarrow> bool \<Rightarrow> name set \<Rightarrow> syncer \<Rightarrow> 'w \<Rightarrow> name set \<times> syncer \<times> 'w" where
  "apply_card_limits K T max_set said S w =
     (let (limits, said, w) =
            collect_limits K T (sy_max_macs_per_card S) (filter_carriers (map p_dev (sy_pairs S)) T)
              [] said w
      in if max_set then (said, S, w)
         else (said, S\<lparr>sy_max_macs_per_card := map_of limits, sy_max_macs := smallest_limit limits\<rparr>, w))"

section \<open>The world of the loop\<close>

record 'w world =
  wd_env :: "'w env"
  wd_stopping :: "'w \<Rightarrow> bool \<times> 'w"
  wd_resync_wanted :: "'w \<Rightarrow> bool \<times> 'w"
  wd_wait :: "int \<Rightarrow> 'w \<Rightarrow> (io_error + bool) \<times> 'w"
  wd_recv_events :: "'w \<Rightarrow> (io_error + events) \<times> 'w"
  wd_pause :: "nat \<Rightarrow> 'w \<Rightarrow> 'w"
  wd_read_topology :: "'w \<Rightarrow> (io_error + topology) \<times> 'w"

abbreviation wd_now :: "'w world \<Rightarrow> 'w \<Rightarrow> nat \<times> 'w" where
  "wd_now W w \<equiv> k_instant (e_kernel (wd_env W)) w"

record loop_marks =
  lm_said_empty :: bool
  lm_said_cards :: "name set"

section \<open>A pass\<close>

definition redetect :: "topology \<Rightarrow> syncer \<Rightarrow> loop_marks \<Rightarrow> syncer \<times> loop_marks" where
  "redetect T S marks =
     (let found = detected_pairs T in
      if pair_names found \<noteq> pair_names (sy_pairs S)
      then (S\<lparr>sy_pairs := found\<rparr>, if found \<noteq> [] then marks\<lparr>lm_said_empty := False\<rparr> else marks)
      else (S, marks))"

text \<open>\<open>run_pass\<close>: whether the pass got as far as reconciling.\<close>

definition run_pass ::
    "'w world \<Rightarrow> options \<Rightarrow> syncer \<Rightarrow> topology option \<Rightarrow> loop_marks \<Rightarrow> 'w
     \<Rightarrow> bool \<times> syncer \<times> topology option \<times> loop_marks \<times> 'w" where
  "run_pass W opts S latest marks w =
     (let (_, w) = wd_now W w in
      case wd_read_topology W w of
        (Inl e, w) \<Rightarrow> (False, S, latest, marks, w)
      | (Inr T, w) \<Rightarrow>
          let (_, w) = wd_now W w;
              (S, marks) = (if o_pairs opts = [] then redetect T S marks else (S, marks));
              (said, S, w) = apply_card_limits (e_kernel (wd_env W)) T (o_max_macs_set opts)
                               (lm_said_cards marks) S w;
              marks = marks\<lparr>lm_said_cards := said\<rparr>;
              marks = (if sy_pairs S = [] then marks\<lparr>lm_said_empty := True\<rparr> else marks);
              (r, S, w) = reconcile (wd_env W) T True S w
          in (case r of Inl _ \<Rightarrow> False | Inr _ \<Rightarrow> True, S, Some T, marks, w))"

section \<open>A batch\<close>

definition batch_trigger :: "events \<Rightarrow> trigger" where
  "batch_trigger evs = (if ev_fdb evs = [] then InterfaceChange else ForwardingChange)"

definition needs_reading :: "events \<Rightarrow> bool" where
  "needs_reading evs \<longleftrightarrow> ev_links_changed evs \<or> has_kind RTM_NEWNEIGH (ev_fdb evs)"

text \<open>The reading a batch is judged by: fresh where it could register or moved an interface.\<close>

definition batch_reading :: "'w world \<Rightarrow> events \<Rightarrow> 'w \<Rightarrow> topology option \<times> 'w" where
  "batch_reading W evs w =
     (if \<not> needs_reading evs then (None, w)
      else
        let (_, w) = wd_now W w in
        case wd_read_topology W w of
          (Inl e, w) \<Rightarrow> (None, w)
        | (Inr T, w) \<Rightarrow> (let (_, w) = wd_now W w in (Some T, w)))"

definition spend_answer :: "events \<Rightarrow> topology option \<Rightarrow> topology option \<Rightarrow> syncer \<Rightarrow> syncer" where
  "spend_answer evs latest fresh S =
     (if ev_changed_links evs \<noteq> []
         \<and> (fresh = None \<or> vf_may_have_changed latest fresh (ev_changed_links evs))
      then S\<lparr>sy_vf_stale := True\<rparr> else S)"

definition batch_wait :: "urgency \<Rightarrow> bool \<Rightarrow> nat" where
  "batch_wait u filling = (if u = Now \<or> filling then PASS_FLOOR else AGEING_SETTLE)"

text \<open>\<open>handle_batch\<close>: \<open>None\<close> buys nothing.\<close>

definition handle_batch ::
    "'w world \<Rightarrow> syncer \<Rightarrow> topology option \<Rightarrow> events \<Rightarrow> nat \<Rightarrow> 'w
     \<Rightarrow> (nat \<times> trigger) option \<times> syncer \<times> topology option \<times> 'w" where
  "handle_batch W S latest evs last_pass w =
     (if ev_fdb evs = [] \<and> \<not> ev_links_changed evs then (None, S, latest, w)
      else
        let u = (if ev_links_changed evs then Now else Nothing);
            (fresh, w) = batch_reading W evs w;
            S = spend_answer evs latest fresh S;
            (u, S, w) =
              (case (if needs_reading evs then fresh else latest) of
                 Some T \<Rightarrow>
                   (case fast_apply (wd_env W) T (ev_fdb evs) S w of
                      (Inr v, S, w) \<Rightarrow> (max u v, S, w)
                    | (Inl _, S, w) \<Rightarrow> (Now, S, w))
               | None \<Rightarrow> (Now, S, w));
            latest = (case fresh of Some T \<Rightarrow> Some T | None \<Rightarrow> latest)
        in if u = Nothing then (None, S, latest, w)
           else
             let (now, w) = wd_now W w in
             (Some (max (last_pass + batch_wait u (any_filter_filling S)) now, batch_trigger evs),
              S, latest, w))"

section \<open>The loop\<close>

record 'w loop =
  lp_schedule :: schedule
  lp_latest :: "topology option"
  lp_wait_failures :: nat
  lp_marks :: loop_marks
  lp_syncer :: syncer
  lp_world :: 'w

definition distrust :: "syncer \<Rightarrow> syncer" where
  "distrust S = S\<lparr>sy_vf_stale := True\<rparr>"

text \<open>The operator's knock, at the top of the loop.\<close>

definition take_resync :: "'w world \<Rightarrow> 'w loop \<Rightarrow> 'w loop" where
  "take_resync W L =
     (let (asked, w) = wd_resync_wanted W (lp_world L) in
      if asked then
        (let (now, w) = wd_now W w in
         L\<lparr>lp_world := w, lp_syncer := distrust (lp_syncer L),
           lp_schedule := at_once (lp_schedule L) now Operator\<rparr>)
      else L\<lparr>lp_world := w\<rparr>)"

text \<open>The pass, when it is due: \<open>Inl\<close> goes back to the top of the loop.\<close>

definition take_pass :: "'w world \<Rightarrow> options \<Rightarrow> 'w loop \<Rightarrow> 'w loop + 'w loop" where
  "take_pass W opts L =
     (let (now, w) = wd_now W (lp_world L) in
      if \<not> pass_due (lp_schedule L) now then Inr (L\<lparr>lp_world := w\<rparr>)
      else
        let (done_it, S, latest, marks, w) =
              run_pass W opts (lp_syncer L) (lp_latest L) (lp_marks L) w;
            (now, w) = wd_now W w;
            L = L\<lparr>lp_syncer := S, lp_latest := latest, lp_marks := marks, lp_world := w\<rparr>
        in if done_it then Inr (L\<lparr>lp_schedule := completed (lp_schedule L) now\<rparr>)
           else Inl (L\<lparr>lp_schedule := retry_soon (lp_schedule L) now\<rparr>))"

text \<open>The wait and the batch it may wake up for.\<close>

definition take_wait :: "'w world \<Rightarrow> 'w loop \<Rightarrow> 'w loop" where
  "take_wait W L =
     (let (now, w) = wd_now W (lp_world L) in
      case wd_wait W (poll_millis (wait_for (lp_schedule L) now)) w of
        (Inl e, w) \<Rightarrow>
          (let w = (if 0 < lp_wait_failures L then wd_pause W RETRY_AFTER w else w);
               (now, w) = wd_now W w
           in L\<lparr>lp_wait_failures := Suc (lp_wait_failures L), lp_world := w,
                lp_schedule := at_once (lp_schedule L) now Recovery,
                lp_syncer := distrust (lp_syncer L)\<rparr>)
      | (Inr woken, w) \<Rightarrow>
          let L = L\<lparr>lp_wait_failures := 0\<rparr> in
          if \<not> woken then L\<lparr>lp_world := w\<rparr>
          else
            (case wd_recv_events W w of
               (Inl e, w) \<Rightarrow>
                 (let (now, w) = wd_now W w in
                  L\<lparr>lp_world := w, lp_schedule := at_once (lp_schedule L) now LostEvents,
                    lp_syncer := distrust (lp_syncer L)\<rparr>)
             | (Inr evs, w) \<Rightarrow>
                 (case handle_batch W (lp_syncer L) (lp_latest L) evs (sc_last_pass (lp_schedule L)) w of
                    (bought, S, latest, w) \<Rightarrow>
                      L\<lparr>lp_syncer := S, lp_latest := latest, lp_world := w,
                        lp_schedule := (case bought of
                            None \<Rightarrow> lp_schedule L
                          | Some (due, t) \<Rightarrow> bring_forward (lp_schedule L) due t)\<rparr>)))"

text \<open>One turn of \<open>daemon_loop\<close>: \<open>None\<close> is the stop.\<close>

definition loop_step :: "'w world \<Rightarrow> options \<Rightarrow> 'w loop \<Rightarrow> 'w loop option" where
  "loop_step W opts L =
     (let (stop, w) = wd_stopping W (lp_world L) in
      if stop then None
      else case take_pass W opts (take_resync W (L\<lparr>lp_world := w\<rparr>)) of
             Inl L \<Rightarrow> Some L
           | Inr L \<Rightarrow> Some (take_wait W L))"

definition start_loop :: "'w world \<Rightarrow> syncer \<Rightarrow> 'w \<Rightarrow> 'w loop" where
  "start_loop W S w =
     (let (now, w) = wd_now W w in
      \<lparr>lp_schedule = new_schedule now, lp_latest = None, lp_wait_failures = 0,
       lp_marks = \<lparr>lm_said_empty = False, lm_said_cards = {}\<rparr>, lp_syncer = S, lp_world = w\<rparr>)"

text \<open>
  The loop itself: it may run for ever, and then its value is \<open>None\<close>; otherwise it is the
  state in which the stop was seen.
\<close>

partial_function (option) daemon_loop :: "'w world \<Rightarrow> options \<Rightarrow> 'w loop \<Rightarrow> 'w loop option" where
  "daemon_loop W opts L =
     (case loop_step W opts L of
        None \<Rightarrow> Some L
      | Some L' \<Rightarrow> daemon_loop W opts L')"

end
