(* ===== verification/Program.thy ===== *)
theory Program
  imports Daemon
begin

text \<open>
  The rest of \<^verbatim>\<open>src/main.rs\<close>: the modes that run once and what they print of an uplink. The
  daemon's own mode is the loop of \<open>Daemon\<close>, set up in \<open>Live\<close>. What a mode prints of its reports
  is a list of lines; warnings on standard error are not modelled.
\<close>

unbundle bit_operations_syntax

section \<open>The probe of --check\<close>

text \<open>\<open>check\<close>: a locally administered address derived from the interface's own.\<close>

primrec probe_of :: "mac \<Rightarrow> mac" where
  "probe_of (Mac a b c d e f) = Mac 2 b c d e (f XOR 0x5a)"

definition take_probe_back ::
    "'w env \<Rightarrow> name \<Rightarrow> ifindex \<Rightarrow> mac \<Rightarrow> store \<Rightarrow> 'w \<Rightarrow> store \<times> 'w" where
  "take_probe_back E dev i probe s w =
     (case k_set_self_fdb (e_kernel E) i probe False w of
        (None, w) \<Rightarrow> (forget_check_probe (e_fs E) dev probe s, w)
      | (Some e, w) \<Rightarrow> (s, w))"

text \<open>One pair: whether the card passed. Noted before it is written, forgotten once it is out.\<close>

definition check_link ::
    "'w env \<Rightarrow> bool \<Rightarrow> name \<Rightarrow> ifindex \<Rightarrow> mac \<Rightarrow> store \<Rightarrow> 'w \<Rightarrow> bool \<times> store \<times> 'w" where
  "check_link E dry_run dev i probe s w =
     (let (noted, s) = note_check_probe (e_fs E) dry_run dev i probe s in
      if \<not> noted then (False, s, w)
      else case k_set_self_fdb (e_kernel E) i probe True w of
        (r, w) \<Rightarrow>
          if r \<noteq> None \<and> r \<noteq> Some EEXIST then (False, forget_check_probe (e_fs E) dev probe s, w)
          else case k_dump_fdb (e_kernel E) w of
            (Inl e, w) \<Rightarrow> (let (s, w) = take_probe_back E dev i probe s w in (False, s, w))
          | (Inr fdb, w) \<Rightarrow>
              (let listed = list_ex (\<lambda>e. is_self e \<and> fe_ifindex e = i \<and> fe_mac e = probe) fdb;
                   (s, w) = take_probe_back E dev i probe s w
               in (listed, s, w)))"

fun check ::
    "'w env \<Rightarrow> topology \<Rightarrow> bool \<Rightarrow> pair list \<Rightarrow> store \<Rightarrow> 'w \<Rightarrow> bool \<times> store \<times> 'w" where
  "check E T dry_run [] s w = (True, s, w)"
| "check E T dry_run (p # ps) s w =
     (case get T (p_dev p) of
        None \<Rightarrow> check E T dry_run ps s w
      | Some l \<Rightarrow>
          (case l_mac l of
             None \<Rightarrow> check E T dry_run ps s w
           | Some m \<Rightarrow>
               let (ok, s, w) = check_link E dry_run (p_dev p) (l_index l) (probe_of m) s w;
                   (oks, s, w) = check E T dry_run ps s w
               in (ok \<and> oks, s, w)))"

section \<open>What is printed of an uplink\<close>

text \<open>\<open>format!("{:>n$}")\<close> and \<open>format!("{:<n$}")\<close>.\<close>

definition pad_left :: "nat \<Rightarrow> string \<Rightarrow> string" where
  "pad_left n s = replicate (n - length s) (CHR '' '') @ s"

definition pad_right :: "nat \<Rightarrow> string \<Rightarrow> string" where
  "pad_right n s = s @ replicate (n - length s) (CHR '' '')"

definition two :: "nat \<Rightarrow> string" where
  "two n = pad_left 2 (show_nat n)"

definition human_duration :: "nat \<Rightarrow> string" where
  "human_duration ms =
     (let s = ms div 1000;
          d = s div 86400; h = (s div 3600) mod 24; m = (s div 60) mod 60; sec = s mod 60
      in if 0 < d then show_nat d @ ''d '' @ two h @ ''h '' @ two m @ ''m '' @ two sec @ ''s''
         else if 0 < h then show_nat h @ ''h '' @ two m @ ''m '' @ two sec @ ''s''
         else if 0 < m then show_nat m @ ''m '' @ two sec @ ''s''
         else show_nat sec @ ''s'')"

text \<open>\<open>address_lines\<close>: by silence, the longest last, the address as tiebreak.\<close>

definition age_of :: "detail \<Rightarrow> mac \<Rightarrow> nat option" where
  "age_of dt m = map_of (rev (dt_quiet_ages dt)) m"

definition age_key :: "detail \<Rightarrow> mac \<Rightarrow> nat \<times> mac" where
  "age_key dt m = (case age_of dt m of None \<Rightarrow> 0 | Some ms \<Rightarrow> ms, m)"

definition trim_end :: "string \<Rightarrow> string" where
  "trim_end s = rev (dropWhile is_space (rev s))"

definition widest :: "string list \<Rightarrow> nat" where
  "widest ss = foldl max 0 (map length ss)"

text \<open>A map collected from pairs: the last one of a key stays.\<close>

definition last_wins :: "(mac \<times> 'a) list \<Rightarrow> (mac \<times> 'a) list" where
  "last_wins xs = AList.clearjunk (rev xs)"

definition address_line :: "detail \<Rightarrow> nat \<Rightarrow> nat \<Rightarrow> mac \<Rightarrow> string" where
  "address_line dt port_col wide m =
     (let port = (case map_of (rev (dt_learnt_behind dt)) m of None \<Rightarrow> [] | Some p \<Rightarrow> p);
          base = ''    '' @ format_mac m @ '' '' @ pad_right port_col port
      in trim_end (case age_of dt m of
           None \<Rightarrow> base
         | Some ms \<Rightarrow> base @ ''  (quiet, silent '' @ pad_left wide (human_duration ms) @ '')''))"

definition address_lines :: "detail \<Rightarrow> string list" where
  "address_lines dt =
     (let order = sort_key (age_key dt) (dt_wanted dt);
          wide = widest (map (\<lambda>(_, ms). human_duration ms) (dt_quiet_ages dt));
          port_col = widest (map snd (last_wins (dt_learnt_behind dt)))
      in map (address_line dt port_col wide) order)"

text \<open>\<open>report_changes\<close>: the lines of a pass that changed something, or left something alone.\<close>

definition quiet_part :: "nat \<Rightarrow> string" where
  "quiet_part n = (if 0 < n then '', '' @ show_nat n @ '' held quiet'' else [])"

definition foreign_line :: "report \<Rightarrow> string list" where
  "foreign_line r =
     (if 0 < rp_foreign r
      then [rp_dev r @ '': '' @ show_nat (rp_foreign r) @ '' address(es) already present, left alone'']
      else [])"

definition change_line :: "bool \<Rightarrow> trigger \<Rightarrow> report \<Rightarrow> string list" where
  "change_line dry_run t r =
     (if rp_added r = 0 \<and> rp_removed r = 0 then []
      else if dry_run then
        [rp_dev r @ '': would be +'' @ show_nat (rp_added r) @ '' -'' @ show_nat (rp_removed r)
           @ '', '' @ show_nat (rp_wanted r) @ '' address(es) in total'' @ quiet_part (rp_quiet r)
           @ '' ['' @ trigger_label t @ '']'']
      else
        [rp_dev r @ '': +'' @ show_nat (rp_added r) @ '' -'' @ show_nat (rp_removed r)
           @ '', '' @ show_nat (rp_wanted r) @ '' address(es) registered'' @ quiet_part (rp_quiet r)
           @ '' ['' @ trigger_label t @ '']''])"

definition report_changes :: "report list \<Rightarrow> bool \<Rightarrow> trigger \<Rightarrow> string list" where
  "report_changes reps dry_run t =
     concat (map (\<lambda>r. foreign_line r @ change_line dry_run t r) reps)"

text \<open>What \<open>--status\<close> says of one pair, and the listing of \<open>--once\<close>.\<close>

definition detail_lines :: "report \<Rightarrow> string list" where
  "detail_lines r = (case rp_detail r of None \<Rightarrow> [] | Some dt \<Rightarrow> address_lines dt)"

definition status_lines :: "report \<Rightarrow> string list" where
  "status_lines r =
     [rp_dev r @ '' on '' @ rp_bridge r @ '' ('' @ rp_driver r @ '')'']
     @ (if rp_port r \<noteq> rp_dev r then [''  enslaved through  : '' @ rp_port r] else [])
     @ [''  wanted in filter  : '' @ show_nat (rp_wanted r),
        ''  registered by us  : '' @ show_nat (rp_owned r)]
     @ (if 0 < rp_quiet r then [''  held quiet        : '' @ show_nat (rp_quiet r)] else [])
     @ [''  unicast list      : '' @ show_nat (rp_present r),
        ''  stacked bridges   : ''
          @ (if rp_stacked r = [] then ''none'' else join '' '' (rp_stacked r))]
     @ detail_lines r"

definition once_lines :: "report list \<Rightarrow> bool \<Rightarrow> string list" where
  "once_lines reps dry_run =
     report_changes reps dry_run Once
     @ concat (map (\<lambda>r.
         case rp_detail r of
           None \<Rightarrow> []
         | Some dt \<Rightarrow>
             if dt_wanted dt = [] then []
             else (rp_dev r @ '': '' @ show_nat (rp_wanted r) @ '' address(es) wanted'') # address_lines dt)
         reps)"

section \<open>The modes\<close>

text \<open>The syncer as \<open>run\<close> sets it up, for the modes that need one.\<close>

definition prepared :: "options \<Rightarrow> pair list \<Rightarrow> disk \<Rightarrow> syncer" where
  "prepared opts pairs d =
     (new_syncer pairs d)\<lparr>sy_dry_run := o_dry_run opts,
        sy_detail := (o_mode opts = Status_Mode \<or> o_mode opts = Once_Mode),
        sy_authoritative := (o_pairs opts = []), sy_max_macs := o_max_macs opts\<rparr>"

definition with_lists :: "options \<Rightarrow> syncer \<Rightarrow> syncer" where
  "with_lists opts S = S\<lparr>sy_exclude := macs (o_exclude opts), sy_extra := macs (o_extra opts)\<rparr>"

definition limited ::
    "'w env \<Rightarrow> topology \<Rightarrow> options \<Rightarrow> syncer \<Rightarrow> 'w \<Rightarrow> syncer \<times> 'w" where
  "limited E T opts S w =
     (if o_mode opts = Once_Mode \<or> o_mode opts = Status_Mode
      then snd (apply_card_limits (e_kernel E) T (o_max_macs_set opts) {} S w) else (S, w))"

text \<open>\<open>print_status\<close> and \<open>run_once\<close>: what they print, and whether every change went through.\<close>

definition print_status ::
    "'w env \<Rightarrow> topology \<Rightarrow> syncer \<Rightarrow> 'w \<Rightarrow> (io_error + bool \<times> string list) \<times> syncer \<times> 'w" where
  "print_status E T S w =
     (case reconcile E T False S w of
        (Inl e, S, w) \<Rightarrow> (Inl e, S, w)
      | (Inr (reps, fails), S, w) \<Rightarrow> (Inr (True, concat (map status_lines reps)), S, w))"

definition run_once ::
    "'w env \<Rightarrow> topology \<Rightarrow> bool \<Rightarrow> syncer \<Rightarrow> 'w
     \<Rightarrow> (io_error + bool \<times> string list) \<times> syncer \<times> 'w" where
  "run_once E T dry_run S w =
     (case reconcile E T True S w of
        (Inl e, S, w) \<Rightarrow> (Inl e, S, w)
      | (Inr (reps, fails), S, w) \<Rightarrow> (Inr (fails = [], once_lines reps dry_run), S, w))"

text \<open>
  \<open>run\<close> once the topology is read, for the modes that end: the exit code's truth value, or the
  reason it was refused.
\<close>

datatype refusal = BadUsage usage_error | DryRunCheck | Kernel io_error

definition run_modes ::
    "'w env \<Rightarrow> sysfs \<Rightarrow> (ifindex \<rightharpoonup> device_facts) \<Rightarrow> topology \<Rightarrow> options \<Rightarrow> disk \<Rightarrow> 'w
     \<Rightarrow> (refusal + bool) \<times> store option \<times> 'w" where
  "run_modes E sysfs facts T opts d w =
     (case resolve_pairs T opts of
        Inl e \<Rightarrow> (Inl (BadUsage e), None, w)
      | Inr pairs \<Rightarrow>
          let (S, w) = limited E T opts (prepared opts pairs d) w; S = with_lists opts S in
          (case o_mode opts of
             Flush_Mode \<Rightarrow>
               (case flush E sysfs facts S w of
                  (Inl e, S, w) \<Rightarrow> (Inl (Kernel e), Some (sy_store S), w)
                | (Inr ok, S, w) \<Rightarrow> (Inr ok, Some (sy_store S), w))
           | Status_Mode \<Rightarrow>
               (case print_status E T S w of
                  (Inl e, S, w) \<Rightarrow> (Inl (Kernel e), Some (sy_store S), w)
                | (Inr (ok, _), S, w) \<Rightarrow> (Inr ok, Some (sy_store S), w))
           | Once_Mode \<Rightarrow>
               (case run_once E T (o_dry_run opts) S w of
                  (Inl e, S, w) \<Rightarrow> (Inl (Kernel e), Some (sy_store S), w)
                | (Inr (ok, _), S, w) \<Rightarrow> (Inr ok, Some (sy_store S), w))
           | Check_Mode \<Rightarrow>
               if o_dry_run opts then (Inl DryRunCheck, None, w)
               else (let (ok, s, w) = check E T False pairs (sy_store S) w in (Inr ok, Some s, w))
           | _ \<Rightarrow> (Inr True, Some (sy_store S), w)))"

end
