(* ===== verification/Sysfs.thy ===== *)
theory Sysfs
  imports Topology
begin

text \<open>
  The readings of \<open>/sys/class/net\<close> in \<^verbatim>\<open>src/topology.rs\<close>: one file or link at a time, which virtual
  function an interface is, the facts behind \<open>from_links\<close>, and \<open>Topology::load\<close>, the same picture
  walked out of \<open>/sys\<close> alone that the program's tests hold the dump against. The file tree is a
  parameter: what a path reads as, points at or lists.
\<close>

section \<open>The tree\<close>

type_synonym fs_path = "string list"

record tree =
  tr_text :: "fs_path \<Rightarrow> string option"
  tr_target :: "fs_path \<Rightarrow> fs_path option"
  tr_names :: "fs_path \<Rightarrow> name list option"
  tr_is_dir :: "fs_path \<Rightarrow> bool"
  tr_exists :: "fs_path \<Rightarrow> bool"

definition NET :: fs_path where
  "NET = [''sys'', ''class'', ''net'']"

text \<open>\<open>Path::file_name\<close>.\<close>

definition file_name :: "fs_path \<Rightarrow> string option" where
  "file_name p = (if p = [] \<or> last p = ''..'' then None else Some (last p))"

definition read_trim :: "tree \<Rightarrow> fs_path \<Rightarrow> string option" where
  "read_trim t p = map_option trim (tr_text t p)"

definition link_target_name :: "tree \<Rightarrow> fs_path \<Rightarrow> string option" where
  "link_target_name t p = (case tr_target t p of None \<Rightarrow> None | Some q \<Rightarrow> file_name q)"

definition read_u32 :: "tree \<Rightarrow> fs_path \<Rightarrow> nat option" where
  "read_u32 t p = (case read_trim t p of None \<Rightarrow> None | Some s \<Rightarrow> parse_uint 32 s)"

definition strip_prefix :: "string \<Rightarrow> string \<Rightarrow> string option" where
  "strip_prefix p s = (if take (length p) s = p then Some (drop (length p) s) else None)"

text \<open>A directory's entries; none where it cannot be read.\<close>

definition entries :: "tree \<Rightarrow> fs_path \<Rightarrow> name list" where
  "entries t p = (case tr_names t p of None \<Rightarrow> [] | Some ns \<Rightarrow> ns)"

section \<open>Which virtual function\<close>

text \<open>\<open>vf_number_of\<close>: the first \<open>virtfnN\<close> of the physical function that points back at this one.\<close>

definition is_this_function :: "tree \<Rightarrow> fs_path \<Rightarrow> string \<Rightarrow> name \<Rightarrow> nat option" where
  "is_this_function t base own n =
     (case strip_prefix ''virtfn'' n of
        None \<Rightarrow> None
      | Some d \<Rightarrow>
          (case parse_uint 32 d of
             None \<Rightarrow> None
           | Some k \<Rightarrow> if link_target_name t (base @ [''device'', ''physfn'', n]) = Some own then Some k else None))"

definition vf_number_of :: "tree \<Rightarrow> fs_path \<Rightarrow> nat option" where
  "vf_number_of t base =
     (case link_target_name t (base @ [''device'']) of
        None \<Rightarrow> None
      | Some own \<Rightarrow>
          (case tr_names t (base @ [''device'', ''physfn'']) of
             None \<Rightarrow> None
           | Some ns \<Rightarrow>
               (case List.map_filter (is_this_function t base own) ns of [] \<Rightarrow> None | k # _ \<Rightarrow> Some k)))"

section \<open>What from_links asks of it\<close>

definition facts_of :: "tree \<Rightarrow> name \<Rightarrow> device_facts" where
  "facts_of t n =
     (let base = NET @ [n] in
      \<lparr>df_driver = link_target_name t (base @ [''device'', ''driver'']),
       df_pf_netdevs = entries t (base @ [''device'', ''physfn'', ''net'']),
       df_is_vf = tr_exists t (base @ [''device'', ''physfn'']),
       df_vf_number = map_option of_nat (vf_number_of t base)\<rparr>)"

text \<open>The tree as it is before the reads of one interface, and as it is after them.\<close>

definition sysfs_between :: "tree \<Rightarrow> tree \<Rightarrow> sysfs" where
  "sysfs_between t t' =
     \<lparr>sy_device_dir = (\<lambda>n. tr_is_dir t (NET @ [n, ''device''])),
      sy_ifindex = (\<lambda>n. map_option of_nat (read_u32 t (NET @ [n, ''ifindex'']))),
      sy_ifindex_after = (\<lambda>n. map_option of_nat (read_u32 t' (NET @ [n, ''ifindex'']))),
      sy_numvfs = (\<lambda>n. read_u32 t (NET @ [n, ''device'', ''sriov_numvfs''])),
      sy_facts = facts_of t\<rparr>"

section \<open>The whole picture from it\<close>

record names =
  nm_master :: "name option"
  nm_lowers :: "name list"
  nm_pf_netdevs :: "name list"
  nm_vf_netdevs :: "name list"

definition vf_netdevs_of :: "tree \<Rightarrow> fs_path \<Rightarrow> name list" where
  "vf_netdevs_of t dev =
     concat (map (\<lambda>f. entries t (dev @ [f, ''net'']))
       (filter (\<lambda>f. strip_prefix ''virtfn'' f \<noteq> None) (entries t dev)))"

text \<open>One interface: \<open>None\<close> where its index cannot be read.\<close>

definition read_link :: "tree \<Rightarrow> name \<Rightarrow> (link \<times> names) option" where
  "read_link t n =
     (let base = NET @ [n]; dev = base @ [''device''] in
      case read_u32 t (base @ [''ifindex'']) of
        None \<Rightarrow> None
      | Some i \<Rightarrow>
          let has_dev = tr_is_dir t dev;
              numvfs = (if has_dev
                        then (case read_u32 t (dev @ [''sriov_numvfs'']) of None \<Rightarrow> 0 | Some k \<Rightarrow> k) else 0);
              is_vf = (has_dev \<and> tr_exists t (dev @ [''physfn'']))
          in Some
              (default_link\<lparr>l_name := n, l_index := of_nat i,
                 l_mac := (case read_trim t (base @ [''address'']) of None \<Rightarrow> None | Some s \<Rightarrow> parse_mac s),
                 l_is_bridge := tr_is_dir t (base @ [''bridge'']),
                 l_driver := (if has_dev then link_target_name t (dev @ [''driver'']) else None),
                 l_numvfs := numvfs, l_is_vf := is_vf,
                 l_vf_number := (if is_vf then map_option of_nat (vf_number_of t base) else None)\<rparr>,
               \<lparr>nm_master = link_target_name t (base @ [''master'']),
                nm_lowers = List.map_filter (strip_prefix ''lower_'') (entries t base),
                nm_pf_netdevs = (if has_dev then entries t (dev @ [''physfn'', ''net'']) else []),
                nm_vf_netdevs = (if 0 < numvfs then vf_netdevs_of t dev else [])\<rparr>))"

text \<open>Names become indices once every interface has been seen; a name that is gone is dropped.\<close>

definition resolve_names :: "(name \<rightharpoonup> ifindex) \<Rightarrow> link \<times> names \<Rightarrow> link" where
  "resolve_names by_name ln =
     (case ln of (l, nm) \<Rightarrow>
        let pfs = sort (List.map_filter by_name (nm_pf_netdevs nm)) in
        l\<lparr>l_master := (case nm_master nm of None \<Rightarrow> None | Some m \<Rightarrow> by_name m),
          l_lowers := List.map_filter by_name (nm_lowers nm),
          l_pf_netdevs := pfs,
          l_physfn := (case pfs of [] \<Rightarrow> None | p # _ \<Rightarrow> Some p),
          l_vf_netdevs := List.map_filter by_name (nm_vf_netdevs nm)\<rparr>)"

definition load :: "tree \<Rightarrow> topology option" where
  "load t =
     map_option (\<lambda>ns.
        let named = List.map_filter (read_link t) ns;
            by_name = fold (\<lambda>(l, _) m. m(l_name l \<mapsto> l_index l)) named Map.empty
        in assemble (map (resolve_names by_name) named) by_name)
       (tr_names t NET)"

end
