(* ===== verification/Wire.thy ===== *)
theory Wire
  imports Netlink
begin

text \<open>
  Laws of the wire format: integers and addresses survive a trip through bytes and through text,
  the walks over messages and attributes stay inside the buffer, what the program sends reads
  back as what it meant, and a dump is believed only when it ended cleanly.
\<close>

section \<open>Integers\<close>

lemma unat_byte [simp]: "unat (b :: u8) < 256"
  using unsigned_less [of b, where 'a = nat] by simp

lemma unat_of_nat_byte: "unat (of_nat n :: u8) = n mod 256"
  by (simp add: unat_of_nat)

text \<open>The numbers the bytes stand for, in Horner form.\<close>

lemma u16_of_Cons: "u16_of (a # b # rest) = of_nat (unat a + 256 * unat b)"
  by (simp add: u16_of_def)

lemma u32_of_Cons:
  "u32_of (a # b # c # d # rest) = of_nat (unat a + 256 * (unat b + 256 * (unat c + 256 * unat d)))"
proof -
  have "unat a + 2 ^ 8 * unat b + 2 ^ 16 * unat c + 2 ^ 24 * unat d
      = unat a + 256 * (unat b + 256 * (unat c + 256 * unat d))"
    by simp
  then show ?thesis by (simp only: u32_of_def nth_Cons_0 nth_Cons_Suc One_nat_def numeral_2_eq_2 numeral_3_eq_3)
qed

lemma unat_of_nat16: "n < 65536 \<Longrightarrow> unat (of_nat n :: u16) = n"
  by (simp add: unat_of_nat)

lemma unat_of_nat32: "n < 4294967296 \<Longrightarrow> unat (of_nat n :: u32) = n"
  by (simp add: unat_of_nat)

lemma unat_u16_of: "unat (u16_of (a # b # rest)) = unat a + 256 * unat b"
proof -
  have "unat a < 256" "unat b < 256" by simp_all
  then show ?thesis unfolding u16_of_Cons by (intro unat_of_nat16) linarith
qed

lemma radix_bound: "a < r \<Longrightarrow> x < k \<Longrightarrow> a + r * x < r * (k :: nat)"
proof -
  assume "a < r" "x < k"
  then have "a + r * x < r * Suc x" by simp
  also have "\<dots> \<le> r * k" using \<open>x < k\<close> by (intro mult_le_mono2) simp
  finally show ?thesis .
qed

lemma unat_u32_of:
  "unat (u32_of (a # b # c # d # rest)) = unat a + 256 * (unat b + 256 * (unat c + 256 * unat d))"
proof -
  have "unat a + 256 * (unat b + 256 * (unat c + 256 * unat d)) < 256 * (256 * (256 * 256))"
    by (intro radix_bound unat_byte)
  then show ?thesis unfolding u32_of_Cons by (intro unat_of_nat32) simp
qed

lemma mod_div_radix: "n mod r + r * (n div r) = (n :: nat)"
  by simp

lemma u16_of_bytes16 [simp]: "u16_of (bytes16 w @ rest) = w"
proof -
  define n where "n = unat w"
  have "n < 65536" unfolding n_def using unsigned_less [of w, where 'a = nat] by simp
  then have "n div 256 mod 256 = n div 256" by (simp add: less_mult_imp_div_less)
  then have "n mod 256 + 256 * (n div 256 mod 256) = n" by simp
  then have "of_nat (n mod 256 + 256 * (n div 256 mod 256)) = w" by (simp add: n_def)
  then show ?thesis
    unfolding bytes16_def append_Cons append_Nil u16_of_Cons unat_of_nat_byte n_def [symmetric] by simp
qed

lemma u32_of_bytes32 [simp]: "u32_of (bytes32 w @ rest) = w"
proof -
  define n where "n = unat w"
  have lt: "n < 4294967296" unfolding n_def using unsigned_less [of w, where 'a = nat] by simp
  have d: "n div 2 ^ 16 = n div 256 div 256" "n div 2 ^ 24 = n div 256 div 256 div 256"
    by (simp_all add: div_mult2_eq [symmetric])
  have "n div 256 div 256 div 256 < 256"
    using lt by (simp add: div_mult2_eq [symmetric] less_mult_imp_div_less)
  then have "n mod 256 + 256 * (n div 256 mod 256 + 256 * (n div 256 div 256 mod 256
          + 256 * (n div 256 div 256 div 256 mod 256))) = n"
    by simp
  then have "of_nat (n mod 256 + 256 * (n div 256 mod 256 + 256 * (n div 256 div 256 mod 256
          + 256 * (n div 256 div 256 div 256 mod 256)))) = w"
    by (simp add: n_def)
  then show ?thesis
    unfolding bytes32_def append_Cons append_Nil u32_of_Cons unat_of_nat_byte n_def [symmetric] d
    by simp
qed

lemma length_bytes16 [simp]: "length (bytes16 w) = 2" by (simp add: bytes16_def)
lemma length_bytes32 [simp]: "length (bytes32 w) = 4" by (simp add: bytes32_def)

lemma radix_inject:
  fixes r :: nat
  assumes "a < r" "a' < r"
  shows "a + r * x = a' + r * x' \<longleftrightarrow> a = a' \<and> x = x'"
proof
  assume eq: "a + r * x = a' + r * x'"
  have "a = a'" using arg_cong [OF eq, of "\<lambda>n. n mod r"] assms by simp
  moreover have "x = x'" using arg_cong [OF eq, of "\<lambda>n. n div r"] assms by simp
  ultimately show "a = a' \<and> x = x'" ..
qed simp

lemma u32_of_inject:
  "u32_of [a, b, c, d] = u32_of [a', b', c', d'] \<longleftrightarrow> a = a' \<and> b = b' \<and> c = c' \<and> d = d'"
proof -
  have "u32_of [a, b, c, d] = u32_of [a', b', c', d'] \<longleftrightarrow>
        unat (u32_of [a, b, c, d]) = unat (u32_of [a', b', c', d'])"
    by (rule word_unat_eq_iff)
  also have "\<dots> \<longleftrightarrow> unat a = unat a' \<and> unat b = unat b' \<and> unat c = unat c' \<and> unat d = unat d'"
    unfolding unat_u32_of by (simp only: radix_inject unat_byte)
  finally show ?thesis by (simp only: word_unat_eq_iff)
qed

section \<open>Codecs\<close>

text \<open>
  What every writer and reader pair of the program promises: what was written reads back. The
  texts of the notes, the interface record and the memory file, and the bytes of an address, are
  interpretations.
\<close>

locale codec =
  fixes ok :: "'a \<Rightarrow> bool" and enc :: "'a \<Rightarrow> 'b" and dec :: "'b \<Rightarrow> 'a option"
  assumes dec_enc: "ok x \<Longrightarrow> dec (enc x) = Some x"
begin

lemma enc_inject: "ok x \<Longrightarrow> ok y \<Longrightarrow> enc x = enc y \<longleftrightarrow> x = y"
  by (metis dec_enc option.inject)

lemma map_filter_enc: "(\<And>x. x \<in> set xs \<Longrightarrow> ok x) \<Longrightarrow> List.map_filter dec (map enc xs) = xs"
  by (induction xs) (auto simp: dec_enc List.map_filter_simps)

lemma inj_on_enc: "inj_on enc {x. ok x}"
  by (auto intro!: inj_onI simp: enc_inject)

end

section \<open>Addresses as text\<close>

lemma of_char_hex_char: "d < 16 \<Longrightarrow> (of_char (hex_char d) :: nat) = (if d < 10 then 48 + d else 87 + d)"
  by (simp add: hex_char_def)

lemma hex_val_hex_char [simp]: "d < 16 \<Longrightarrow> hex_val (hex_char d) = Some d"
  by (auto simp: hex_val_def of_char_hex_char Let_def)

lemma hex_char_plain: "d < 16 \<Longrightarrow> hex_char d \<noteq> CHR '':'' \<and> \<not> is_space (hex_char d)"
proof -
  assume d: "d < 16"
  have "48 \<le> (of_char (hex_char d) :: nat)" and "(of_char (hex_char d) :: nat) \<noteq> 58"
    using d by (auto simp: of_char_hex_char)
  then show ?thesis unfolding is_space_def by auto
qed

lemma format_byte_plain: "c \<in> set (format_byte b) \<Longrightarrow> c \<noteq> CHR '':'' \<and> \<not> is_space c"
proof -
  assume "c \<in> set (format_byte b)"
  moreover have "unat b div 16 < 16" using unat_byte [of b] by linarith
  ultimately show ?thesis by (auto simp: format_byte_def hex_char_plain)
qed

lemma parse_byte_format_byte [simp]: "parse_byte (format_byte b) = Some b"
proof -
  have "unat b div 16 < 16" using unat_byte [of b] by linarith
  moreover have "of_nat (16 * (unat b div 16) + unat b mod 16) = b" by simp
  ultimately show ?thesis by (simp add: parse_byte_def format_byte_def)
qed

lemma split_on_join:
  "ps \<noteq> [] \<Longrightarrow> (\<And>p. p \<in> set ps \<Longrightarrow> c \<notin> set p) \<Longrightarrow> split_on c (join [c] ps) = ps"
  by (induction "[c]" ps rule: join.induct) (auto simp: split_on_no_sep split_on_append_sep)

lemma parse_mac_format_mac: "parse_mac (format_mac m) = Some m"
proof -
  obtain a b c d e f where m: "m = Mac a b c d e f" by (cases m)
  have "split_on (CHR '':'') (format_mac m) = map format_byte (mac_bytes m)"
    unfolding format_mac_def
    by (rule split_on_join) (auto simp: m dest: format_byte_plain)
  then show ?thesis by (simp add: parse_mac_def m mac_of_bytes_def)
qed

lemma format_mac_plain: "c \<in> set (format_mac m) \<Longrightarrow> \<not> is_space c"
  by (cases m) (auto simp: format_mac_def is_space_def dest: format_byte_plain)

lemma format_mac_neq_Nil [simp]: "format_mac m \<noteq> []"
  by (cases m) (simp add: format_mac_def format_byte_def)

lemma trim_format_mac [simp]: "trim (format_mac m) = format_mac m"
  by (rule trim_no_space) (rule format_mac_plain)

interpretation mac_text: codec "\<lambda>_. True" format_mac parse_mac
  by unfold_locales (rule parse_mac_format_mac)

interpretation mac_wire: codec "\<lambda>_. True" mac_bytes mac_of_bytes
  by unfold_locales simp

interpretation index_text: codec "\<lambda>_. True" "\<lambda>i :: u32. show_nat (unat i)" "\<lambda>s. map_option of_nat (parse_uint 32 s)"
proof
  fix i :: u32
  have "unat i < 2 ^ 32" using unsigned_less [of i, where 'a = nat] by simp
  then show "map_option of_nat (parse_uint 32 (show_nat (unat i))) = Some i"
    by (simp add: parse_uint_show_nat)
qed

section \<open>Walks stay inside the buffer\<close>

lemma slice_inside: "off + n \<le> length bs \<Longrightarrow> length (slice off n bs) = n"
  by (simp add: slice_def)

lemma slice_drop: "slice off n (drop k bs) = slice (k + off) n bs"
  by (simp add: slice_def add.commute)

definition inside :: "u8 list \<Rightarrow> message \<Rightarrow> bool" where
  "inside buf m \<longleftrightarrow>
     (\<exists>off. off + NLMSG_HDR + length (m_payload m) \<le> length buf
        \<and> m_payload m = slice (off + NLMSG_HDR) (length (m_payload m)) buf
        \<and> unat (u32_of (slice off 4 buf)) = NLMSG_HDR + length (m_payload m))"

lemma inside_drop: "inside (drop k buf) m \<Longrightarrow> k \<le> length buf \<Longrightarrow> inside buf m"
proof -
  assume "inside (drop k buf) m" and k: "k \<le> length buf"
  then obtain off where "off + NLMSG_HDR + length (m_payload m) \<le> length buf - k"
      "m_payload m = slice (k + (off + NLMSG_HDR)) (length (m_payload m)) buf"
      "unat (u32_of (slice (k + off) 4 buf)) = NLMSG_HDR + length (m_payload m)"
    by (auto simp: inside_def slice_drop)
  then show ?thesis
    unfolding inside_def using k by (intro exI [of _ "k + off"]) (simp add: add.assoc)
qed

lemma messages_unfold:
  assumes "NLMSG_HDR \<le> length buf" "NLMSG_HDR \<le> unat (u32_of (slice 0 4 buf))"
    "unat (u32_of (slice 0 4 buf)) \<le> length buf"
  shows "messages buf =
     \<lparr>m_kind = u16_of (slice 4 2 buf), m_flags = u16_of (slice 6 2 buf), m_seq = u32_of (slice 8 4 buf),
      m_payload = slice NLMSG_HDR (unat (u32_of (slice 0 4 buf)) - NLMSG_HDR) buf\<rparr>
     # messages (drop (align4 (unat (u32_of (slice 0 4 buf)))) buf)"
  using assms by (subst messages.simps) (simp add: Let_def)

lemma messages_stop:
  assumes "length buf < NLMSG_HDR \<or> unat (u32_of (slice 0 4 buf)) < NLMSG_HDR
     \<or> length buf < unat (u32_of (slice 0 4 buf))"
  shows "messages buf = []"
  using assms by (subst messages.simps) (auto simp: Let_def)

text \<open>Whatever the kernel sends, each message the walk yields is a piece of the datagram: its
  header starts at some offset and its payload, which the header's length counts, ends before the
  datagram does. A length that lies ends the walk.\<close>

lemma messages_inside: "list_all (inside buf) (messages buf)"
proof (induction "length buf" arbitrary: buf rule: less_induct)
  case less
  let ?len = "unat (u32_of (slice 0 4 buf))"
  show ?case
  proof (cases "length buf < NLMSG_HDR \<or> ?len < NLMSG_HDR \<or> length buf < ?len")
    case True
    then show ?thesis by (simp add: messages_stop)
  next
    case False
    then have "0 < align4 ?len" "0 < length buf" using align4_ge [of ?len] by auto
    then have IH: "list_all (inside (drop (align4 ?len) buf)) (messages (drop (align4 ?len) buf))"
      by (intro less) simp
    have tail: "list_all (inside buf) (messages (drop (align4 ?len) buf))"
    proof (cases "align4 ?len \<le> length buf")
      case True
      with IH show ?thesis by (auto simp: list_all_iff intro: inside_drop)
    qed (simp add: messages_stop)
    have head: "inside buf \<lparr>m_kind = u16_of (slice 4 2 buf), m_flags = u16_of (slice 6 2 buf),
        m_seq = u32_of (slice 8 4 buf), m_payload = slice NLMSG_HDR (?len - NLMSG_HDR) buf\<rparr>"
      unfolding inside_def using False by (intro exI [of _ 0]) (simp add: slice_inside)
    from False head tail show ?thesis by (simp add: messages_unfold)
  qed
qed

section \<open>What is sent reads back\<close>

lemma slice_append_left [simp]: "off + n \<le> length xs \<Longrightarrow> slice off n (xs @ ys) = slice off n xs"
  by (simp add: slice_def)

lemma slice_append_right [simp]: "length xs \<le> off \<Longrightarrow> slice off n (xs @ ys) = slice (off - length xs) n ys"
  by (simp add: slice_def)

lemma slice_all [simp]: "slice 0 (length xs) xs = xs"
  by (simp add: slice_def)

lemma slice_bytes [simp]: "slice 0 2 (bytes16 w) = bytes16 w" "slice 0 4 (bytes32 v) = bytes32 v"
  using slice_all [of "bytes16 w"] slice_all [of "bytes32 v"] by simp_all

lemma u16_of_bytes [simp]: "u16_of (bytes16 w) = w"
  using u16_of_bytes16 [of w "[]"] by simp

lemma u32_of_bytes [simp]: "u32_of (bytes32 w) = w"
  using u32_of_bytes32 [of w "[]"] by simp

lemma length_put_nlmsghdr [simp]: "length (put_nlmsghdr len kind flags seq) = NLMSG_HDR"
  by (simp add: put_nlmsghdr_def)

lemma put_nlmsghdr_fields:
  "slice 0 4 (put_nlmsghdr len kind flags seq @ r) = bytes32 len"
  "slice 4 2 (put_nlmsghdr len kind flags seq @ r) = bytes16 kind"
  "slice 6 2 (put_nlmsghdr len kind flags seq @ r) = bytes16 flags"
  "slice 8 4 (put_nlmsghdr len kind flags seq @ r) = bytes32 seq"
  by (simp_all add: put_nlmsghdr_def del: append_assoc)

lemma messages_request:
  assumes "unat len = NLMSG_HDR + length payload"
  shows "messages (put_nlmsghdr len kind flags seq @ payload)
       = [\<lparr>m_kind = kind, m_flags = flags, m_seq = seq, m_payload = payload\<rparr>]"
proof -
  have "messages (drop (align4 (unat len)) (put_nlmsghdr len kind flags seq @ payload)) = []"
    using assms align4_ge [of "unat len"] by (intro messages_stop) simp
  then show ?thesis
    by (subst messages_unfold) (simp_all add: put_nlmsghdr_fields assms)
qed

lemma attrs_stop: "length buf < RTATTR_HDR \<Longrightarrow> attrs buf = []"
  by (subst attrs.simps) simp

lemma attrs_put_attr:
  assumes "put_attr kind v = Some a"
  shows "attrs (a @ rest) = (and kind 0x3fff, v) # attrs rest"
proof -
  let ?len = "RTATTR_HDR + length v"
  have fits: "?len \<le> 65535"
    and a: "a = bytes16 (of_nat ?len) @ bytes16 kind @ v @ replicate (align4 ?len - ?len) 0"
    using assms by (simp_all add: put_attr_def Let_def split: if_splits)
  have len: "unat (of_nat ?len :: u16) = ?len"
    using fits by (intro unat_of_nat16) simp
  have la: "length a = align4 ?len" using a align4_ge [of ?len] by simp
  have "attrs (a @ rest) = (and kind 0x3fff, slice RTATTR_HDR (length v) (a @ rest)) # attrs (drop (align4 ?len) (a @ rest))"
    using la align4_ge [of ?len] len by (subst attrs.simps) (simp add: a Let_def)
  moreover have "slice RTATTR_HDR (length v) (a @ rest) = v"
    by (simp add: a)
  ultimately show ?thesis using la by simp
qed

lemma sint_pos_nonzero: "0 < sint i \<Longrightarrow> i32_of (bytes32 i) = sint i"
  by (simp add: i32_of_def)

text \<open>The one message \<open>set_self_fdb\<close> sends, as the reader of forwarding entries sees it.\<close>

definition self_entry :: "ifindex \<Rightarrow> mac \<Rightarrow> fdb_entry" where
  "self_entry i m =
     \<lparr>fe_ifindex = i, fe_master = None, fe_mac = m, fe_state = NUD_PERMANENT, fe_flags = NTF_SELF\<rparr>"

lemma parse_fdb_self:
  assumes "0 < sint i" "put_attr 2 (mac_bytes m) = Some a"
  shows "parse_fdb ([AF_BRIDGE, 0] @ bytes16 0 @ bytes32 i @ bytes16 NUD_PERMANENT @ [NTF_SELF, 0] @ a)
       = Some (self_entry i m)"
proof -
  let ?h = "[AF_BRIDGE, 0] @ bytes16 0 @ bytes32 i @ bytes16 NUD_PERMANENT @ [NTF_SELF, 0]"
  have h: "length ?h = NDMSG_LEN" "slice 4 4 (?h @ a) = bytes32 i" "slice 8 2 (?h @ a) = bytes16 NUD_PERMANENT"
    "(?h @ a) ! 10 = NTF_SELF"
    by (simp_all add: nth_append slice_def)
  have "attrs a = [(2, mac_bytes m)]"
    using attrs_put_attr [OF assms(2), of "[]"] by (simp add: attrs_stop)
  then have "attrs (drop NDMSG_LEN (?h @ a)) = [(2, mac_bytes m)]" using h(1) by simp
  then have "parse_fdb (?h @ a) = Some (self_entry i m)"
    using h assms(1) unfolding parse_fdb_def self_entry_def
    by (simp add: i32_of_def fdb_attr_def del: append.simps append_assoc)
  then show ?thesis by simp
qed

text \<open>C38: what is written into a card reads back as what was meant: the request of \<open>set_self_fdb\<close>
  is one well-formed message of the type and flags the kernel expects, under the sequence number
  of the question, and the program's own reader finds in it the interface, the address, and an
  entry that is the card's own and was never learnt.\<close>

theorem self_fdb_request_reads_back:
  assumes "0 < sint i"
  shows "\<exists>bytes payload. self_fdb_request i m add seq = Some bytes
     \<and> messages bytes = [\<lparr>m_kind = (if add then RTM_NEWNEIGH else RTM_DELNEIGH),
          m_flags = (if add then 0x605 else 0x005), m_seq = seq, m_payload = payload\<rparr>]
     \<and> parse_fdb payload = Some (self_entry i m)
     \<and> is_self (self_entry i m) \<and> \<not> is_learned (self_entry i m)"
proof -
  obtain a where a: "put_attr 2 (mac_bytes m) = Some a" and la: "length a = 12"
    by (simp add: put_attr_def align4_def)
  let ?p = "[AF_BRIDGE, 0] @ bytes16 0 @ bytes32 i @ bytes16 NUD_PERMANENT @ [NTF_SELF, 0] @ a"
  have "messages (put_nlmsghdr 40 (if add then RTM_NEWNEIGH else RTM_DELNEIGH) (if add then 0x605 else 0x005) seq @ ?p)
      = [\<lparr>m_kind = (if add then RTM_NEWNEIGH else RTM_DELNEIGH),
          m_flags = (if add then 0x605 else 0x005), m_seq = seq, m_payload = ?p\<rparr>]"
    by (rule messages_request) (simp add: la)
  moreover have "is_self (self_entry i m)" "\<not> is_learned (self_entry i m)"
    by (simp_all add: self_entry_def is_self_def is_learned_def)
  ultimately show ?thesis
    using parse_fdb_self [OF assms a] by (auto simp: self_fdb_request_def a)
qed

theorem self_fdb_request_reads_back_witness:
  "\<exists>bytes payload. self_fdb_request 7 (Mac 2 0 0 0 0 9) True 5 = Some bytes
     \<and> messages bytes = [\<lparr>m_kind = RTM_NEWNEIGH, m_flags = 0x605, m_seq = 5, m_payload = payload\<rparr>]
     \<and> parse_fdb payload = Some (self_entry 7 (Mac 2 0 0 0 0 9))"
  using self_fdb_request_reads_back [of 7 "Mac 2 0 0 0 0 9" True 5] by auto

section \<open>A dump is believed when it ended cleanly\<close>

text \<open>A message of the answer that lets it go on, and an answer that ended as it should.\<close>

definition goes_on :: "u32 \<Rightarrow> message \<Rightarrow> bool" where
  "goes_on seq m \<longleftrightarrow>
     m_seq m = seq \<longrightarrow> and (m_flags m) 0x10 = 0 \<and> m_kind m \<noteq> NLMSG_DONE \<and> m_kind m \<noteq> NLMSG_ERROR"

definition ends_well :: "u32 \<Rightarrow> message \<Rightarrow> bool" where
  "ends_well seq m \<longleftrightarrow>
     m_seq m = seq \<and> and (m_flags m) 0x10 = 0 \<and> m_kind m = NLMSG_DONE \<and> nlmsg_error (m_payload m) = None"

definition answers_of :: "u16 \<Rightarrow> u32 \<Rightarrow> message list \<Rightarrow> u8 list list" where
  "answers_of want seq ms =
     map m_payload (filter (\<lambda>m. m_seq m = seq \<and> m_kind m = want \<and> m_kind m \<noteq> NLMSG_NOOP) ms)"

definition clean_answer :: "u16 \<Rightarrow> u32 \<Rightarrow> message list \<Rightarrow> u8 list list \<Rightarrow> bool" where
  "clean_answer want seq ms out \<longleftrightarrow>
     (\<exists>pre d post. ms = pre @ d # post \<and> list_all (goes_on seq) pre \<and> ends_well seq d
        \<and> out = answers_of want seq pre)"

lemma goes_on_cases:
  "goes_on seq m \<Longrightarrow> dump_messages want seq (m # ms) acc
     = dump_messages want seq ms (acc @ answers_of want seq [m])"
  by (auto simp: goes_on_def answers_of_def)

lemma dump_messages_goes_on:
  "list_all (goes_on seq) pre \<Longrightarrow>
   dump_messages want seq (pre @ ms) acc = dump_messages want seq ms (acc @ answers_of want seq pre)"
proof (induction pre arbitrary: acc)
  case Nil
  then show ?case by (simp add: answers_of_def)
next
  case (Cons m pre)
  then have m: "goes_on seq m" and pre: "list_all (goes_on seq) pre" by simp_all
  have "dump_messages want seq ((m # pre) @ ms) acc
      = dump_messages want seq ms ((acc @ answers_of want seq [m]) @ answers_of want seq pre)"
    unfolding append_Cons goes_on_cases [OF m] by (rule Cons.IH [OF pre])
  also have "(acc @ answers_of want seq [m]) @ answers_of want seq pre = acc @ answers_of want seq (m # pre)"
    by (auto simp: answers_of_def)
  finally show ?case .
qed

lemma dump_messages_ends_well:
  "ends_well seq d \<Longrightarrow> dump_messages want seq (d # post) acc = (acc, Some (Inr Dump_Done))"
  by (simp add: ends_well_def)

text \<open>A message either lets the answer go on, or decides it.\<close>

lemma dump_messages_decides:
  "\<not> goes_on seq m \<Longrightarrow> \<exists>r. dump_messages want seq (m # ms) acc = (acc, Some r)
     \<and> (r = Inr Dump_Done \<longleftrightarrow> ends_well seq m)"
  by (auto simp: goes_on_def ends_well_def split: option.splits)

lemma dump_messages_split:
  "(list_all (goes_on seq) ms \<and> dump_messages want seq ms acc = (acc @ answers_of want seq ms, None))
   \<or> (\<exists>pre m post r. ms = pre @ m # post \<and> list_all (goes_on seq) pre \<and> \<not> goes_on seq m
        \<and> dump_messages want seq ms acc = (acc @ answers_of want seq pre, Some r)
        \<and> (r = Inr Dump_Done \<longleftrightarrow> ends_well seq m))"
proof (cases "list_all (goes_on seq) ms")
  case True
  then show ?thesis using dump_messages_goes_on [OF True, of want "[]" acc] by simp
next
  case False
  then obtain pre m post where ms: "ms = pre @ m # post" and "\<not> goes_on seq m"
    and pre: "\<forall>x \<in> set pre. \<not> \<not> goes_on seq x"
    unfolding list_all_iff using split_list_first_prop [of ms "\<lambda>x. \<not> goes_on seq x"] by blast
  moreover from pre have "list_all (goes_on seq) pre" by (simp add: list_all_iff)
  moreover obtain r where "dump_messages want seq (m # post) (acc @ answers_of want seq pre)
      = (acc @ answers_of want seq pre, Some r)" "r = Inr Dump_Done \<longleftrightarrow> ends_well seq m"
    using dump_messages_decides [OF \<open>\<not> goes_on seq m\<close>] by blast
  ultimately show ?thesis by (metis dump_messages_goes_on)
qed

lemma ends_well_not_goes_on: "ends_well seq m \<Longrightarrow> \<not> goes_on seq m"
  by (simp add: ends_well_def goes_on_def)

lemma answers_of_append: "answers_of want seq (xs @ ys) = answers_of want seq xs @ answers_of want seq ys"
  by (simp add: answers_of_def)

lemma run_dump_done:
  "run_dump buflen want seq ds acc = (out, Inr Dump_Done) \<Longrightarrow>
     \<exists>more. out = acc @ more \<and> clean_answer want seq (concat (map messages ds)) more"
proof (induction ds arbitrary: acc)
  case Nil
  then show ?case by simp
next
  case (Cons d ds)
  from Cons.prems have fits: "\<not> buflen < length d" by (auto split: if_splits)
  from dump_messages_split [of seq "messages d" want acc] show ?case
  proof (elim disjE exE conjE)
    assume on: "list_all (goes_on seq) (messages d)"
      and "dump_messages want seq (messages d) acc = (acc @ answers_of want seq (messages d), None)"
    with Cons.prems fits
    have "run_dump buflen want seq ds (acc @ answers_of want seq (messages d)) = (out, Inr Dump_Done)"
      by simp
    from Cons.IH [OF this] obtain more
      where out: "out = acc @ (answers_of want seq (messages d) @ more)"
        and clean: "clean_answer want seq (concat (map messages ds)) more" by auto
    from clean obtain pre e post
      where "concat (map messages ds) = pre @ e # post" "list_all (goes_on seq) pre" "ends_well seq e"
        "more = answers_of want seq pre" unfolding clean_answer_def by blast
    with on have "clean_answer want seq (concat (map messages (d # ds))) (answers_of want seq (messages d) @ more)"
      unfolding clean_answer_def
      by (intro exI [of _ "messages d @ pre"] exI [of _ e] exI [of _ post]) (simp add: answers_of_append)
    with out show ?thesis by blast
  next
    fix pre m post r
    assume ms: "messages d = pre @ m # post" and pre: "list_all (goes_on seq) pre"
      and dm: "dump_messages want seq (messages d) acc = (acc @ answers_of want seq pre, Some r)"
      and r: "r = Inr Dump_Done \<longleftrightarrow> ends_well seq m"
    with Cons.prems fits have "out = acc @ answers_of want seq pre" "r = Inr Dump_Done" by simp_all
    with ms pre r show ?thesis
      unfolding clean_answer_def by auto
  qed
qed

text \<open>C30: a dump counts as an answer only when it ended cleanly. If \<open>dump_into\<close> returns a list, then
  the last attempt's datagrams carried, under that attempt's own sequence number, an error-free
  \<open>NLMSG_DONE\<close>; no message before it was marked interrupted, was an error or another end; and the
  list is exactly the payloads of the wanted type before it. An interrupted or truncated attempt
  contributes nothing.\<close>

theorem dump_into_clean:
  assumes "dump_into k buflen want seq answers = (Inr out, buflen', seq')"
  shows "clean_answer want seq' (concat (map messages (answers seq'))) out"
  using assms
proof (induction k arbitrary: buflen seq)
  case 0
  then show ?case by simp
next
  case (Suc k)
  obtain acc r where run: "run_dump buflen want (seq + 1) (answers (seq + 1)) [] = (acc, r)"
    by (cases "run_dump buflen want (seq + 1) (answers (seq + 1)) []")
  show ?case
  proof (cases "r = Inr Dump_Done")
    case True
    with Suc.prems run have "seq' = seq + 1" "acc = out" by (simp_all add: Let_def)
    with run True show ?thesis using run_dump_done [of buflen want "seq + 1" "answers (seq + 1)" "[]"] by auto
  next
    case False
    with Suc.prems run obtain buflen''
      where "dump_into k buflen'' want (seq + 1) answers = (Inr out, buflen', seq')"
      by (auto simp: Let_def split: sum.splits dump_end.splits if_splits)
    then show ?thesis by (rule Suc.IH)
  qed
qed

text \<open>A datagram of one message, for the witnesses.\<close>

definition done_message :: "u32 \<Rightarrow> u8 list" where
  "done_message seq = put_nlmsghdr 20 NLMSG_DONE 2 seq @ bytes32 0"

lemma messages_done: "messages (done_message seq)
    = [\<lparr>m_kind = NLMSG_DONE, m_flags = 2, m_seq = seq, m_payload = bytes32 0\<rparr>]"
  unfolding done_message_def by (rule messages_request) simp

lemma nlmsg_error_zero [simp]: "nlmsg_error (bytes32 0) = None"
  by (simp add: nlmsg_error_def i32_of_def)

theorem dump_into_clean_witness:
  "clean_answer RTM_NEWLINK 5 (concat (map messages [done_message 5])) []"
proof -
  have len: "length (done_message 5) = 20" by (simp add: done_message_def)
  have "ends_well 5 \<lparr>m_kind = NLMSG_DONE, m_flags = 2, m_seq = 5, m_payload = bytes32 0\<rparr>"
    by (simp add: ends_well_def)
  then have "run_dump 64 RTM_NEWLINK 5 [done_message 5] [] = ([], Inr Dump_Done)"
    by (simp only: run_dump.simps len messages_done dump_messages_ends_well) simp
  then have "dump_into (Suc 7) 64 RTM_NEWLINK 4 (\<lambda>s. [done_message s]) = (Inr [], 64, 5)"
    by (simp only: dump_into.simps Let_def) simp
  from dump_into_clean [OF this] show ?thesis .
qed

end
