(* ===== verification/Hash.thy ===== *)
theory Hash
  imports Wire "HOL-Library.Monad_Syntax"
begin

text \<open>
  \<^verbatim>\<open>src/hash.rs\<close>: the multiply-rotate hash of the program's sets and maps, and the seed it starts
  from. What the system answers (the random pool, the exec bytes, the clocks) is an argument of
  \<open>fresh_seed\<close>. The order a hash set is iterated in depends on this hash; everywhere else in the
  development that order is the parameter \<open>e_order\<close>.
\<close>

unbundle bit_operations_syntax

type_synonym u64 = "64 word"

definition MULTIPLIER :: u64 where "MULTIPLIER = 0x517cc1b727220a95"

definition u64_of :: "u8 list \<Rightarrow> u64" where
  "u64_of bs = ucast (u32_of bs) OR push_bit 32 (ucast (u32_of (drop 4 bs)))"

text \<open>\<open>FxHasher::add\<close> and \<open>write\<close>: eight bytes at a time, then four, then one by one.\<close>

definition hash_add :: "u64 \<Rightarrow> u64 \<Rightarrow> u64" where
  "hash_add h w = (word_rotl 5 h XOR w) * MULTIPLIER"

definition write_bytes :: "u64 \<Rightarrow> u8 list \<Rightarrow> u64" where
  "write_bytes h bs = foldl (\<lambda>h b. hash_add h (ucast b)) h bs"

definition write_tail :: "u64 \<Rightarrow> u8 list \<Rightarrow> u64" where
  "write_tail h bs =
     (if 4 \<le> length bs then write_bytes (hash_add h (ucast (u32_of (take 4 bs)))) (drop 4 bs)
      else write_bytes h bs)"

fun hash_write :: "u64 \<Rightarrow> u8 list \<Rightarrow> u64" where
  "hash_write h bs =
     (if 8 \<le> length bs then hash_write (hash_add h (u64_of (take 8 bs))) (drop 8 bs)
      else write_tail h bs)"

declare hash_write.simps [simp del]

definition write_u8 :: "u64 \<Rightarrow> u8 \<Rightarrow> u64" where "write_u8 h n = hash_add h (ucast n)"
definition write_u32 :: "u64 \<Rightarrow> u32 \<Rightarrow> u64" where "write_u32 h n = hash_add h (ucast n)"
definition write_usize :: "u64 \<Rightarrow> u64 \<Rightarrow> u64" where "write_usize h n = hash_add h n"

text \<open>An address as a key: the standard library writes the length of an array, then its bytes.\<close>

definition hash_mac :: "u64 \<Rightarrow> mac \<Rightarrow> u64" where
  "hash_mac seed m = hash_write (write_usize seed 6) (mac_bytes m)"

text \<open>\<open>fresh_seed\<close>, \<open>from_the_moment\<close> and the chosen-once \<open>seed\<close>; zero is "not chosen yet".\<close>

definition from_the_moment :: "u64 \<Rightarrow> u64 \<Rightarrow> u64 \<Rightarrow> u64 \<Rightarrow> u64 \<Rightarrow> u64" where
  "from_the_moment mono_nsec real_nsec real_sec stack pid =
     word_rotl 17 mono_nsec XOR word_rotl 31 real_nsec XOR real_sec XOR word_rotl 43 stack
     XOR word_rotl 7 pid"

text \<open>
  \<open>from_getrandom\<close>: eight bytes without waiting; a call may give fewer than asked for or be
  interrupted. \<open>gr n\<close> stands for the system call with \<open>GRND_NONBLOCK\<close>.
\<close>

partial_function (option) from_getrandom ::
    "(nat \<Rightarrow> 'w \<Rightarrow> (io_error + u8 list) \<times> 'w) \<Rightarrow> u8 list \<Rightarrow> 'w \<Rightarrow> (u64 option \<times> 'w) option" where
  "from_getrandom gr got w =
     (if 8 \<le> length got then Some (Some (u64_of got), w)
      else case gr (8 - length got) w of
             (Inr bs, w) \<Rightarrow> if bs = [] then Some (None, w) else from_getrandom gr (got @ bs) w
           | (Inl e, w) \<Rightarrow> if e = EINTR then from_getrandom gr got w else Some (None, w))"

text \<open>\<open>from_auxv\<close>: the first eight of the bytes the kernel leaves at exec, where it left any.\<close>

definition from_auxv :: "u8 list option \<Rightarrow> u64" where
  "from_auxv r = (case r of None \<Rightarrow> 0 | Some bs \<Rightarrow> u64_of (take 8 bs))"

definition fresh_seed :: "u64 option \<Rightarrow> u64 \<Rightarrow> u64 \<Rightarrow> u64" where
  "fresh_seed pool auxv moment =
     (case pool of Some n \<Rightarrow> n OR 1 | None \<Rightarrow> (auxv XOR moment) OR 1)"

text \<open>One call of \<open>seed\<close> against the stored value: what it returns and what is stored.\<close>

definition seed :: "u64 \<Rightarrow> u64 \<Rightarrow> u64 \<times> u64" where
  "seed stored fresh = (if stored \<noteq> 0 then (stored, stored) else (fresh, fresh))"

section \<open>Laws\<close>

text \<open>The multiplier is odd, hence invertible: no step of the hash loses a bit.\<close>

definition MULTIPLIER_INVERSE :: u64 where "MULTIPLIER_INVERSE = 0x2040003d780970bd"

lemma multiplier_inverse: "MULTIPLIER * MULTIPLIER_INVERSE = 1"
  by (simp add: MULTIPLIER_def MULTIPLIER_INVERSE_def)

lemma multiplier_cancel [simp]: "x * MULTIPLIER = y * MULTIPLIER \<longleftrightarrow> x = y" for x y :: u64
proof
  assume eq: "x * MULTIPLIER = y * MULTIPLIER"
  have "x * MULTIPLIER * MULTIPLIER_INVERSE = y * MULTIPLIER * MULTIPLIER_INVERSE"
    by (simp only: eq)
  moreover have "z * MULTIPLIER * MULTIPLIER_INVERSE = z" for z :: u64
    by (simp add: mult.assoc multiplier_inverse)
  ultimately show "x = y" by simp
qed simp

lemma xor_cancel: "h XOR x = h XOR y \<longleftrightarrow> x = y" for h x y :: u64
proof
  assume eq: "h XOR x = h XOR y"
  have "h XOR (h XOR z) = z" for z by (simp flip: xor.assoc)
  with arg_cong [OF eq, of "\<lambda>z. h XOR z"] show "x = y" by simp
qed simp

lemma rotl_inject [simp]: "word_rotl n x = word_rotl n y \<longleftrightarrow> x = y" for x y :: u64
  by (metis word_rot_lr)

lemma hash_add_word [simp]: "hash_add h x = hash_add h y \<longleftrightarrow> x = y"
  by (simp add: hash_add_def xor_cancel)

lemma hash_add_state [simp]: "hash_add g x = hash_add h x \<longleftrightarrow> g = h"
  by (simp add: hash_add_def xor_cancel xor.commute [of _ x])

lemma ucast_ucast_byte: "ucast (ucast (x :: u8) :: u64) = x"
  by (rule bit_word_eqI) (simp add: bit_simps)

lemma ucast_ucast_u32: "ucast (ucast (x :: u32) :: u64) = x"
  by (rule bit_word_eqI) (simp add: bit_simps)

lemma ucast_byte_inject [simp]: "(ucast (x :: u8) :: u64) = ucast y \<longleftrightarrow> x = y"
  by (metis ucast_ucast_byte)

lemma ucast_u32_inject [simp]: "(ucast (x :: u32) :: u64) = ucast y \<longleftrightarrow> x = y"
  by (metis ucast_ucast_u32)

lemma hash_mac_unfold:
  "hash_mac s (Mac a b c d e f) =
     hash_add (hash_add (hash_add (write_usize s 6) (ucast (u32_of [a, b, c, d]))) (ucast e)) (ucast f)"
  by (simp add: hash_mac_def hash_write.simps write_tail_def write_bytes_def)

text \<open>Every byte of an address reaches the hash: under any seed, two addresses that differ in
  exactly one byte have different hashes.\<close>

lemma hash_sees_every_byte:
  assumes "k < 6" "mac_bytes x = (mac_bytes m)[k := b]" "b \<noteq> mac_bytes m ! k"
  shows "hash_mac s x \<noteq> hash_mac s m"
proof -
  obtain a1 a2 a3 a4 a5 a6 where m: "m = Mac a1 a2 a3 a4 a5 a6" by (cases m)
  obtain x1 x2 x3 x4 x5 x6 where x: "x = Mac x1 x2 x3 x4 x5 x6" by (cases x)
  have "k = 0 \<or> k = 1 \<or> k = 2 \<or> k = 3 \<or> k = 4 \<or> k = 5" using assms(1) by linarith
  then show ?thesis
    using assms(2,3) by (elim disjE) (auto simp: m x hash_mac_unfold u32_of_inject numeral_eq_Suc)
qed

text \<open>The seed is chosen once: a process that asks again gets the same seed whatever its sources
  would answer then, and the seed is never zero, which would mean "not chosen yet", nor any
  constant: it is odd and otherwise what the random pool said, when it answered.\<close>

lemma seed_is_chosen_once:
  "fresh_seed pool auxv moment \<noteq> 0
   \<and> seed (snd (seed stored (fresh_seed pool auxv moment))) (fresh_seed pool' auxv' moment')
       = seed stored (fresh_seed pool auxv moment)
   \<and> (fresh_seed (Some n) auxv moment = n OR 1)"
proof -
  have odd: "x OR 1 \<noteq> 0" for x :: u64
    by (metis bit_1_0 bit_or_iff bit_0_eq bot_apply bot_boolE)
  have fresh: "fresh_seed p a q \<noteq> 0" for p a q
    by (simp add: fresh_seed_def odd split: option.splits)
  then show ?thesis by (simp add: seed_def fresh_seed_def)
qed

end
