(* ===== verification/Noise_Filter.thy ===== *)
theory Noise_Filter
  imports Wire
begin

text \<open>
  The classic BPF program that \<open>attach_noise_filter\<close> of \<^verbatim>\<open>src/netlink.rs\<close> puts on the subscription
  socket, instruction for instruction, and the meaning of the instructions it uses: a 32-bit
  accumulator and index register, forward jumps, and a load beyond the packet that ends the
  program with zero. What is proved is that the filter never drops anything the program would
  have used, and that it does drop what it exists to drop.
\<close>

unbundle bit_operations_syntax

section \<open>The machine\<close>

text \<open>\<open>libc::sock_filter\<close>.\<close>

record sock_filter =
  sf_code :: u16
  sf_jt :: nat
  sf_jf :: nat
  sf_k :: u32

definition stmt :: "u16 \<Rightarrow> u32 \<Rightarrow> sock_filter" where
  "stmt code k = \<lparr>sf_code = code, sf_jt = 0, sf_jf = 0, sf_k = k\<rparr>"

definition jump :: "u16 \<Rightarrow> u32 \<Rightarrow> nat \<Rightarrow> nat \<Rightarrow> sock_filter" where
  "jump code k jt jf = \<lparr>sf_code = code, sf_jt = jt, sf_jf = jf, sf_k = k\<rparr>"

abbreviation (input) LD_B_ABS :: u16 where "LD_B_ABS \<equiv> 0x30"
abbreviation (input) LD_W_LEN :: u16 where "LD_W_LEN \<equiv> 0x80"
abbreviation (input) JEQ_K :: u16 where "JEQ_K \<equiv> 0x15"
abbreviation (input) JGE_K :: u16 where "JGE_K \<equiv> 0x35"
abbreviation (input) LSH_K :: u16 where "LSH_K \<equiv> 0x64"
abbreviation (input) OR_X :: u16 where "OR_X \<equiv> 0x4c"
abbreviation (input) ADD_K :: u16 where "ADD_K \<equiv> 0x04"
abbreviation (input) AND_K :: u16 where "AND_K \<equiv> 0x54"
abbreviation (input) SUB_X :: u16 where "SUB_X \<equiv> 0x1c"
abbreviation (input) TAX :: u16 where "TAX \<equiv> 0x07"
abbreviation (input) RET_K :: u16 where "RET_K \<equiv> 0x06"
abbreviation (input) ACCEPT :: u32 where "ACCEPT \<equiv> 0xffffffff"

text \<open>
  One run: the program left to execute, the accumulator, the index register. A program that
  falls off its end or meets an opcode it does not use is refused by the kernel when attached;
  here it drops.
\<close>

function run_filter :: "u8 list \<Rightarrow> sock_filter list \<Rightarrow> u32 \<Rightarrow> u32 \<Rightarrow> u32" where
  "run_filter pkt [] a x = 0"
| "run_filter pkt (i # is) a x =
     (if sf_code i = RET_K then sf_k i
      else if sf_code i = LD_B_ABS then
        (if unat (sf_k i) < length pkt then run_filter pkt is (ucast (pkt ! unat (sf_k i))) x else 0)
      else if sf_code i = LD_W_LEN then run_filter pkt is (of_nat (length pkt)) x
      else if sf_code i = JEQ_K then
        run_filter pkt (drop (if a = sf_k i then sf_jt i else sf_jf i) is) a x
      else if sf_code i = JGE_K then
        run_filter pkt (drop (if sf_k i \<le> a then sf_jt i else sf_jf i) is) a x
      else if sf_code i = LSH_K then run_filter pkt is (push_bit (unat (sf_k i)) a) x
      else if sf_code i = OR_X then run_filter pkt is (a OR x) x
      else if sf_code i = ADD_K then run_filter pkt is (a + sf_k i) x
      else if sf_code i = AND_K then run_filter pkt is (a AND sf_k i) x
      else if sf_code i = SUB_X then run_filter pkt is (a - x) x
      else if sf_code i = TAX then run_filter pkt is a a
      else 0)"
  by pat_completeness auto
termination
  by (relation "measure (\<lambda>(pkt, is, a, x). length is)") auto

section \<open>The program\<close>

definition noise_filter :: "sock_filter list" where
  "noise_filter =
     [stmt LD_B_ABS 2,
      jump JEQ_K 0 0 18,
      stmt LD_B_ABS 3,
      jump JEQ_K 0 0 16,
      stmt LD_B_ABS 1,
      stmt LSH_K 8,
      stmt TAX 0,
      stmt LD_B_ABS 0,
      stmt OR_X 0,
      stmt ADD_K 3,
      stmt AND_K (NOT 3),
      stmt TAX 0,
      stmt LD_W_LEN 0,
      stmt SUB_X 0,
      jump JGE_K 16 5 0,
      stmt LD_B_ABS 5,
      jump JEQ_K 0 0 3,
      stmt LD_B_ABS 4,
      jump JEQ_K (ucast RTM_NEWNEIGH) 2 0,
      jump JEQ_K (ucast RTM_DELNEIGH) 1 0,
      stmt RET_K ACCEPT,
      stmt LD_B_ABS 16,
      jump JEQ_K (ucast AF_BRIDGE) 0 1,
      stmt RET_K ACCEPT,
      stmt RET_K 0]"

definition delivers :: "u8 list \<Rightarrow> bool" where
  "delivers pkt \<longleftrightarrow> run_filter pkt noise_filter 0 0 \<noteq> 0"

section \<open>What the program computes\<close>

definition room :: "u8 list \<Rightarrow> u32" where
  "room pkt = of_nat (length pkt) - (((ucast (pkt ! 0) OR push_bit 8 (ucast (pkt ! 1))) + 3) AND NOT 3)"

lemma ucast_byte_eq [simp]:
  "(ucast (b :: u8) :: u32) = 0 \<longleftrightarrow> b = 0"
  "(ucast (b :: u8) :: u32) = 7 \<longleftrightarrow> b = 7"
  "(ucast (b :: u8) :: u32) = 28 \<longleftrightarrow> b = 28"
  "(ucast (b :: u8) :: u32) = 29 \<longleftrightarrow> b = 29"
proof -
  have inj: "(ucast (b :: u8) :: u32) = ucast c \<longleftrightarrow> b = c" for c
  proof
    assume "(ucast b :: u32) = ucast c"
    then have "(ucast (ucast b :: u32) :: u8) = ucast (ucast c :: u32)" by simp
    moreover have "(ucast (ucast d :: u32) :: u8) = d" for d :: u8
      by (rule bit_word_eqI) (simp add: bit_simps)
    ultimately show "b = c" by simp
  qed simp
  show "(ucast (b :: u8) :: u32) = 0 \<longleftrightarrow> b = 0"
    "(ucast (b :: u8) :: u32) = 7 \<longleftrightarrow> b = 7"
    "(ucast (b :: u8) :: u32) = 28 \<longleftrightarrow> b = 28"
    "(ucast (b :: u8) :: u32) = 29 \<longleftrightarrow> b = 29"
    using inj [of 0] inj [of 7] inj [of 28] inj [of 29] by simp_all
qed

lemma run_filter_noise:
  "run_filter pkt noise_filter 0 0 =
     (if length pkt < 3 then 0
      else if pkt ! 2 \<noteq> 0 then ACCEPT
      else if length pkt < 4 then 0
      else if pkt ! 3 \<noteq> 0 then ACCEPT
      else if 16 \<le> room pkt then ACCEPT
      else if length pkt < 6 then 0
      else if pkt ! 5 \<noteq> 0 then ACCEPT
      else if pkt ! 4 \<noteq> ucast RTM_NEWNEIGH \<and> pkt ! 4 \<noteq> ucast RTM_DELNEIGH then ACCEPT
      else if length pkt < 17 then 0
      else if pkt ! 16 = AF_BRIDGE then ACCEPT else 0)"
  by (simp add: noise_filter_def stmt_def jump_def room_def not_less)

section \<open>The arithmetic\<close>

lemma bytes_or: "(ucast (a :: u8) OR push_bit 8 (ucast (b :: u8)) :: u32) = of_nat (unat a + 256 * unat b)"
proof -
  have "(ucast a :: u32) AND push_bit 8 (ucast b) = 0"
    by (rule bit_word_eqI) (auto simp: bit_simps dest: bit_imp_le_length)
  then have "(ucast a OR push_bit 8 (ucast b) :: u32) = ucast a + push_bit 8 (ucast b)"
    by (simp add: disjunctive_add_eq_or)
  then show ?thesis by (simp add: push_bit_eq_mult mult.commute)
qed

lemma and_not_mask_shift: "x AND NOT (mask k) = push_bit k (drop_bit k x)" for x :: u32
  by (rule bit_word_eqI) (auto simp: bit_simps)

lemma and_not_3: "(x :: u32) AND NOT 3 = push_bit 2 (drop_bit 2 x)"
proof -
  have "(3 :: u32) = mask 2" by (simp add: mask_eq_exp_minus_1)
  then show ?thesis by (simp only: and_not_mask_shift)
qed

lemma word_align4: "n < 65536 \<Longrightarrow> ((of_nat n :: u32) + 3) AND NOT 3 = of_nat (align4 n)"
proof -
  assume n: "n < 65536"
  have "(of_nat n :: u32) + 3 = of_nat (n + 3)" by simp
  moreover have "unat (drop_bit 2 (of_nat (n + 3) :: u32)) = (n + 3) div 4"
    using n by (simp only: unat_drop_bit_eq) (simp add: drop_bit_eq_div unat_of_nat32 del: of_nat_add)
  then have "drop_bit 2 (of_nat (n + 3) :: u32) = of_nat ((n + 3) div 4)"
    by (metis of_nat_unat ucast_id)
  ultimately have "((of_nat n :: u32) + 3) AND NOT 3 = push_bit 2 (of_nat ((n + 3) div 4))"
    by (simp only: and_not_3)
  then show ?thesis by (simp only: push_bit_eq_mult align4_def) (simp add: mult.commute)
qed

text \<open>The length the first header claims, when its two upper bytes are zero.\<close>

lemma header_length:
  assumes "4 \<le> length pkt" "pkt ! 2 = 0" "pkt ! 3 = 0"
  shows "unat (u32_of (slice 0 4 pkt)) = unat (pkt ! 0) + 256 * unat (pkt ! 1)"
proof -
  obtain a b c d r where "pkt = a # b # c # d # r"
    using assms(1) by (auto simp: numeral_eq_Suc Suc_le_length_iff)
  then show ?thesis using assms(2,3) by (simp add: slice_def unat_u32_of numeral_eq_Suc)
qed

lemma room_eq:
  assumes "4 \<le> length pkt" "pkt ! 2 = 0" "pkt ! 3 = 0"
  shows "room pkt = of_nat (length pkt) - of_nat (align4 (unat (u32_of (slice 0 4 pkt))))"
proof -
  have "unat (pkt ! 0) + 256 * unat (pkt ! 1) < 256 * 256"
    by (intro radix_bound unat_byte)
  then show ?thesis
    unfolding room_def bytes_or by (simp only: header_length [OF assms] word_align4)
qed

section \<open>Nothing of use is dropped, and the noise is\<close>

lemma room_small:
  assumes "\<not> 16 \<le> room pkt" "4 \<le> length pkt" "length pkt < 2 ^ 32" "pkt ! 2 = 0" "pkt ! 3 = 0"
  shows "length pkt - align4 (unat (u32_of (slice 0 4 pkt))) < 16"
proof -
  let ?a = "align4 (unat (u32_of (slice 0 4 pkt)))"
  show ?thesis
  proof (cases "?a \<le> length pkt")
    case True
    then have "room pkt = of_nat (length pkt - ?a)"
      using room_eq [OF assms(2,4,5)] by (simp add: of_nat_diff)
    moreover have "unat (of_nat (length pkt - ?a) :: u32) = length pkt - ?a"
      using assms(3) by (intro unat_of_nat32) simp
    ultimately show ?thesis
      using assms(1) by (simp add: word_le_nat_alt)
  qed simp
qed

lemma neigh_kind:
  assumes "6 \<le> length pkt" "pkt ! 5 = 0" "pkt ! 4 = 28 \<or> pkt ! 4 = 29"
  shows "u16_of (slice 4 2 pkt) \<in> {RTM_NEWNEIGH, RTM_DELNEIGH}"
proof -
  obtain a b c d e f r where "pkt = a # b # c # d # e # f # r"
    using assms(1) by (auto simp: numeral_eq_Suc Suc_le_length_iff)
  then have "slice 4 2 pkt = [e, f]" "pkt ! 4 = e" "pkt ! 5 = f"
    by (simp_all add: slice_def numeral_eq_Suc)
  with assms(2,3) show ?thesis by (auto simp: u16_of_Cons)
qed

lemma payload_first:
  assumes "slice NLMSG_HDR n pkt = b # r"
  shows "NLMSG_HDR < length pkt \<and> b = pkt ! NLMSG_HDR"
proof -
  obtain r' where d: "drop NLMSG_HDR pkt = b # r'"
    using assms unfolding slice_def by (metis append_Cons append_take_drop_id)
  then have "NLMSG_HDR < length pkt" by (metis drop_all list.distinct(1) not_le)
  with d show ?thesis by (metis hd_drop_conv_nth list.sel(1))
qed

text \<open>C31: the socket filter never costs the program an event: a datagram it does not deliver is one
  from which \<open>collect_events\<close> would have taken nothing, whatever its bytes.\<close>

theorem filter_loses_nothing:
  assumes "length pkt < 2 ^ 32" "\<not> delivers pkt"
  shows "collect_events out pkt = out"
proof -
  let ?len = "unat (u32_of (slice 0 4 pkt))"
  show ?thesis
  proof (cases "length pkt < NLMSG_HDR \<or> ?len < NLMSG_HDR \<or> length pkt < ?len")
    case True
    then show ?thesis by (simp add: collect_events_def messages_stop)
  next
    case False
    then have long: "NLMSG_HDR \<le> length pkt" "NLMSG_HDR \<le> ?len" "?len \<le> length pkt" by auto
    have z: "pkt ! 2 = 0" "pkt ! 3 = 0" "\<not> 16 \<le> room pkt" "pkt ! 5 = 0"
      "pkt ! 4 = 28 \<or> pkt ! 4 = 29" "NLMSG_HDR < length pkt \<Longrightarrow> pkt ! NLMSG_HDR \<noteq> AF_BRIDGE"
      using assms(2) long(1) unfolding delivers_def run_filter_noise by (auto split: if_splits)
    have "length (drop (align4 ?len) pkt) < NLMSG_HDR"
      using room_small [OF z(3) _ assms(1) z(1,2)] long(1) by simp
    then have one: "messages (drop (align4 ?len) pkt) = []" by (intro messages_stop) simp
    have kind: "u16_of (slice 4 2 pkt) \<in> {RTM_NEWNEIGH, RTM_DELNEIGH}"
      using long(1) z by (intro neigh_kind) auto
    have "case slice NLMSG_HDR (?len - NLMSG_HDR) pkt of [] \<Rightarrow> True | b # _ \<Rightarrow> b \<noteq> AF_BRIDGE"
      using payload_first z(6) by (auto split: list.splits)
    with kind show ?thesis
      unfolding collect_events_def messages_unfold [OF long] one
      by (auto simp: collect_message_def)
  qed
qed

definition arp_chatter :: "u8 list" where
  "arp_chatter = put_nlmsghdr 28 RTM_NEWNEIGH 0 9 @ [2, 0, 0, 0, 4, 0, 0, 0, 2, 0, 0, 0]"

lemma nth_put_nlmsghdr:
  "put_nlmsghdr len kind flags seq ! 2 = of_nat (unat len div 2 ^ 16)"
  "put_nlmsghdr len kind flags seq ! 3 = of_nat (unat len div 2 ^ 24)"
  "put_nlmsghdr len kind flags seq ! 4 = of_nat (unat kind)"
  "put_nlmsghdr len kind flags seq ! 5 = of_nat (unat kind div 2 ^ 8)"
  by (simp_all add: put_nlmsghdr_def bytes32_def bytes16_def)

text \<open>C37: and it does what it is there for: a datagram that is a single neighbour message, padded as
  the kernel pads its messages, is delivered exactly when the bridge is the one talking.\<close>

theorem filter_drops_the_noise:
  assumes "unat len = NLMSG_HDR + length payload" "unat len < 65536" "unat len mod 4 = 0" "payload \<noteq> []"
    "kind \<in> {RTM_NEWNEIGH, RTM_DELNEIGH}"
  shows "delivers (put_nlmsghdr len kind flags seq @ payload) \<longleftrightarrow> hd payload = AF_BRIDGE"
proof -
  let ?pkt = "put_nlmsghdr len kind flags seq @ payload"
  have l: "NLMSG_HDR < length ?pkt" "length ?pkt = unat len" using assms(1,4) by auto
  have n: "?pkt ! 2 = 0" "?pkt ! 3 = 0" "?pkt ! 5 = 0" "?pkt ! 4 = 28 \<or> ?pkt ! 4 = 29"
    "?pkt ! NLMSG_HDR = hd payload"
    using assms(2,4,5) by (auto simp: nth_append nth_put_nlmsghdr hd_conv_nth simp del: of_nat_unat)
  have "room ?pkt = of_nat (length ?pkt) - of_nat (align4 (unat len))"
    using room_eq [of ?pkt] l(1) n(1,2) by (simp add: put_nlmsghdr_fields)
  then have "room ?pkt = 0"
    by (simp only: l(2) align4_add_multiple [OF assms(3)] diff_self)
  then have "\<not> 16 \<le> room ?pkt" by simp
  moreover have "17 \<le> unat len" using l by linarith
  ultimately show ?thesis
    using n unfolding delivers_def run_filter_noise l(2) by auto
qed

theorem filter_drops_the_noise_witness: "\<not> delivers arp_chatter"
  using filter_drops_the_noise [of 28 "[2, 0, 0, 0, 4, 0, 0, 0, 2, 0, 0, 0]" RTM_NEWNEIGH 0 9]
  by (simp add: arp_chatter_def)

lemma arp_chatter_dropped: "length arp_chatter = 28 \<and> run_filter arp_chatter noise_filter 0 0 = 0"
  by (simp add: arp_chatter_def run_filter_noise nth_append nth_put_nlmsghdr room_def bytes_or
      put_nlmsghdr_def bytes32_def bytes16_def)

theorem filter_loses_nothing_witness: "collect_events no_events arp_chatter = no_events"
  using filter_loses_nothing [of arp_chatter no_events] arp_chatter_dropped
  by (simp add: delivers_def)

end
