(* ===== verification/Note_Laws.thy ===== *)
theory Note_Laws
  imports Notes Wire
begin

text \<open>
  Laws of the ownership notes: what a reader finds after each write, that the copy in memory
  always agrees with the file, that a write which fails loses nothing, and where the trimming of
  an unfinished line does lose an address.
\<close>

section \<open>Files\<close>

lemma file_at_put_new [simp]:
  "file_at (put_new d p t) q =
     (if q = p then Some \<lparr>fl_text = t, fl_ino = dk_next_ino d, fl_mtime = dk_clock d\<rparr> else file_at d q)"
  by (simp add: file_at_def put_new_def update_conv')

lemma file_at_put_in_place [simp]:
  "file_at (put_in_place d p t) q =
     (if q = p then Some \<lparr>fl_text = t, fl_ino = (case file_at d p of None \<Rightarrow> dk_next_ino d | Some f \<Rightarrow> fl_ino f),
                          fl_mtime = dk_clock d\<rparr>
      else file_at d q)"
  by (simp add: put_in_place_def put_new_def file_at_def update_conv' split: option.split)

lemma file_at_unlink [simp]: "file_at (unlink d p) q = (if q = p then None else file_at d q)"
  by (simp add: file_at_def unlink_def delete_conv')

section \<open>Texts\<close>

definition tidy :: "string \<Rightarrow> bool" where
  "tidy t \<longleftrightarrow> t = [] \<or> last t = NL"

lemma split_on_append: "split_on c (s @ c # t) = split_on c s @ split_on c t"
proof (induction s)
  case (Cons x s)
  then show ?case by (auto simp: append_eq_Cons_conv split: list.splits)
qed simp

lemma lines_append_newline: "lines (s @ [NL] @ t) = map strip_cr (split_on NL s) @ lines t"
  by (simp add: lines_def Let_def split_on_append butlast_append)

lemma lines_append: "tidy s \<Longrightarrow> lines (s @ t) = lines s @ lines t"
proof -
  assume "tidy s"
  then consider "s = []" | s' where "s = s' @ [NL]" unfolding tidy_def by (metis append_butlast_last_id)
  then show ?thesis
  proof cases
    case 2
    then have "lines s = map strip_cr (split_on NL s')"
      using lines_append_newline [of s' "[]"] by simp
    with 2 show ?thesis using lines_append_newline [of s' t] by simp
  qed simp
qed

lemma parse_owned_append: "tidy s \<Longrightarrow> parse_owned (s @ t) = parse_owned s \<union> parse_owned t"
  by (simp add: parse_owned_def lines_append List.map_filter_def)

lemma format_mac_lines: "NL \<notin> set (format_mac m)" "CHR 0x0D \<notin> set (format_mac m)"
  using format_mac_plain [of _ m] by (auto simp: is_space_def)

lemma lines_of_texts:
  assumes "set ls \<subseteq> range format_mac"
  shows "lines (concat (map (\<lambda>l. l @ [NL]) ls) @ t) = ls @ lines t"
proof -
  have plain: "NL \<notin> set l \<and> strip_cr l = l" if "l \<in> set ls" for l
    using assms that format_mac_lines by (auto intro: strip_cr_id)
  then have "lines (concat (map (\<lambda>l. l @ [NL]) ls) @ t) = map strip_cr ls @ lines t"
    by (intro lines_concat) simp
  also have "map strip_cr ls = ls" using plain by (intro map_idI) simp
  finally show ?thesis .
qed

lemma lines_of_macs: "lines (concat (map line_of ms) @ t) = map format_mac ms @ lines t"
proof -
  have "concat (map line_of ms) = concat (map (\<lambda>l. l @ [NL]) (map format_mac ms))"
    by (simp add: comp_def line_of_def [abs_def])
  then show ?thesis by (simp only:) (rule lines_of_texts, auto)
qed

lemma parse_owned_lines [simp]: "parse_owned (concat (map line_of ms)) = set ms"
proof -
  have "lines (concat (map line_of ms)) = map format_mac ms"
    using lines_of_macs [of ms "[]"] by simp
  moreover have "List.map_filter (\<lambda>l. parse_mac (trim l)) (map format_mac ms) = ms"
    by (induction ms) (simp_all add: parse_mac_format_mac List.map_filter_simps)
  ultimately show ?thesis by (simp add: parse_owned_def)
qed

lemma parse_owned_Nil [simp]: "parse_owned [] = {}"
  by (simp add: parse_owned_def List.map_filter_simps)

lemma tidy_lines: "tidy s \<Longrightarrow> tidy (s @ concat (map line_of ms))"
  by (cases ms rule: rev_cases) (auto simp: tidy_def line_of_def)

lemma finish_tidy [simp]: "tidy s \<Longrightarrow> finish_the_last_line s = s"
  by (simp add: finish_the_last_line_def tidy_def)

lemma tidy_finish: "tidy (finish_the_last_line s)"
proof -
  have "dropWhile (\<lambda>c. c \<noteq> NL) xs = [] \<or> hd (dropWhile (\<lambda>c. c \<noteq> NL) xs) = NL" for xs
    using hd_dropWhile [of "\<lambda>c. c \<noteq> NL" xs] by auto
  from this [of "rev s"] show ?thesis
    by (auto simp: finish_the_last_line_def tidy_def last_rev)
qed

lemma finite_parse_owned [simp]: "finite (parse_owned t)"
  by (simp add: parse_owned_def)

text \<open>The text \<open>write_owned\<close> puts in place says exactly its set.\<close>

lemma owned_text_lines: "owned_text A = concat (map (\<lambda>l. l @ [NL]) (sort (map format_mac (sorted_list_of_set A))))"
  using join_newline [of "sort (map format_mac (sorted_list_of_set A))"] by (simp add: owned_text_def Let_def)

lemma parse_owned_text: "finite A \<Longrightarrow> parse_owned (owned_text A) = A"
proof -
  assume "finite A"
  let ?ls = "sort (map format_mac (sorted_list_of_set A))"
  have set: "set ?ls = format_mac ` A" using \<open>finite A\<close> by simp
  then have "lines (owned_text A) = ?ls"
    unfolding owned_text_lines using lines_of_texts [of ?ls "[]"] by auto
  then have "parse_owned (owned_text A) = {m. \<exists>l \<in> format_mac ` A. parse_mac (trim l) = Some m}"
    unfolding parse_owned_def set_map_filter_eq using set by auto
  then show ?thesis by (auto simp: parse_mac_format_mac)
qed

lemma tidy_owned_text: "tidy (owned_text A)"
  unfolding owned_text_lines by (cases "sort (map format_mac (sorted_list_of_set A))" rule: rev_cases) (auto simp: tidy_def)

section \<open>What a note names\<close>

definition text_at :: "store \<Rightarrow> name \<Rightarrow> string" where
  "text_at s dev = (case file_at (st_disk s) (OwnedP dev) of None \<Rightarrow> [] | Some f \<Rightarrow> fl_text f)"

definition note_of :: "store \<Rightarrow> name \<Rightarrow> mac set" where
  "note_of s dev = parse_owned (text_at s dev)"

text \<open>The copy in memory, where the stat lets it be believed, says what the file says.\<close>

definition coherent :: "store \<Rightarrow> bool" where
  "coherent s \<longleftrightarrow>
     (\<forall>dev n m. st_notes s dev = Some n \<longrightarrow> stat (st_disk s) (OwnedP dev) = Some m \<longrightarrow> is_still n m
        \<longrightarrow> n_macs n = note_of s dev)"

lemma finite_note_of [simp]: "finite (note_of s dev)"
  by (simp add: note_of_def)

lemma stat_eq: "stat d p = (case file_at d p of None \<Rightarrow> None | Some f \<Rightarrow> Some (fl_ino f, length (fl_text f), fl_mtime f))"
  by (simp add: stat_def meta_of_def split: option.splits)

lemma coherentD:
  "coherent s \<Longrightarrow> st_notes s dev = Some n \<Longrightarrow> stat (st_disk s) (OwnedP dev) = Some m \<Longrightarrow> is_still n m
     \<Longrightarrow> n_macs n = note_of s dev"
  unfolding coherent_def by blast

lemma note_of_cong: "st_disk s' = st_disk s \<Longrightarrow> note_of s' dev = note_of s dev"
  by (simp add: note_of_def text_at_def)

text \<open>Forgetting copies and setting marks keeps coherence; so does a copy of what was just read or written.\<close>

lemma coherent_sub:
  assumes "coherent s" "st_disk s' = st_disk s"
    "\<And>dev n. st_notes s' dev = Some n \<Longrightarrow> st_notes s dev = Some n \<or> n_macs n = note_of s dev"
  shows "coherent s'"
  using assms unfolding coherent_def by (metis note_of_cong)

lemma coherent_files:
  assumes "coherent s" "\<And>q. q \<noteq> OwnedP dev \<Longrightarrow> file_at (st_disk s') q = file_at (st_disk s) q"
    "\<And>d. d \<noteq> dev \<Longrightarrow> st_notes s' d = st_notes s d"
    "\<And>n m. st_notes s' dev = Some n \<Longrightarrow> stat (st_disk s') (OwnedP dev) = Some m \<Longrightarrow> is_still n m
       \<Longrightarrow> n_macs n = note_of s' dev"
  shows "coherent s'"
  unfolding coherent_def
proof (intro allI impI)
  fix d n m
  assume n: "st_notes s' d = Some n" and m: "stat (st_disk s') (OwnedP d) = Some m" and "is_still n m"
  show "n_macs n = note_of s' d"
  proof (cases "d = dev")
    case False
    then have "file_at (st_disk s') (OwnedP d) = file_at (st_disk s) (OwnedP d)" by (intro assms(2)) simp
    with False n m \<open>is_still n m\<close> assms(1,3) show ?thesis
      unfolding coherent_def note_of_def text_at_def stat_def by metis
  qed (use assms(4) n m \<open>is_still n m\<close> in blast)
qed

section \<open>Reading\<close>

lemma read_owned_spec:
  assumes "read_owned fs s dev = (macs, s')"
  shows "st_disk s' = st_disk s" "st_notes s' = st_notes s" "st_indices s' = st_indices s"
    "note_is_readable s' dev \<Longrightarrow> macs = note_of s dev"
    "\<And>d. d \<noteq> dev \<Longrightarrow> note_is_readable s' d = note_is_readable s d"
    "\<not> note_is_readable s' dev \<Longrightarrow> macs = {}"
  using assms by (auto simp: read_owned_def note_of_def text_at_def note_is_readable_def Let_def
      split: option.splits if_splits)

lemma load_owned_spec:
  assumes "coherent s" "load_owned fs s dev = (macs, s')"
  shows "st_disk s' = st_disk s" "coherent s'"
    "note_is_readable s' dev \<Longrightarrow> macs = note_of s dev"
    "macs = {} \<or> macs = note_of s dev"
    "\<And>n. note_is_readable s' dev \<Longrightarrow> st_notes s' dev = Some n \<Longrightarrow> n_len n = length (text_at s dev)"
    "note_is_readable s' dev \<Longrightarrow> st_notes s' dev = None \<Longrightarrow> file_at (st_disk s) (OwnedP dev) = None"
    "\<And>d. d \<noteq> dev \<Longrightarrow> st_notes s' d = st_notes s d"
proof -
  let ?m = "stat (st_disk s) (OwnedP dev)"
  obtain rm rs where r: "read_owned fs s dev = (rm, rs)" by (cases "read_owned fs s dev")
  note rd = read_owned_spec [OF r]
  have "st_disk s' = st_disk s \<and> coherent s' \<and> (note_is_readable s' dev \<longrightarrow> macs = note_of s dev)
      \<and> (macs = {} \<or> macs = note_of s dev)
      \<and> (\<forall>n. note_is_readable s' dev \<longrightarrow> st_notes s' dev = Some n \<longrightarrow> n_len n = length (text_at s dev))
      \<and> (note_is_readable s' dev \<longrightarrow> st_notes s' dev = None \<longrightarrow> file_at (st_disk s) (OwnedP dev) = None)
      \<and> (\<forall>d. d \<noteq> dev \<longrightarrow> st_notes s' d = st_notes s d)"
  proof (cases "\<exists>m n. ?m = Some m \<and> st_notes s dev = Some n \<and> is_still n m")
    case True
    then obtain m n where mn: "?m = Some m" "st_notes s dev = Some n" "is_still n m" by blast
    then have "macs = n_macs n" "s' = s"
      using assms(2) by (auto simp: load_owned_def with_owned_between_def Let_def)
    moreover have "n_len n = length (text_at s dev)"
      using mn by (auto simp: is_still_def stat_eq text_at_def split: option.splits)
    ultimately show ?thesis using assms(1) mn coherentD [OF assms(1) mn(2,1,3)] by auto
  next
    case False
    then have unusable: "(case ?m of None \<Rightarrow> False
        | Some m \<Rightarrow> (case st_notes s dev of None \<Rightarrow> False | Some n \<Rightarrow> is_still n m)) = False"
      by (auto split: option.splits)
    show ?thesis
    proof (cases "note_is_readable rs dev")
      case False
      then have "macs = {}" "s' = rs\<lparr>st_notes := (st_notes rs)(dev := None), st_indices := (st_indices rs)(dev := None)\<rparr>"
        using assms(2) unusable r by (auto simp: load_owned_def with_owned_between_def Let_def)
      moreover have "coherent s'"
        by (rule coherent_sub [OF assms(1)]) (use calculation rd in \<open>auto split: if_splits\<close>)
      ultimately show ?thesis
        using False rd by (auto simp: note_is_readable_def split: if_splits)
    next
      case readable: True
      show ?thesis
      proof (cases ?m)
        case None
        then have "macs = rm" "s' = rs\<lparr>st_notes := (st_notes rs)(dev := None), st_indices := (st_indices rs)(dev := None)\<rparr>"
          using assms(2) unusable r readable by (auto simp: load_owned_def with_owned_between_def Let_def)
        moreover have "coherent s'"
          by (rule coherent_sub [OF assms(1)]) (use calculation rd in \<open>auto split: if_splits\<close>)
        moreover have "file_at (st_disk s) (OwnedP dev) = None" using None by (simp add: stat_def)
        ultimately show ?thesis
          using rd readable by (auto simp: note_is_readable_def split: if_splits)
      next
        case (Some m)
        then have "macs = rm" "s' = remember rs dev rm (Some m)"
          using assms(2) unusable r readable by (auto simp: load_owned_def with_owned_between_def Let_def)
        moreover obtain f where "file_at (st_disk s) (OwnedP dev) = Some f" "m = meta_of f"
          using Some by (auto simp: stat_def)
        moreover have "rm = note_of s dev" using rd readable by blast
        moreover have "coherent s'"
          by (rule coherent_sub [OF assms(1)])
            (use calculation rd in \<open>auto simp: remember_def meta_of_def split: if_splits\<close>)
        ultimately show ?thesis
          using rd readable
          by (auto simp: remember_def note_is_readable_def meta_of_def text_at_def split: if_splits)
      qed
    qed
  qed
  then show "st_disk s' = st_disk s" "coherent s'"
    "note_is_readable s' dev \<Longrightarrow> macs = note_of s dev"
    "macs = {} \<or> macs = note_of s dev"
    "\<And>n. note_is_readable s' dev \<Longrightarrow> st_notes s' dev = Some n \<Longrightarrow> n_len n = length (text_at s dev)"
    "note_is_readable s' dev \<Longrightarrow> st_notes s' dev = None \<Longrightarrow> file_at (st_disk s) (OwnedP dev) = None"
    "\<And>d. d \<noteq> dev \<Longrightarrow> st_notes s' d = st_notes s d"
    by blast+
qed

section \<open>A line cut short names nothing\<close>

lemma length_split_on: "length s + 1 = sum_list (map length (split_on c s)) + length (split_on c s)"
  by (induction s) (auto split: list.splits)

lemma parse_byte_length: "parse_byte p = Some b \<Longrightarrow> length p = 2"
  by (auto simp: parse_byte_def split: list.splits)

lemma parse_parts_length:
  "parse_parts out ps = Some m \<Longrightarrow> length out + length ps = 6 \<and> (\<forall>p \<in> set ps. length p = 2)"
  by (induction out ps rule: parse_parts.induct)
    (auto simp: parse_byte_length dest: mac_of_bytes_SomeD split: if_splits option.splits)

lemma sum_list_twos: "\<forall>p \<in> set ps. length p = 2 \<Longrightarrow> sum_list (map length ps) = 2 * length ps"
  by (induction ps) auto

lemma parse_mac_length:
  assumes "parse_mac t = Some m"
  shows "length t = 17"
proof -
  let ?ps = "split_on (CHR '':'') t"
  have "length ?ps = 6" and two: "\<forall>p \<in> set ?ps. length p = 2"
    using parse_parts_length assms unfolding parse_mac_def by fastforce+
  moreover have "sum_list (map length ?ps) = 2 * length ?ps"
    using two by (rule sum_list_twos)
  ultimately show ?thesis using length_split_on [of t "CHR '':''"] by simp
qed

lemma length_format_mac [simp]: "length (format_mac m) = 17"
  by (rule parse_mac_length [OF parse_mac_format_mac])

lemma parse_owned_no_newline:
  assumes "NL \<notin> set t"
  shows "parse_owned t = set_option (parse_mac (trim t))"
proof -
  have "lines t = (if t = [] then [] else [t])"
    using assms by (simp add: lines_def split_on_no_sep)
  then show ?thesis
    by (cases "parse_mac (trim t)")
      (auto simp: parse_owned_def List.map_filter_simps trim_def parse_mac_def parse_byte_def)
qed

lemma parse_owned_take_line: "parse_owned (take k (format_mac m)) \<subseteq> {m}"
proof -
  have plain: "c \<in> set (take k (format_mac m)) \<Longrightarrow> \<not> is_space c" for c
    using format_mac_plain by (meson in_set_takeD)
  have "NL \<notin> set (take k (format_mac m))"
    using format_mac_lines(1) by (meson in_set_takeD)
  moreover have "trim (take k (format_mac m)) = take k (format_mac m)"
    by (rule trim_no_space) (rule plain)
  moreover have "x = m" if "parse_mac (take k (format_mac m)) = Some x" for x
  proof -
    have "take k (format_mac m) = format_mac m" using parse_mac_length [OF that] by (simp add: min_def split: if_splits)
    with that show ?thesis by (simp add: parse_mac_format_mac)
  qed
  ultimately show ?thesis
    by (cases "parse_mac (take k (format_mac m))") (auto simp: parse_owned_no_newline)
qed

lemma parse_owned_take_lines: "parse_owned (take k (concat (map line_of ms))) \<subseteq> set ms"
proof (induction ms arbitrary: k)
  case (Cons m ms)
  show ?case
  proof (cases "k \<le> 17")
    case True
    then have "take k (concat (map line_of (m # ms))) = take k (format_mac m)"
      by (simp add: line_of_def)
    then show ?thesis using parse_owned_take_line [of k m] by auto
  next
    case False
    then have "take k (concat (map line_of (m # ms))) = line_of m @ take (k - 18) (concat (map line_of ms))"
      by (simp add: line_of_def Suc_diff_Suc take_Cons' numeral_eq_Suc)
    moreover have "tidy (line_of m)" "parse_owned (line_of m) = {m}"
      using parse_owned_lines [of "[m]"] by (simp_all add: tidy_def line_of_def)
    ultimately show ?thesis using Cons.IH [of "k - 18"] by (auto simp: parse_owned_append)
  qed
qed simp

section \<open>Writing\<close>

text \<open>An operation on one device's note leaves every other file alone.\<close>

definition touches_only :: "name \<Rightarrow> store \<Rightarrow> store \<Rightarrow> bool" where
  "touches_only dev s s' \<longleftrightarrow> (\<forall>q. q \<noteq> OwnedP dev \<longrightarrow> file_at (st_disk s') q = file_at (st_disk s) q)"

lemma touches_only_note: "touches_only dev s s' \<Longrightarrow> d \<noteq> dev \<Longrightarrow> note_of s' d = note_of s d"
  by (simp add: touches_only_def note_of_def text_at_def)

lemma touches_only_disk: "st_disk s' = st_disk s \<Longrightarrow> touches_only dev s s'"
  by (simp add: touches_only_def)

lemma touches_only_trans: "touches_only dev s s' \<Longrightarrow> touches_only dev s' s'' \<Longrightarrow> touches_only dev s s''"
  by (simp add: touches_only_def)

text \<open>Putting a text in place and remembering what it says.\<close>

lemma st_disk_remember [simp]: "st_disk (remember s dev macs m) = st_disk s"
  by (auto simp: remember_def drop_cached_def split: option.splits prod.splits)

lemma st_disk_drop_cached [simp]: "st_disk (drop_cached s dev) = st_disk s"
  by (simp add: drop_cached_def)

lemma remember_macs: "st_notes (remember s dev macs None) dev = Some n \<Longrightarrow> n_macs n = macs"
  by (auto simp: remember_def drop_cached_def split: option.splits prod.splits)

lemma remember_other: "d \<noteq> dev \<Longrightarrow> st_notes (remember s dev macs m) d = st_notes s d"
  by (auto simp: remember_def drop_cached_def split: option.splits prod.splits)

lemma coherent_put:
  assumes "coherent s" "\<And>q. q \<noteq> OwnedP dev \<Longrightarrow> file_at d q = file_at (st_disk s) q"
    "parse_owned (text_at (s\<lparr>st_disk := d\<rparr>) dev) = macs"
  shows "coherent (remember (s\<lparr>st_disk := d\<rparr>) dev macs None)" (is "coherent ?r")
proof (rule coherent_files [OF assms(1)])
  have "note_of ?r dev = macs" using assms(3) by (simp add: note_of_def text_at_def)
  then show "\<And>n m. st_notes ?r dev = Some n \<Longrightarrow> n_macs n = note_of ?r dev"
    using remember_macs by metis
qed (simp_all add: assms(2) remember_other)

lemma coherent_drop:
  assumes "coherent s" "\<And>q. q \<noteq> OwnedP dev \<Longrightarrow> file_at d q = file_at (st_disk s) q"
  shows "coherent (drop_cached (s\<lparr>st_disk := d\<rparr>) dev)"
  by (rule coherent_files [OF assms(1), of dev]) (auto simp: drop_cached_def assms(2))

lemma drop_remember: "drop_cached (remember s dev macs m) dev = drop_cached s dev"
  by (cases "case m of Some x \<Rightarrow> Some x | None \<Rightarrow> stat (st_disk s) (OwnedP dev)")
    (simp_all add: remember_def drop_cached_def split: prod.split)

text \<open>
  A load that found the note readable finds it readable again: either the copy serves, or the
  file can be read.
\<close>

definition settled :: "fs \<Rightarrow> store \<Rightarrow> name \<Rightarrow> bool" where
  "settled fs s dev \<longleftrightarrow> note_is_readable (snd (load_owned fs s dev)) dev"

definition legible :: "fs \<Rightarrow> store \<Rightarrow> name \<Rightarrow> bool" where
  "legible fs s dev \<longleftrightarrow> fs_read fs (OwnedP dev) \<or> file_at (st_disk s) (OwnedP dev) = None"

lemma read_owned_legible: "note_is_readable (snd (read_owned fs s dev)) dev \<longleftrightarrow> legible fs s dev"
  by (auto simp: read_owned_def legible_def note_is_readable_def Let_def split: option.splits)

lemma note_is_readable_remember [simp]: "note_is_readable (remember s d m x) dev = note_is_readable s dev"
  by (auto simp: remember_def drop_cached_def note_is_readable_def split: option.splits prod.splits)

lemma legible_load:
  assumes "legible fs s dev" "note_is_readable s dev"
  shows "settled fs s dev"
proof -
  obtain rm rs where r: "read_owned fs s dev = (rm, rs)" by (cases "read_owned fs s dev")
  then have "note_is_readable rs dev" using read_owned_legible [of fs s dev] assms(1) by simp
  moreover have "note_is_readable (rs\<lparr>st_notes := f, st_indices := g\<rparr>) dev = note_is_readable rs dev" for f g
    by (simp add: note_is_readable_def)
  ultimately show ?thesis
    using assms(2) r by (auto simp: settled_def load_owned_def with_owned_between_def Let_def split: option.splits)
qed

lemma load_owned_cases:
  assumes "load_owned fs s dev = (macs, s')"
  obtains (cached) "s' = s"
  | (reading) "note_is_readable s' dev \<longleftrightarrow> legible fs s dev" "st_disk s' = st_disk s"
proof (cases "\<exists>m n. stat (st_disk s) (OwnedP dev) = Some m \<and> st_notes s dev = Some n \<and> is_still n m")
  case True
  then have "s' = s" using assms by (auto simp: load_owned_def with_owned_between_def Let_def)
  then show ?thesis by (rule cached)
next
  case False
  obtain rm rs where r: "read_owned fs s dev = (rm, rs)" by (cases "read_owned fs s dev")
  have "note_is_readable s' dev = note_is_readable rs dev \<and> st_disk s' = st_disk rs"
    using assms False r
    by (auto simp: load_owned_def with_owned_between_def Let_def note_is_readable_def remember_def drop_cached_def
        split: option.splits if_splits prod.splits)
  then show ?thesis using reading read_owned_legible [of fs s dev] read_owned_spec(1) [OF r] r by simp
qed

lemma load_owned_settled:
  assumes "load_owned fs s dev = (macs, s')" "note_is_readable s' dev"
  shows "settled fs s' dev"
  using assms(1)
proof (cases rule: load_owned_cases)
  case cached
  then show ?thesis using assms by (simp add: settled_def)
next
  case reading
  then have "legible fs s' dev" using assms(2) by (simp add: legible_def)
  then show ?thesis using assms(2) by (rule legible_load)
qed

lemma read_owned_settled:
  assumes "read_owned fs s dev = (macs, s')" "note_is_readable s' dev"
  shows "settled fs s' dev"
proof (rule legible_load)
  show "legible fs s' dev"
    using assms read_owned_legible [of fs s dev] read_owned_spec(1) [OF assms(1)] by (simp add: legible_def)
qed (rule assms(2))

text \<open>Putting the whole set: all or nothing.\<close>

lemma put_owned_spec:
  assumes "coherent s" "finite macs" "put_file fs s (OwnedP dev) (owned_text macs) = (ok, s1)"
    "s' = (if ok then remember s1 dev macs None else drop_cached s1 dev)"
  shows "coherent s' \<and> touches_only dev s s' \<and> (ok \<longrightarrow> text_at s' dev = owned_text macs \<and> note_of s' dev = macs)
     \<and> (\<not> ok \<longrightarrow> st_disk s' = st_disk s)"
proof (cases ok)
  case True
  let ?d = "put_new (st_disk s) (OwnedP dev) (owned_text macs)"
  have s1: "s1 = s\<lparr>st_disk := ?d\<rparr>" using assms(3) True by (auto simp: put_file_def split: if_splits)
  have same: "text_at (s\<lparr>st_disk := ?d\<rparr>) dev = owned_text macs" by (simp add: text_at_def)
  have "coherent s'"
    unfolding assms(4) s1 using True assms(1,2)
    by (simp only: if_True) (rule coherent_put, auto simp: same parse_owned_text)
  moreover have "text_at s' dev = owned_text macs"
    using True assms(4) s1 by (simp add: text_at_def)
  ultimately show ?thesis
    using True assms(2,4) s1 by (auto simp: touches_only_def note_of_def parse_owned_text)
next
  case False
  then have "s1 = s" using assms(3) by (auto simp: put_file_def split: if_splits)
  moreover have "coherent (drop_cached s dev)"
    using coherent_drop [OF assms(1), of dev "st_disk s"] by simp
  ultimately show ?thesis using False assms(4) by (simp add: touches_only_def)
qed

lemma write_owned_spec:
  assumes "coherent s" "finite macs" "write_owned fs s dev macs = (ok, s')"
  shows "coherent s'" "touches_only dev s s'"
    "ok \<Longrightarrow> settled fs s dev \<Longrightarrow> note_of s' dev = macs" "\<not> ok \<Longrightarrow> st_disk s' = st_disk s"
    "\<not> note_is_readable s dev \<Longrightarrow> \<not> ok" "tidy (text_at s dev) \<Longrightarrow> tidy (text_at s' dev)"
proof -
  obtain cur s1 where ld: "load_owned fs s dev = (cur, s1)" by (cases "load_owned fs s dev")
  note l = load_owned_spec [OF assms(1) ld]
  have same: "text_at t dev = text_at s dev" if "st_disk t = st_disk s" for t
    using that by (simp add: text_at_def)
  have "coherent s' \<and> touches_only dev s s' \<and> (ok \<longrightarrow> settled fs s dev \<longrightarrow> note_of s' dev = macs)
     \<and> (\<not> ok \<longrightarrow> st_disk s' = st_disk s) \<and> (\<not> note_is_readable s dev \<longrightarrow> \<not> ok)
     \<and> (tidy (text_at s dev) \<longrightarrow> tidy (text_at s' dev))"
  proof (cases "note_is_readable s dev")
    case False
    then show ?thesis using assms(1,3) by (auto simp: write_owned_def touches_only_def)
  next
    case readable: True
    show ?thesis
    proof (cases "cur = macs")
      case True
      then have s': "s' = s1" "ok" using assms(3) readable ld by (simp_all add: write_owned_def)
      moreover have "settled fs s dev \<longrightarrow> note_of s1 dev = macs"
        using True l(1,3) ld note_of_cong [OF l(1)] by (auto simp: settled_def)
      ultimately show ?thesis using l(1,2) readable same [of s1] s' by (simp add: touches_only_disk)
    next
      case False
      obtain s2 where p: "put_file fs s1 (OwnedP dev) (owned_text macs) = (ok, s2)"
        and s': "s' = (if ok then remember s2 dev macs None else drop_cached s2 dev)"
        using assms(3) readable ld False
        by (cases "put_file fs s1 (OwnedP dev) (owned_text macs)") (auto simp: write_owned_def split: if_splits)
      from put_owned_spec [OF l(2) assms(2) p s'] have "coherent s'" "touches_only dev s1 s'"
        "ok \<longrightarrow> text_at s' dev = owned_text macs \<and> note_of s' dev = macs" "\<not> ok \<longrightarrow> st_disk s' = st_disk s1"
        by blast+
      then show ?thesis
        using readable l(1) same [of s'] tidy_owned_text [of macs] by (auto simp: touches_only_def)
    qed
  qed
  then show "coherent s'" "touches_only dev s s'"
    "ok \<Longrightarrow> settled fs s dev \<Longrightarrow> note_of s' dev = macs" "\<not> ok \<Longrightarrow> st_disk s' = st_disk s"
    "\<not> note_is_readable s dev \<Longrightarrow> \<not> ok" "tidy (text_at s dev) \<Longrightarrow> tidy (text_at s' dev)" by blast+
qed

section \<open>Appending\<close>

definition added_text :: "mac list \<Rightarrow> string" where
  "added_text ms = concat (map line_of ms)"

lemma append_text_frame:
  "append_text fs d dev t = (ok, d') \<Longrightarrow> q \<noteq> OwnedP dev \<Longrightarrow> file_at d' q = file_at d q"
  by (auto simp: append_text_def Let_def split: append_outcome.splits)

text \<open>The text of the file after an append, for each way it can go.\<close>

lemma append_text_outcome:
  assumes "append_text fs (st_disk s) dev t = (ok, d)"
  shows "ok \<longleftrightarrow> fs_append fs (OwnedP dev) = AppendOk"
    "text_at (s\<lparr>st_disk := d\<rparr>) dev =
       (case fs_append fs (OwnedP dev) of
          AppendOk \<Rightarrow> finish_the_last_line (text_at s dev) @ t
        | WriteStops k \<Rightarrow> finish_the_last_line (text_at s dev) @ take k t
        | _ \<Rightarrow> text_at s dev)"
  using assms by (auto simp: append_text_def text_at_def Let_def split: append_outcome.splits option.splits)

lemma append_text_text:
  assumes "append_text fs (st_disk s) dev t = (ok, d)"
  shows "ok \<Longrightarrow> text_at (s\<lparr>st_disk := d\<rparr>) dev = finish_the_last_line (text_at s dev) @ t"
    "\<not> ok \<Longrightarrow> text_at (s\<lparr>st_disk := d\<rparr>) dev = text_at s dev
        \<or> (\<exists>k. text_at (s\<lparr>st_disk := d\<rparr>) dev = finish_the_last_line (text_at s dev) @ take k t)"
  using append_text_outcome [OF assms] by (cases "fs_append fs (OwnedP dev)"; simp; blast)+

lemma append_text_file:
  "append_text fs (st_disk s) dev t = (ok, d) \<Longrightarrow> ok \<Longrightarrow> \<exists>f. file_at d (OwnedP dev) = Some f"
  by (auto simp: append_text_def Let_def split: append_outcome.splits)

lemma finish_same_length: "length (finish_the_last_line t) = length t \<Longrightarrow> finish_the_last_line t = t"
proof -
  have "length (dropWhile P xs) = length xs \<Longrightarrow> dropWhile P xs = xs" for P and xs :: string
    using length_dropWhile_le [of P "tl xs"] by (cases xs) auto
  then show "length (finish_the_last_line t) = length t \<Longrightarrow> finish_the_last_line t = t"
    by (auto simp: finish_the_last_line_def split: if_splits) (metis length_rev rev_rev_ident)
qed

lemma append_owned_locked_spec:
  assumes "coherent s" "append_owned_locked fs s dev added = (r, s')"
  shows "coherent s'" "touches_only dev s s'"
    "r = Some fresh \<Longrightarrow> fresh = filter (\<lambda>m. m \<notin> note_of s dev) added"
    "r = Some fresh \<Longrightarrow> fresh \<noteq> [] \<Longrightarrow> text_at s' dev = finish_the_last_line (text_at s dev) @ added_text fresh"
    "r = Some [] \<Longrightarrow> text_at s' dev = text_at s dev"
    "r = None \<Longrightarrow> text_at s' dev = text_at s dev
       \<or> (\<exists>k. text_at s' dev = finish_the_last_line (text_at s dev)
                @ take k (added_text (filter (\<lambda>m. m \<notin> note_of s dev) added)))"
proof -
  obtain macs s1 where ld: "load_owned fs s dev = (macs, s1)" by (cases "load_owned fs s dev")
  note l = load_owned_spec [OF assms(1) ld]
  let ?new = "filter (\<lambda>m. m \<notin> note_of s dev) added"
  have same: "text_at s1 dev = text_at s dev" using l(1) by (simp add: text_at_def)
  have "coherent s' \<and> touches_only dev s s' \<and> (r = Some fresh \<longrightarrow> fresh = ?new)
     \<and> (r = Some fresh \<longrightarrow> fresh \<noteq> [] \<longrightarrow> text_at s' dev = finish_the_last_line (text_at s dev) @ added_text fresh)
     \<and> (r = Some [] \<longrightarrow> text_at s' dev = text_at s dev)
     \<and> (r = None \<longrightarrow> text_at s' dev = text_at s dev
          \<or> (\<exists>k. text_at s' dev = finish_the_last_line (text_at s dev) @ take k (added_text ?new)))"
  proof (cases "note_is_readable s1 dev")
    case False
    then have "r = None" "s' = s1" using assms(2) ld by (simp_all add: append_owned_locked_def)
    then show ?thesis using l(1,2) same by (simp add: touches_only_disk)
  next
    case readable: True
    then have macs: "macs = note_of s dev" by (rule l(3))
    show ?thesis
    proof (cases "?new = []")
      case True
      then have "r = Some []" "s' = s1"
        using assms(2) ld readable macs by (auto simp: append_owned_locked_def Let_def)
      then show ?thesis using l(1,2) same True by (auto simp: touches_only_disk)
    next
      case new: False
      obtain ok d where ap: "append_text fs (st_disk s1) dev (added_text ?new) = (ok, d)"
        by (cases "append_text fs (st_disk s1) dev (added_text ?new)")
      let ?t = "s1\<lparr>st_disk := d\<rparr>"
      note frame = append_text_frame [OF ap]
      have touch: "touches_only dev s ?t" using frame l(1) by (simp add: touches_only_def)
      show ?thesis
      proof (cases ok)
        case False
        then have "r = None" "s' = drop_cached ?t dev"
          using assms(2) ld readable macs new ap
          by (auto simp: append_owned_locked_def Let_def added_text_def)
        moreover have "coherent (drop_cached ?t dev)" using l(2) frame by (rule coherent_drop)
        moreover have "text_at (drop_cached ?t dev) dev = text_at ?t dev" by (simp add: text_at_def)
        ultimately show ?thesis
          using append_text_text(2) [OF ap False] same touch by (simp add: touches_only_def)
      next
        case True
        let ?r = "remember ?t dev (macs \<union> set ?new) None"
        let ?ok = "case (map_option (\<lambda>w. w + length (added_text ?new)) (map_option n_len (st_notes s1 dev)),
                         st_notes ?r dev) of
                     (Some want, Some now) \<Rightarrow> n_len now = want | _ \<Rightarrow> True"
        have r: "r = Some ?new" and s': "s' = (if ?ok then ?r else drop_cached ?r dev)"
          using assms(2) ld readable macs new ap True
          by (auto simp: append_owned_locked_def Let_def added_text_def)
        have txt1: "text_at ?t dev = finish_the_last_line (text_at s dev) @ added_text ?new"
          using append_text_text(1) [OF ap True] same by simp
        then have txt2: "text_at s' dev = finish_the_last_line (text_at s dev) @ added_text ?new"
          using s' by (simp add: text_at_def)
        have touch': "touches_only dev s s'" using touch s' by (simp add: touches_only_def)
        have "coherent s'"
        proof (cases ?ok)
          case False
          have "coherent (drop_cached ?t dev)" using l(2) frame by (rule coherent_drop)
          then show ?thesis using False s' by (simp add: drop_remember)
        next
          case agrees: True
          have "finish_the_last_line (text_at s dev) = text_at s dev"
          proof (cases "st_notes s1 dev")
            case None
            then have "text_at s dev = []" using l(6) readable by (simp add: text_at_def)
            then show ?thesis by (simp add: finish_the_last_line_def)
          next
            case (Some n)
            obtain f where f: "file_at d (OwnedP dev) = Some f" "fl_text f = text_at ?t dev"
              using append_text_file [OF ap True] by (auto simp: text_at_def)
            then have "\<exists>now. st_notes ?r dev = Some now \<and> n_len now = length (text_at ?t dev)"
              by (simp add: remember_def stat_def meta_of_def)
            with agrees Some have "length (text_at ?t dev) = n_len n + length (added_text ?new)" by auto
            then show ?thesis
              using l(5) [OF readable Some] txt1 by (intro finish_same_length) simp
          qed
          then have "parse_owned (text_at ?t dev) = macs \<union> set ?new"
            using txt1 tidy_finish [of "text_at s dev"] macs
            by (simp add: parse_owned_append added_text_def note_of_def)
          then have "coherent ?r" using l(2) frame by (intro coherent_put) auto
          then show ?thesis using agrees s' by simp
        qed
        then show ?thesis using r txt2 touch' new by auto
      qed
    qed
  qed
  then show "coherent s'" "touches_only dev s s'"
    "r = Some fresh \<Longrightarrow> fresh = filter (\<lambda>m. m \<notin> note_of s dev) added"
    "r = Some fresh \<Longrightarrow> fresh \<noteq> [] \<Longrightarrow> text_at s' dev = finish_the_last_line (text_at s dev) @ added_text fresh"
    "r = Some [] \<Longrightarrow> text_at s' dev = text_at s dev"
    "r = None \<Longrightarrow> text_at s' dev = text_at s dev
       \<or> (\<exists>k. text_at s' dev = finish_the_last_line (text_at s dev)
                @ take k (added_text (filter (\<lambda>m. m \<notin> note_of s dev) added)))"
    by blast+
qed

section \<open>The contract of every change to a note\<close>

text \<open>
  What the code relies on when it changes one device's note: the copy in memory stays true, no
  other file is touched, nothing is lost but what was to go, nothing appears but what was to come.
  The last two are promised of a note whose last line is finished; \<open>finish_the_last_line\<close> breaks
  them where it is not (see the end of this theory).
\<close>

locale note_op =
  fixes op :: "store \<Rightarrow> store" and dev :: name and gone more :: "mac set"
  assumes keeps_coherent: "coherent s \<Longrightarrow> coherent (op s)"
    and frame: "coherent s \<Longrightarrow> touches_only dev s (op s)"
    and lower: "coherent s \<Longrightarrow> tidy (text_at s dev) \<Longrightarrow> note_of s dev - gone \<subseteq> note_of (op s) dev"
    and upper: "coherent s \<Longrightarrow> tidy (text_at s dev) \<Longrightarrow> note_of (op s) dev \<subseteq> note_of s dev \<union> more"
begin

lemma others: "coherent s \<Longrightarrow> d \<noteq> dev \<Longrightarrow> note_of (op s) d = note_of s d"
  by (rule touches_only_note [OF frame])

lemma stays: "coherent s \<Longrightarrow> tidy (text_at s dev) \<Longrightarrow> m \<in> note_of s dev \<Longrightarrow> m \<notin> gone \<Longrightarrow> m \<in> note_of (op s) dev"
  using lower by blast

lemma nothing_new: "coherent s \<Longrightarrow> tidy (text_at s dev) \<Longrightarrow> m \<in> note_of (op s) dev \<Longrightarrow> m \<notin> more \<Longrightarrow> m \<in> note_of s dev"
  using upper by blast

lemma accounts:
  assumes "coherent s" "tidy (text_at s dev)" "C \<subseteq> base \<union> note_of s dev" "C \<inter> gone \<subseteq> base"
  shows "C \<subseteq> base \<union> note_of (op s) dev"
  using lower [OF assms(1,2)] assms(3,4) by blast

end

text \<open>One that also leaves the last line finished, so that the next may rely on the whole contract.\<close>

locale tidy_op = note_op +
  assumes keeps_tidy: "coherent s \<Longrightarrow> tidy (text_at s dev) \<Longrightarrow> tidy (text_at (op s) dev)"
begin

lemma sound:
  assumes "coherent s" "tidy (text_at s dev)" "C \<subseteq> base \<union> note_of s dev" "C \<inter> gone \<subseteq> base"
  shows "coherent (op s) \<and> tidy (text_at (op s) dev) \<and> C \<subseteq> base \<union> note_of (op s) dev"
  using keeps_coherent keeps_tidy accounts assms by blast

end

lemma locked_spec [simp]:
  "st_disk (locked fs s dev) = st_disk s" "st_notes (locked fs s dev) = st_notes s"
  "st_indices (locked fs s dev) = st_indices s" "note_of (locked fs s dev) d = note_of s d"
  "text_at (locked fs s dev) d = text_at s d" "note_is_readable (locked fs s dev) d = note_is_readable s d"
  by (simp_all add: locked_def note_of_def text_at_def note_is_readable_def)

lemma coherent_locked [simp]: "coherent (locked fs s dev) \<longleftrightarrow> coherent s"
  by (simp add: coherent_def)

lemma append_owned_note:
  assumes "coherent s" "tidy (text_at s dev)" "append_owned_locked fs s dev added = (r, s')"
  shows "r \<noteq> None \<Longrightarrow> note_of s' dev = note_of s dev \<union> set added"
    "note_of s dev \<subseteq> note_of s' dev" "note_of s' dev \<subseteq> note_of s dev \<union> set added"
    "r \<noteq> None \<Longrightarrow> tidy (text_at s' dev)"
proof -
  note ap = append_owned_locked_spec [OF assms(1,3)]
  let ?new = "filter (\<lambda>m. m \<notin> note_of s dev) added"
  have "(r \<noteq> None \<longrightarrow> note_of s' dev = note_of s dev \<union> set added \<and> tidy (text_at s' dev))
      \<and> note_of s dev \<subseteq> note_of s' dev \<and> note_of s' dev \<subseteq> note_of s dev \<union> set added"
  proof (cases r)
    case None
    from ap(6) [OF None] show ?thesis
    proof (elim disjE exE)
      assume "text_at s' dev = text_at s dev"
      then show ?thesis using None by (simp add: note_of_def)
    next
      fix k
      assume "text_at s' dev = finish_the_last_line (text_at s dev) @ take k (added_text ?new)"
      then have "note_of s' dev = note_of s dev \<union> parse_owned (take k (added_text ?new))"
        using assms(2) by (simp add: note_of_def parse_owned_append)
      then show ?thesis
        using None parse_owned_take_lines [of k ?new] by (auto simp: added_text_def)
    qed
  next
    case (Some fresh)
    then have fresh: "fresh = ?new" by (rule ap(3))
    show ?thesis
    proof (cases "fresh = []")
      case True
      then have "text_at s' dev = text_at s dev" using ap(5) Some by simp
      moreover have "set added \<subseteq> note_of s dev" using fresh True by (metis filter_empty_conv subsetI)
      ultimately show ?thesis using assms(2) Some by (auto simp: note_of_def)
    next
      case False
      then have "text_at s' dev = text_at s dev @ added_text fresh"
        using ap(4) [OF Some] assms(2) by simp
      then show ?thesis
        using fresh assms(2) Some tidy_lines
        by (auto simp: note_of_def parse_owned_append added_text_def)
    qed
  qed
  then show "r \<noteq> None \<Longrightarrow> note_of s' dev = note_of s dev \<union> set added"
    "note_of s dev \<subseteq> note_of s' dev" "note_of s' dev \<subseteq> note_of s dev \<union> set added"
    "r \<noteq> None \<Longrightarrow> tidy (text_at s' dev)" by blast+
qed

interpretation appended: note_op "\<lambda>s. snd (append_owned_locked fs s dev added)" dev "{}" "set added"
  for fs dev added
proof
  fix s assume s: "coherent s"
  obtain r s' where ap: "append_owned_locked fs s dev added = (r, s')"
    by (cases "append_owned_locked fs s dev added")
  show "coherent (snd (append_owned_locked fs s dev added))"
    and "touches_only dev s (snd (append_owned_locked fs s dev added))"
    using append_owned_locked_spec(1,2) [OF s ap] ap by simp_all
  assume t: "tidy (text_at s dev)"
  show "note_of s dev - {} \<subseteq> note_of (snd (append_owned_locked fs s dev added)) dev"
    and "note_of (snd (append_owned_locked fs s dev added)) dev \<subseteq> note_of s dev \<union> set added"
    using append_owned_note(2,3) [OF s t ap] ap by simp_all
qed

lemma unnote_locked_spec:
  assumes "coherent s" "unnote_locked fs s dev macs = (ok, s')"
  shows "coherent s'" "touches_only dev s s'" "note_of s' dev = note_of s dev \<or> note_of s' dev = note_of s dev - set macs"
proof -
  obtain bf s1 where ld: "load_owned fs s dev = (bf, s1)" by (cases "load_owned fs s dev")
  note l = load_owned_spec [OF assms(1) ld]
  have s1: "note_of s1 dev = note_of s dev" "touches_only dev s s1"
    using note_of_cong [OF l(1)] touches_only_disk [OF l(1)] by blast+
  have "coherent s' \<and> touches_only dev s s'
     \<and> (note_of s' dev = note_of s dev \<or> note_of s' dev = note_of s dev - set macs)"
  proof (cases "\<not> note_is_readable s dev \<or> bf - set macs = bf")
    case True
    then have "s' = s \<or> s' = s1" using assms(2) ld by (auto simp: unnote_locked_def Let_def split: if_splits)
    then show ?thesis using assms(1) l(2) s1 by (auto simp: touches_only_disk)
  next
    case False
    then have wr: "write_owned fs s1 dev (bf - set macs) = (ok, s')"
      using assms(2) ld by (simp add: unnote_locked_def Let_def)
    have "bf = note_of s dev" using False l(4) by auto
    then have fin: "finite (bf - set macs)" by simp
    note w = write_owned_spec [OF l(2) fin wr]
    have "note_of s' dev = note_of s dev \<or> note_of s' dev = note_of s dev - set macs"
    proof (cases ok)
      case True
      then have "note_is_readable s1 dev" using w(5) by blast
      then have "settled fs s1 dev" by (rule load_owned_settled [OF ld])
      then show ?thesis using True w(3) \<open>bf = note_of s dev\<close> by simp
    next
      case False
      then show ?thesis using w(4) note_of_cong [of s' s1 dev] s1 by simp
    qed
    then show ?thesis using w(1,2) s1(2) touches_only_trans by blast
  qed
  then show "coherent s'" "touches_only dev s s'"
    "note_of s' dev = note_of s dev \<or> note_of s' dev = note_of s dev - set macs" by blast+
qed

text \<open>A whole set computed from what was just read, and written under the same lock.\<close>

lemma rewrite_spec:
  assumes "coherent s" "read_owned fs s dev = (cur, s1)" "write_owned fs s1 dev A = (ok, s')" "finite A"
  shows "coherent s'" "touches_only dev s s'"
    "note_of s' dev = note_of s dev \<or> (cur = note_of s dev \<and> note_of s' dev = A)"
proof -
  note r = read_owned_spec [OF assms(2)]
  have c1: "coherent s1" by (rule coherent_sub [OF assms(1) r(1)]) (simp add: r(2))
  have s1: "note_of s1 dev = note_of s dev" "touches_only dev s s1"
    using note_of_cong [OF r(1)] touches_only_disk [OF r(1)] by blast+
  note w = write_owned_spec [OF c1 assms(4,3)]
  show "coherent s'" by (rule w(1))
  show "touches_only dev s s'" using w(2) s1(2) touches_only_trans by blast
  show "note_of s' dev = note_of s dev \<or> (cur = note_of s dev \<and> note_of s' dev = A)"
  proof (cases ok)
    case True
    then have "note_is_readable s1 dev" using w(5) by blast
    then show ?thesis using True w(3) read_owned_settled [OF assms(2)] r(4) by simp
  next
    case False
    then show ?thesis using w(4) note_of_cong [of s' s1 dev] s1 by simp
  qed
qed

lemma forget_locked_spec:
  assumes "coherent s"
  shows "coherent (forget_locked fs s dev macs)" "touches_only dev s (forget_locked fs s dev macs)"
    "note_of (forget_locked fs s dev macs) dev = note_of s dev
     \<or> note_of (forget_locked fs s dev macs) dev = note_of s dev - set macs"
proof -
  obtain cur s1 where rd: "read_owned fs s dev = (cur, s1)" by (cases "read_owned fs s dev")
  obtain ok s' where wr: "write_owned fs s1 dev (cur - set macs) = (ok, s')"
    by (cases "write_owned fs s1 dev (cur - set macs)")
  have fin: "finite (cur - set macs)"
    using read_owned_spec(4,6) [OF rd] by (cases "note_is_readable s1 dev") auto
  have fl: "forget_locked fs s dev macs = (if macs = [] then s else s')"
    using rd wr by (simp add: forget_locked_def)
  show "coherent (forget_locked fs s dev macs)" "touches_only dev s (forget_locked fs s dev macs)"
    "note_of (forget_locked fs s dev macs) dev = note_of s dev
     \<or> note_of (forget_locked fs s dev macs) dev = note_of s dev - set macs"
    using rewrite_spec [OF assms rd wr fin] assms unfolding fl by (auto simp: touches_only_def)
qed

lemma save_owned_merged_spec:
  assumes "coherent s" "finite after"
  shows "coherent (save_owned_merged fs dry s dev before after)"
    "touches_only dev s (save_owned_merged fs dry s dev before after)"
    "note_of (save_owned_merged fs dry s dev before after) dev = note_of s dev
     \<or> note_of (save_owned_merged fs dry s dev before after) dev
        = note_of s dev \<union> (after - before) - (before - after)"
proof -
  obtain cur s1 where rd: "read_owned fs (locked fs s dev) dev = (cur, s1)"
    by (cases "read_owned fs (locked fs s dev) dev")
  let ?A = "cur \<union> (after - before) - (before - after)"
  obtain ok s' where wr: "write_owned fs s1 dev ?A = (ok, s')" by (cases "write_owned fs s1 dev ?A")
  have fin: "finite ?A"
    using read_owned_spec(4,6) [OF rd] assms(2) by (cases "note_is_readable s1 dev") auto
  have sm: "save_owned_merged fs dry s dev before after = (if dry then s else s')"
    using rd wr by (simp add: save_owned_merged_def)
  have "coherent (locked fs s dev)" using assms(1) by simp
  from rewrite_spec [OF this rd wr fin]
  show "coherent (save_owned_merged fs dry s dev before after)"
    "touches_only dev s (save_owned_merged fs dry s dev before after)"
    "note_of (save_owned_merged fs dry s dev before after) dev = note_of s dev
     \<or> note_of (save_owned_merged fs dry s dev before after) dev
        = note_of s dev \<union> (after - before) - (before - after)"
    using assms unfolding sm by (auto simp: touches_only_def)
qed

interpretation unnoted: note_op "\<lambda>s. snd (unnote_locked fs s dev macs)" dev "set macs" "{}"
  for fs dev macs
proof
  fix s assume s: "coherent s"
  obtain ok s' where un: "unnote_locked fs s dev macs = (ok, s')" by (cases "unnote_locked fs s dev macs")
  note u = unnote_locked_spec [OF s un]
  show "coherent (snd (unnote_locked fs s dev macs))"
    "touches_only dev s (snd (unnote_locked fs s dev macs))" using u un by simp_all
  show "note_of s dev - set macs \<subseteq> note_of (snd (unnote_locked fs s dev macs)) dev"
    "note_of (snd (unnote_locked fs s dev macs)) dev \<subseteq> note_of s dev \<union> {}" using u(3) un by auto
qed

interpretation forgotten: note_op "\<lambda>s. forget_locked fs s dev macs" dev "set macs" "{}"
  for fs dev macs
  by unfold_locales (use forget_locked_spec in \<open>blast+\<close>)

interpretation merged: note_op "\<lambda>s. save_owned_merged fs dry s dev before (set after)" dev
    "before - set after" "set after - before" for fs dry dev before after
  by unfold_locales (use save_owned_merged_spec [of _ "set after"] in \<open>blast+\<close>)

lemma text_at_cong: "st_disk s' = st_disk s \<Longrightarrow> text_at s' dev = text_at s dev"
  by (simp add: text_at_def)

lemma rewrite_tidy:
  assumes "coherent s" "read_owned fs s dev = (cur, s1)" "write_owned fs s1 dev A = (ok, s')" "finite A"
    and "tidy (text_at s dev)"
  shows "tidy (text_at s' dev)"
proof -
  note r = read_owned_spec [OF assms(2)]
  have "coherent s1" by (rule coherent_sub [OF assms(1) r(1)]) (simp add: r(2))
  then show ?thesis
    using write_owned_spec(6) [OF _ assms(4,3)] text_at_cong [OF r(1)] assms(5) by simp
qed

lemma read_owned_finite: "read_owned fs s dev = (cur, s1) \<Longrightarrow> finite cur"
  using read_owned_spec(4,6) by (metis finite.emptyI finite_note_of)

interpretation unnoted_tidy: tidy_op "\<lambda>s. snd (unnote_locked fs s dev macs)" dev "set macs" "{}"
  for fs dev macs
proof unfold_locales
  fix s assume s: "coherent s" "tidy (text_at s dev)"
  obtain bf s1 where ld: "load_owned fs s dev = (bf, s1)" by (cases "load_owned fs s dev")
  note l = load_owned_spec [OF s(1) ld]
  have t: "tidy (text_at s1 dev)" using s(2) text_at_cong [OF l(1)] by simp
  have fin: "finite (bf - set macs)" using l(4) by auto
  have "tidy (text_at (snd (write_owned fs s1 dev (bf - set macs))) dev)"
    using write_owned_spec(6) [OF l(2) fin prod.collapse [symmetric] t] .
  then show "tidy (text_at (snd (unnote_locked fs s dev macs)) dev)"
    using s t ld by (auto simp: unnote_locked_def Let_def)
qed

interpretation forgotten_tidy: tidy_op "\<lambda>s. forget_locked fs s dev macs" dev "set macs" "{}"
  for fs dev macs
proof unfold_locales
  fix s assume s: "coherent s" "tidy (text_at s dev)"
  obtain cur s1 where rd: "read_owned fs s dev = (cur, s1)" by (cases "read_owned fs s dev")
  have fin: "finite (cur - set macs)" using read_owned_finite [OF rd] by simp
  show "tidy (text_at (forget_locked fs s dev macs) dev)"
    using rewrite_tidy [OF s(1) rd prod.collapse [symmetric] fin s(2)] s(2) rd
    by (simp add: forget_locked_def)
qed

interpretation merged_tidy: tidy_op "\<lambda>s. save_owned_merged fs dry s dev before (set after)" dev
    "before - set after" "set after - before" for fs dry dev before after
proof unfold_locales
  fix s assume s: "coherent s" "tidy (text_at s dev)"
  obtain cur s1 where rd: "read_owned fs (locked fs s dev) dev = (cur, s1)"
    by (cases "read_owned fs (locked fs s dev) dev")
  have fin: "finite (cur \<union> (set after - before) - (before - set after))"
    using read_owned_finite [OF rd] by simp
  have "coherent (locked fs s dev)" "tidy (text_at (locked fs s dev) dev)"
    using s by (simp_all add: text_at_def)
  then show "tidy (text_at (save_owned_merged fs dry s dev before (set after)) dev)"
    using rewrite_tidy [OF _ rd prod.collapse [symmetric] fin] s(2) rd
    by (simp add: save_owned_merged_def)
qed

section \<open>The other files\<close>

lemma touches_other_coherent:
  assumes "coherent s" "\<And>d. file_at (st_disk s') (OwnedP d) = file_at (st_disk s) (OwnedP d)"
    "st_notes s' = st_notes s"
  shows "coherent s'"
  using assms unfolding coherent_def stat_def note_of_def text_at_def by metis

lemma note_index_owned:
  "file_at (st_disk (note_index fs s dev i)) (OwnedP d) = file_at (st_disk s) (OwnedP d)"
  "st_notes (note_index fs s dev i) = st_notes s"
  by (auto simp: note_index_def put_file_def split: if_splits)

lemma coherent_note_index: "coherent s \<Longrightarrow> coherent (note_index fs s dev i)"
  by (rule touches_other_coherent) (simp_all add: note_index_owned)

lemma write_ports_owned:
  "write_ports fs s dev ls = (ok, s') \<Longrightarrow>
     file_at (st_disk s') (OwnedP d) = file_at (st_disk s) (OwnedP d) \<and> st_notes s' = st_notes s"
  by (auto simp: write_ports_def put_file_def split: if_splits)

lemma coherent_write_ports: "coherent s \<Longrightarrow> coherent (snd (write_ports fs s dev ls))"
  by (rule touches_other_coherent)
    (use write_ports_owned [of fs s dev ls "fst (write_ports fs s dev ls)" "snd (write_ports fs s dev ls)"] in simp_all)

lemma coherent_remove_note: "coherent s \<Longrightarrow> coherent (remove_note s dev)"
proof -
  assume s: "coherent s"
  have at: "stat (st_disk (remove_note s dev)) (OwnedP d) = (if d = dev then None else stat (st_disk s) (OwnedP d))" for d
    by (simp add: remove_note_def stat_def)
  have note_eq: "note_of (remove_note s dev) d = note_of s d" if "d \<noteq> dev" for d
    using that by (simp add: note_of_def text_at_def remove_note_def)
  show ?thesis
    unfolding coherent_def at
    using coherentD [OF s] note_eq by (auto simp: remove_note_def split: if_splits)
qed

lemma coherent_drop_line: "coherent s \<Longrightarrow> coherent (drop_line_locked fs s dev m)"
proof -
  assume s: "coherent s"
  have "coherent (snd (put_file fs (drop_cached s dev) (OwnedP dev) t))" for t
  proof (rule coherent_files [OF s, of dev])
    show "\<And>q. q \<noteq> OwnedP dev \<Longrightarrow> file_at (st_disk (snd (put_file fs (drop_cached s dev) (OwnedP dev) t))) q
        = file_at (st_disk s) q"
      by (simp add: put_file_def)
  qed (auto simp: put_file_def drop_cached_def split: if_splits)
  then show ?thesis
    using s coherent_remove_note by (auto simp: drop_line_locked_def Let_def split: option.split)
qed

lemma coherent_append: "coherent s \<Longrightarrow> coherent (snd (append_owned_locked fs s dev added))"
  by (rule appended.keeps_coherent)

lemma coherent_load: "coherent s \<Longrightarrow> coherent (snd (load_owned fs s dev))"
  using load_owned_spec(2) by (metis prod.collapse)

lemma coherent_migrate: "coherent s \<Longrightarrow> coherent (snd (migrate_note fs order s old new i))"
  by (auto simp: migrate_note_def Let_def case_prod_beta
      intro!: coherent_remove_note coherent_append coherent_note_index coherent_load split: option.split)

section \<open>A run of the program over its notes\<close>

text \<open>
  Everything this process does to the state directory, with the operating system free to refuse
  differently at every step and time free to pass between two.
\<close>

inductive note_step :: "store \<Rightarrow> store \<Rightarrow> bool" where
  ns_load: "note_step s (snd (load_owned fs s dev))"
| ns_append: "note_step s (snd (append_owned_locked fs s dev added))"
| ns_write: "finite macs \<Longrightarrow> note_step s (snd (write_owned fs s dev macs))"
| ns_unnote: "note_step s (snd (unnote_locked fs s dev macs))"
| ns_forget: "note_step s (forget_locked fs s dev macs)"
| ns_merge: "note_step s (save_owned_merged fs dry s dev before (set after))"
| ns_drop_line: "note_step s (drop_line_locked fs s dev m)"
| ns_remove: "note_step s (remove_note s dev)"
| ns_migrate: "note_step s (snd (migrate_note fs order s old new i))"
| ns_index: "note_step s (note_index fs s dev i)"
| ns_ports: "note_step s (snd (write_ports fs s dev ls))"
| ns_lock: "note_step s (locked fs s dev)"
| ns_tick: "note_step s (s\<lparr>st_disk := (st_disk s)\<lparr>dk_clock := c, dk_now := n\<rparr>\<rparr>)"

inductive note_run :: "store \<Rightarrow> store \<Rightarrow> bool" where
  start: "note_run s s"
| step: "note_run s t \<Longrightarrow> note_step t u \<Longrightarrow> note_run s u"

inductive_cases note_stepE: "note_step s t"

lemma note_step_coherent: "note_step s t \<Longrightarrow> coherent s \<Longrightarrow> coherent t"
proof (induction rule: note_step.induct)
  case (ns_write macs s fs dev)
  then show ?case using write_owned_spec(1) by (metis prod.collapse)
next
  case (ns_tick s c n)
  then show ?case by (simp add: coherent_def stat_def file_at_def note_of_def text_at_def)
qed (simp_all add: coherent_load coherent_append unnoted.keeps_coherent forgotten.keeps_coherent
    merged.keeps_coherent coherent_drop_line coherent_remove_note coherent_migrate coherent_note_index
    coherent_write_ports)

lemma note_run_coherent: "note_run s t \<Longrightarrow> coherent s \<Longrightarrow> coherent t"
  by (induction rule: note_run.induct) (blast intro: note_step_coherent)+

definition new_store :: "disk \<Rightarrow> store" where
  "new_store d = \<lparr>st_disk = d, st_notes = Map.empty, st_indices = Map.empty, st_said = no_said\<rparr>"

lemma coherent_new_store [simp]: "coherent (new_store d)"
  by (simp add: coherent_def new_store_def)

section \<open>Properties\<close>

text \<open>A file system that refuses nothing, and a state directory with one note.\<close>

definition kind_fs :: fs where
  "kind_fs = \<lparr>fs_read = (\<lambda>_. True), fs_put = (\<lambda>_. True), fs_append = (\<lambda>_. AppendOk),
              fs_lock = (\<lambda>_. True), fs_list = True\<rparr>"

definition disk_with :: "name \<Rightarrow> string \<Rightarrow> disk" where
  "disk_with dev t = \<lparr>dk_files = [(OwnedP dev, \<lparr>fl_text = t, fl_ino = 1, fl_mtime = 0\<rparr>)],
                      dk_next_ino = 2, dk_clock = 0, dk_now = 0\<rparr>"

lemma text_at_disk_with [simp]: "text_at (new_store (disk_with dev t)) dev = t"
  by (simp add: text_at_def new_store_def disk_with_def file_at_def)

lemma st_disk_new_store [simp]: "st_disk (new_store d) = d"
  by (simp add: new_store_def)

lemma finish_unfinished: "t \<noteq> [] \<Longrightarrow> NL \<notin> set t \<Longrightarrow> finish_the_last_line t = []"
proof -
  assume t: "t \<noteq> []" "NL \<notin> set t"
  then have "last t \<noteq> NL" using last_in_set by metis
  moreover have "dropWhile (\<lambda>c. c \<noteq> NL) (rev t) = []" using t(2) by (auto simp: dropWhile_eq_Nil_conv)
  ultimately show ?thesis using t(1) by (simp add: finish_the_last_line_def)
qed

text \<open>C13: appending names all of it and loses none of it. On a note whose last line is finished, an
  append that reports success leaves exactly the old owners and the added ones on record, in a note
  whose last line is finished again; one that fails, wherever the write stopped, still names every
  old owner and nothing that was not asked for; no other device's note changes.\<close>

theorem append_names_everything:
  assumes "coherent s" "tidy (text_at s dev)" "append_owned_locked fs s dev added = (r, s')"
  shows "(r \<noteq> None \<longrightarrow> note_of s' dev = note_of s dev \<union> set added \<and> tidy (text_at s' dev))
     \<and> note_of s dev \<subseteq> note_of s' dev \<and> note_of s' dev \<subseteq> note_of s dev \<union> set added
     \<and> (\<forall>d. d \<noteq> dev \<longrightarrow> note_of s' d = note_of s d)"
  using append_owned_note [OF assms] appended.others [OF assms(1), of _ dev fs added] assms(3) by simp

theorem append_names_everything_witness:
  "note_of (snd (append_owned_locked kind_fs (new_store (disk_with ''pf0'' [])) ''pf0'' [Mac 2 0 0 0 0 7])) ''pf0''
     \<subseteq> {Mac 2 0 0 0 0 7}"
proof -
  let ?s = "new_store (disk_with ''pf0'' [])"
  obtain r s' where ap: "append_owned_locked kind_fs ?s ''pf0'' [Mac 2 0 0 0 0 7] = (r, s')"
    by (cases "append_owned_locked kind_fs ?s ''pf0'' [Mac 2 0 0 0 0 7]")
  have "note_of ?s ''pf0'' = {}" by (simp add: note_of_def)
  with append_names_everything [OF _ _ ap] show ?thesis by (simp add: ap tidy_def)
qed





text \<open>C40: where the trimming goes too far. A note whose last line is complete and lacks only its
  newline names that address to every reader, and the append that adds another one still cuts the
  line away: it reports success, and an address that was owned no longer is, while nothing took it
  out of the card.\<close>

theorem trimming_drops_a_named_owner:
  "\<exists>s m m' s'. coherent s \<and> note_of s ''pf0'' = {m} \<and> m \<noteq> m'
     \<and> append_owned_locked kind_fs s ''pf0'' [m'] = (Some [m'], s') \<and> note_of s' ''pf0'' = {m'}"
proof -
  let ?m = "Mac 2 0 0 0 0 7" and ?m' = "Mac 2 0 0 0 0 8"
  let ?s = "new_store (disk_with ''pf0'' (format_mac ?m))"
  have no_nl: "NL \<notin> set (format_mac ?m)" by (rule format_mac_lines)
  have note_m: "note_of ?s ''pf0'' = {?m}"
    by (simp add: note_of_def parse_owned_no_newline [OF no_nl] parse_mac_format_mac)
  obtain r s' where ap: "append_owned_locked kind_fs ?s ''pf0'' [?m'] = (r, s')"
    by (cases "append_owned_locked kind_fs ?s ''pf0'' [?m']")
  have "r \<noteq> None"
  proof -
    obtain macs s1 where ld: "load_owned kind_fs ?s ''pf0'' = (macs, s1)"
      by (cases "load_owned kind_fs ?s ''pf0''")
    have "settled kind_fs ?s ''pf0''"
      by (rule legible_load) (simp_all add: legible_def kind_fs_def note_is_readable_def new_store_def no_said_def)
    then have "note_is_readable s1 ''pf0''" by (simp add: settled_def ld)
    then show ?thesis
      using ap ld by (auto simp: append_owned_locked_def append_text_def kind_fs_def Let_def split: if_splits)
  qed
  then obtain fresh where r: "r = Some fresh" by blast
  note sp = append_owned_locked_spec [OF coherent_new_store ap]
  have fresh: "fresh = [?m']" using sp(3) [OF r] note_m by simp
  have cut: "finish_the_last_line (format_mac ?m) = []"
    by (rule finish_unfinished [OF format_mac_neq_Nil no_nl])
  have "text_at s' ''pf0'' = added_text [?m']" using sp(4) [OF r] fresh cut by simp
  then have "note_of s' ''pf0'' = {?m'}" by (simp add: note_of_def added_text_def del: list.map concat.simps)
  moreover have "append_owned_locked kind_fs ?s ''pf0'' [?m'] = (Some [?m'], s')" using ap r fresh by simp
  moreover have "?m \<noteq> ?m'" by simp
  ultimately show ?thesis using note_m coherent_new_store by blast
qed

end
