(* ===== verification/Graph_Laws.thy ===== *)
theory Graph_Laws
  imports Topology
begin

text \<open>
  Laws of the interface graph: the worklist walks compute reachability over the edges they follow,
  upward and downward edges of an assembled topology are each other's inverse, and so the code's
  several ways of asking "does this hang below that" give one answer.
\<close>

section \<open>Edges and walks\<close>

definition edges :: "topology \<Rightarrow> (link \<Rightarrow> ifindex list) \<Rightarrow> (ifindex \<times> ifindex) set" where
  "edges T nxt = {(a, b). \<exists>l. at T a = Some l \<and> b \<in> set (nxt l)}"

lemma edges_at: "at T a = Some l \<Longrightarrow> edges T nxt `` {a} = set (nxt l)"
  by (auto simp: edges_def)

lemma edges_at_None: "at T a = None \<Longrightarrow> edges T nxt `` {a} = {}"
  by (auto simp: edges_def)

lemma Image_insert: "R `` insert a A = R `` {a} \<union> R `` A"
  by auto

lemma flood_loop_grows: "seen \<subseteq> flood_loop T nxt stack seen \<and> set stack \<subseteq> flood_loop T nxt stack seen"
  by (induction T nxt stack seen rule: flood_loop.induct) (auto split: option.splits)

lemma flood_loop_closed:
  "a \<in> flood_loop T nxt stack seen - seen \<Longrightarrow> edges T nxt `` {a} \<subseteq> flood_loop T nxt stack seen"
proof (induction T nxt stack seen rule: flood_loop.induct)
  case (2 T nxt cur stack seen)
  show ?case
  proof (cases "cur \<in> seen")
    case True
    then show ?thesis using 2 by simp
  next
    case fresh: False
    show ?thesis
    proof (cases "at T cur")
      case None
      then show ?thesis
        using 2 fresh edges_at_None [OF None, of nxt] by (cases "a = cur") auto
    next
      case (Some l)
      show ?thesis
      proof (cases "a = cur")
        case True
        then show ?thesis
          using fresh Some edges_at [OF Some, of nxt]
            flood_loop_grows [of "insert cur seen" T nxt "rev (nxt l) @ stack"] by auto
      qed (use 2 fresh Some in auto)
    qed
  qed
qed simp

lemma flood_loop_reached: "flood_loop T nxt stack seen \<subseteq> seen \<union> (edges T nxt)\<^sup>* `` set stack"
proof (induction T nxt stack seen rule: flood_loop.induct)
  case (2 T nxt cur stack seen)
  show ?case
  proof (cases "cur \<in> seen")
    case True
    then show ?thesis using 2 by auto
  next
    case fresh: False
    show ?thesis
    proof (cases "at T cur")
      case None
      then show ?thesis using 2 fresh by auto
    next
      case (Some l)
      have "(edges T nxt)\<^sup>* `` set (nxt l) \<subseteq> (edges T nxt)\<^sup>* `` {cur}"
        using edges_at [OF Some, of nxt] by (auto intro: converse_rtrancl_into_rtrancl)
      then have "(edges T nxt)\<^sup>* `` set (rev (nxt l) @ stack) \<subseteq> (edges T nxt)\<^sup>* `` set (cur # stack)"
        using Image_insert [of "(edges T nxt)\<^sup>*" cur "set stack"] by (simp add: Image_Un) blast
      moreover have "cur \<in> (edges T nxt)\<^sup>* `` set (cur # stack)" by auto
      moreover have "flood_loop T nxt (cur # stack) seen
          \<subseteq> insert cur seen \<union> (edges T nxt)\<^sup>* `` set (rev (nxt l) @ stack)"
        using 2(3) [OF fresh Some] fresh Some by simp
      ultimately show ?thesis by blast
    qed
  qed
qed simp

lemma flood_reachable: "flood T roots nxt = (edges T nxt)\<^sup>* `` set roots"
proof
  show "flood T roots nxt \<subseteq> (edges T nxt)\<^sup>* `` set roots"
    using flood_loop_reached [of T nxt "rev roots" "{}"] by (simp add: flood_def)
  have closed: "edges T nxt `` flood T roots nxt \<subseteq> flood T roots nxt"
    using flood_loop_closed [of _ T nxt "rev roots" "{}"] by (auto simp: flood_def)
  have "set roots \<subseteq> flood T roots nxt"
    using flood_loop_grows [of "{}" T nxt "rev roots"] by (simp add: flood_def)
  then have "(edges T nxt)\<^sup>* `` set roots \<subseteq> (edges T nxt)\<^sup>* `` flood T roots nxt" by blast
  also have "\<dots> = flood T roots nxt" using closed by (rule Image_closed_trancl)
  finally show "(edges T nxt)\<^sup>* `` set roots \<subseteq> flood T roots nxt" .
qed

lemma leads_loop_iff:
  "leads_loop T target stack seen
     \<longleftrightarrow> target \<in> edges T l_lowers `` (flood_loop T l_lowers stack seen - seen)"
proof (induction T target stack seen rule: leads_loop.induct)
  case (2 T target cur stack seen)
  show ?case
  proof (cases "cur \<in> seen")
    case True
    then show ?thesis using 2 by simp
  next
    case fresh: False
    have split: "edges T l_lowers `` (A - seen)
        = edges T l_lowers `` {cur} \<union> edges T l_lowers `` (A - insert cur seen)" if "cur \<in> A" for A
      using fresh that by blast
    show ?thesis
    proof (cases "at T cur")
      case None
      have "cur \<in> flood_loop T l_lowers stack (insert cur seen)"
        using flood_loop_grows [of "insert cur seen" T l_lowers stack] by blast
      then show ?thesis
        using 2 fresh None edges_at_None [OF None, of l_lowers] by (simp add: split)
    next
      case (Some l)
      let ?R = "flood_loop T l_lowers (rev (l_lowers l) @ stack) (insert cur seen)"
      have "cur \<in> ?R" using flood_loop_grows [of "insert cur seen" T l_lowers] by blast
      then have "target \<in> edges T l_lowers `` (?R - seen)
          \<longleftrightarrow> target \<in> set (l_lowers l) \<or> target \<in> edges T l_lowers `` (?R - insert cur seen)"
        using edges_at [OF Some, of l_lowers] by (simp add: split)
      then show ?thesis using 2(3) [OF fresh Some] fresh Some by auto
    qed
  qed
qed simp

lemma leads_to_reachable: "leads_to T dev target \<longleftrightarrow> (dev, target) \<in> (edges T l_lowers)\<^sup>*"
proof (cases "dev = target")
  case False
  have "leads_to T dev target \<longleftrightarrow> target \<in> edges T l_lowers `` ((edges T l_lowers)\<^sup>* `` {dev})"
    using False leads_loop_iff [of T target "[dev]" "{}"] flood_reachable [of T "[dev]" l_lowers]
    by (simp add: leads_to_def flood_def)
  also have "\<dots> \<longleftrightarrow> (dev, target) \<in> (edges T l_lowers)\<^sup>+"
    by (auto simp: trancl_unfold_right)
  also have "\<dots> \<longleftrightarrow> (dev, target) \<in> (edges T l_lowers)\<^sup>*"
    using False by (auto simp: rtrancl_eq_or_trancl)
  finally show ?thesis .
qed (simp add: leads_to_def)

section \<open>The assembled graph\<close>

text \<open>
  \<open>assemble\<close> leaves every link as it was but for the two inverse lists; on links that come
  without any, an upper edge is exactly a lower edge turned round.
\<close>

definition uppers_in :: "(ifindex \<times> ifindex \<times> bool) list \<Rightarrow> bool \<Rightarrow> ifindex \<Rightarrow> ifindex list" where
  "uppers_in es up i = map (\<lambda>(_, other, _). other) (filter (\<lambda>(t, _, u). t = i \<and> u = up) es)"

definition inverted :: "(ifindex \<times> ifindex \<times> bool) list \<Rightarrow> ifindex \<Rightarrow> link \<Rightarrow> link" where
  "inverted es i l =
     l\<lparr>l_uppers := l_uppers l @ uppers_in es True i, l_slaves := l_slaves l @ uppers_in es False i\<rparr>"

lemma map_of_push_edge: "map_of (push_edge e m) i = map_option (inverted [e] i) (map_of m i)"
  by (cases e; cases "map_of m i")
    (auto simp: push_edge_def AList.map_of_map_entry inverted_def uppers_in_def)

lemma inverted_Cons: "inverted (e # es) i = inverted es i \<circ> inverted [e] i"
  by (cases e) (auto simp: inverted_def uppers_in_def fun_eq_iff)

lemma inverted_Nil: "inverted [] i = id"
  by (simp add: inverted_def uppers_in_def fun_eq_iff)

lemma map_of_push_edges:
  "map_of (fold push_edge es m) i = map_option (inverted es i) (map_of m i)"
proof (induction es arbitrary: m)
  case (Cons e es)
  then show ?case
    unfolding inverted_Cons [of e es] option.map_comp [symmetric] by (simp add: map_of_push_edge)
qed (simp add: inverted_Nil option.map_id)

lemma map_of_updates:
  "distinct (map l_index ls) \<Longrightarrow>
     map_of (fold (\<lambda>l m. AList.update (l_index l) l m) ls m)
       = map_of m ++ map_of (map (\<lambda>l. (l_index l, l)) ls)"
proof (induction ls arbitrary: m)
  case (Cons l ls)
  then have "l_index l \<notin> dom (map_of (map (\<lambda>l. (l_index l, l)) ls))"
    by (simp add: dom_map_of_conv_image_fst image_image)
  then show ?case
    using Cons by (auto simp: update_conv' map_add_def fun_eq_iff split: option.splits)
qed simp

lemma assemble_at:
  assumes "distinct (map l_index ls)"
  shows "at (assemble ls bn) i = Some k
    \<longleftrightarrow> (\<exists>l \<in> set ls. l_index l = i \<and> k = inverted (concat (map link_edges ls)) i l)"
proof -
  have "map_of (map (\<lambda>l. (l_index l, l)) ls) i = Some l \<longleftrightarrow> l \<in> set ls \<and> l_index l = i" for l
    using assms by (subst map_of_eq_Some_iff) (auto simp: comp_def)
  then show ?thesis
    by (auto simp: at_def assemble_def Let_def map_of_push_edges map_of_updates [OF assms])
qed

lemma set_uppers_in: "b \<in> set (uppers_in es up a) \<longleftrightarrow> (a, b, up) \<in> set es"
  by (force simp: uppers_in_def)

lemma set_link_edges:
  "(a, b, up) \<in> set (link_edges l)
     \<longleftrightarrow> b = l_index l \<and> (if up then a \<in> set (l_lowers l) else l_master l = Some a)"
  by (cases "l_master l") (auto simp: link_edges_def)

lemma uppers_in_edges:
  "b \<in> set (uppers_in (concat (map link_edges ls)) up a)
     \<longleftrightarrow> (\<exists>l \<in> set ls. b = l_index l \<and> (if up then a \<in> set (l_lowers l) else l_master l = Some a))"
  unfolding set_uppers_in by (simp add: set_link_edges)

lemma inverted_fields [simp]:
  "l_lowers (inverted es i l) = l_lowers l" "l_master (inverted es i l) = l_master l"
  "l_index (inverted es i l) = l_index l" "l_is_bridge (inverted es i l) = l_is_bridge l"
  "l_name (inverted es i l) = l_name l"
  by (simp_all add: inverted_def)

lemma assemble_edges:
  assumes "distinct (map l_index ls)" and "\<forall>l \<in> set ls. l_uppers l = []"
  shows "(a, b) \<in> edges (assemble ls bn) l_uppers
    \<longleftrightarrow> at (assemble ls bn) a \<noteq> None \<and> (b, a) \<in> edges (assemble ls bn) l_lowers"
proof -
  let ?es = "concat (map link_edges ls)"
  have low: "(b, a) \<in> edges (assemble ls bn) l_lowers
      \<longleftrightarrow> (\<exists>l \<in> set ls. b = l_index l \<and> a \<in> set (l_lowers l))"
    by (auto simp: edges_def assemble_at [OF assms(1)])
  have up: "(a, b) \<in> edges (assemble ls bn) l_uppers
      \<longleftrightarrow> (\<exists>l \<in> set ls. l_index l = a \<and> b \<in> set (uppers_in ?es True a))"
    using assms(2) by (auto simp: edges_def assemble_at [OF assms(1)] inverted_def)
  have here: "at (assemble ls bn) a \<noteq> None \<longleftrightarrow> (\<exists>l \<in> set ls. l_index l = a)"
    using assemble_at [OF assms(1), of bn a] by blast
  show ?thesis unfolding low up here uppers_in_edges by simp
qed

section \<open>The graph a link dump makes\<close>

lemma link_from_info_fields [simp]:
  "l_index (fst (link_from_info sy np bn l facts)) = li_index l"
  "l_uppers (fst (link_from_info sy np bn l facts)) = []"
  "l_slaves (fst (link_from_info sy np bn l facts)) = []"
  "l_master (fst (link_from_info sy np bn l facts)) = li_master l"
  by (simp_all add: link_from_info_def link_of_info_def default_link_def Let_def case_prod_beta)

lemma links_from_infos_fields:
  "map l_index (fst (links_from_infos sy np bn infos facts)) = map li_index infos
   \<and> (\<forall>l \<in> set (fst (links_from_infos sy np bn infos facts)). l_uppers l = [] \<and> l_slaves l = [])"
  by (induction infos arbitrary: facts) (simp_all add: Let_def case_prod_beta)

lemma last_position_iff:
  assumes "distinct (map l_index ls)"
  shows "last_position ls i = Some k \<longleftrightarrow> k < length ls \<and> l_index (ls ! k) = i"
proof -
  have "distinct (map fst (rev (zip (map l_index ls) [0..<length ls])))"
    using assms by (simp flip: rev_map)
  then have "last_position ls i = Some k \<longleftrightarrow> (i, k) \<in> set (zip (map l_index ls) [0..<length ls])"
    by (simp add: last_position_def)
  also have "\<dots> \<longleftrightarrow> (\<exists>j < length ls. i = l_index (ls ! j) \<and> k = j)"
    unfolding set_zip by (simp add: conj_commute) (metis (no_types, lifting) nth_map nth_upt add_0)
  finally show ?thesis by auto
qed

lemma push_at_map:
  assumes "\<And>i k. pos i = Some k \<longleftrightarrow> k < length ls \<and> l_index (ls ! k) = i"
  shows "push_at pos upd e ls = map (\<lambda>l. if l_index l = fst e then upd (snd e) l else l) ls"
proof (rule nth_equalityI)
  fix j
  assume "j < length (push_at pos upd e ls)"
  then have j: "j < length ls" by (simp add: push_at_def split: option.splits)
  show "push_at pos upd e ls ! j = map (\<lambda>l. if l_index l = fst e then upd (snd e) l else l) ls ! j"
  proof (cases "pos (fst e)")
    case None
    then show ?thesis using j assms [of "fst e" j] by (simp add: push_at_def)
  next
    case (Some k)
    then show ?thesis
      using j assms [of "fst e" j] assms [of "fst e" k]
      by (cases "k = j") (auto simp: push_at_def)
  qed
qed (simp add: push_at_def split: option.splits)

text \<open>The pushes of a whole list, link by link.\<close>

abbreviation pushed_to :: "(ifindex \<times> ifindex) list \<Rightarrow> link \<Rightarrow> ifindex list" where
  "pushed_to es l \<equiv> map snd (filter (\<lambda>e. fst e = l_index l) es)"

lemma fold_push_at:
  assumes "\<And>i k. pos i = Some k \<longleftrightarrow> k < length ls \<and> l_index (ls ! k) = i"
    and "\<And>x l. l_index (upd x l) = l_index l"
  shows "fold (push_at pos upd) es ls = map (\<lambda>l. fold upd (pushed_to es l) l) ls"
  using assms(1)
proof (induction es arbitrary: ls)
  case (Cons e es)
  let ?ls = "map (\<lambda>l. if l_index l = fst e then upd (snd e) l else l) ls"
  have "push_at pos upd e ls = ?ls" using Cons.prems by (rule push_at_map)
  moreover have "fold (push_at pos upd) es ?ls = map (\<lambda>l. fold upd (pushed_to es l) l) ?ls"
    by (rule Cons.IH) (use Cons.prems assms(2) in auto)
  ultimately show ?case by (simp add: assms(2))
qed simp

lemma fold_push_lowers:
  "fold (\<lambda>p l. l\<lparr>l_lowers := l_lowers l @ [p]\<rparr>) ps l = l\<lparr>l_lowers := l_lowers l @ ps\<rparr>"
  by (induction ps arbitrary: l) auto

lemma fold_push_vfs:
  "fold (\<lambda>p l. l\<lparr>l_vf_netdevs := l_vf_netdevs l @ [p]\<rparr>) ps l
     = l\<lparr>l_vf_netdevs := l_vf_netdevs l @ ps\<rparr>"
  by (induction ps arbitrary: l) auto

text \<open>What \<open>from_links\<close> hands to \<open>assemble\<close>.\<close>

definition port_edges :: "link list \<Rightarrow> (ifindex \<times> ifindex) list" where
  "port_edges out = List.map_filter (\<lambda>l. map_option (\<lambda>m. (m, l_index l)) (l_master l)) out"

definition dumped :: "sysfs \<Rightarrow> link_info list \<Rightarrow> (ifindex \<rightharpoonup> device_facts) \<Rightarrow> link list" where
  "dumped sy infos facts =
     fst (links_from_infos sy (list_ex (\<lambda>l. li_parent_dev l \<noteq> None) infos)
            (fold (\<lambda>l m. m(li_name l \<mapsto> li_index l)) infos Map.empty) infos facts)"

definition wired :: "link list \<Rightarrow> (link \<Rightarrow> ifindex list) \<Rightarrow> link \<Rightarrow> link" where
  "wired out vfs l = l\<lparr>l_lowers := l_lowers l @ pushed_to (port_edges out) l, l_vf_netdevs := vfs l\<rparr>"

lemma from_links_assembles:
  assumes "distinct (map li_index infos)"
  obtains vfs bn where "fst (from_links sy infos facts)
    = assemble (map (wired (dumped sy infos facts) vfs) (dumped sy infos facts)) bn"
proof -
  let ?out = "dumped sy infos facts"
  let ?pos = "last_position ?out"
  let ?low = "\<lambda>p l :: link. l\<lparr>l_lowers := l_lowers l @ [p]\<rparr>"
  let ?vf = "\<lambda>v l :: link. l\<lparr>l_vf_netdevs := l_vf_netdevs l @ [v]\<rparr>"
  have ix: "map l_index ?out = map li_index infos"
    using links_from_infos_fields by (simp add: dumped_def)
  have pos: "?pos i = Some k \<longleftrightarrow> k < length ?out \<and> l_index (?out ! k) = i" for i k
    using last_position_iff ix assms by simp
  let ?out1 = "map (\<lambda>l. l\<lparr>l_lowers := l_lowers l @ pushed_to (port_edges ?out) l\<rparr>) ?out"
  have one: "fold (push_at ?pos ?low) (port_edges ?out) ?out = ?out1"
    by (subst fold_push_at) (use pos in \<open>simp_all add: fold_push_lowers\<close>)
  have two: "fold (push_at ?pos ?vf) es ?out1
      = map (\<lambda>l. l\<lparr>l_vf_netdevs := l_vf_netdevs l @ pushed_to es l\<rparr>) ?out1" for es
    by (subst fold_push_at) (use pos in \<open>auto simp: fold_push_vfs\<close>)
  let ?es = "concat (map (\<lambda>l. map (\<lambda>pf. (pf, l_index l)) (l_pf_netdevs l)) ?out1)"
  let ?vfs = "\<lambda>l. sort (l_vf_netdevs l @ pushed_to ?es l)"
  let ?bn = "fold (\<lambda>l m. m(li_name l \<mapsto> li_index l)) infos Map.empty"
  have "fst (from_links sy infos facts)
      = assemble (map (\<lambda>l. l\<lparr>l_vf_netdevs := sort (l_vf_netdevs l)\<rparr>)
          (fold (push_at ?pos ?vf) ?es ?out1)) ?bn"
    unfolding one [symmetric] unfolding port_edges_def dumped_def
    by (simp only: from_links_def Let_def case_prod_beta fst_conv)
  also have "map (\<lambda>l. l\<lparr>l_vf_netdevs := sort (l_vf_netdevs l)\<rparr>)
        (fold (push_at ?pos ?vf) ?es ?out1) = map (wired ?out ?vfs) ?out"
    unfolding two by (simp add: wired_def comp_def)
  finally show thesis by (rule that)
qed

lemma wired_fields [simp]:
  "l_index (wired out vfs l) = l_index l" "l_uppers (wired out vfs l) = l_uppers l"
  "l_master (wired out vfs l) = l_master l"
  "l_lowers (wired out vfs l) = l_lowers l @ pushed_to (port_edges out) l"
  by (simp_all add: wired_def)

lemma from_links_facts:
  assumes distinct: "distinct (map li_index infos)"
    and T_def: "T = fst (from_links sy infos facts)"
  shows "(a, b) \<in> edges T l_uppers \<longleftrightarrow> at T a \<noteq> None \<and> (b, a) \<in> edges T l_lowers"
    and "at T i = Some k \<Longrightarrow> l_index k = i"
    and "at T i = Some k \<Longrightarrow> l_master k = Some m \<Longrightarrow> at T m \<noteq> None \<Longrightarrow> (m, i) \<in> edges T l_lowers"
proof -
  let ?out = "dumped sy infos facts"
  have out: "map l_index ?out = map li_index infos" "\<forall>l \<in> set ?out. l_uppers l = []"
    using links_from_infos_fields unfolding dumped_def by (metis, blast)
  obtain vfs bn where T: "T = assemble (map (wired ?out vfs) ?out) bn"
    using from_links_assembles [OF distinct] T_def by metis
  let ?ls = "map (wired ?out vfs) ?out"
  have ix: "distinct (map l_index ?ls)" using distinct out(1) by (simp add: comp_def)
  show "(a, b) \<in> edges T l_uppers \<longleftrightarrow> at T a \<noteq> None \<and> (b, a) \<in> edges T l_lowers"
    unfolding T by (rule assemble_edges [OF ix]) (use out(2) in auto)
  show "at T i = Some k \<Longrightarrow> l_index k = i" by (auto simp: T assemble_at [OF ix])
  assume k: "at T i = Some k" "l_master k = Some m" and m: "at T m \<noteq> None"
  obtain l where l: "l \<in> set ?out" "l_index l = i" "l_master l = Some m"
    using k by (auto simp: T assemble_at [OF ix])
  then have "(m, i) \<in> set (port_edges ?out)"
    by (force simp: port_edges_def set_map_filter_eq)
  moreover obtain j where "at T m = Some j" using m by blast
  then obtain h where "at T m = Some j" "h \<in> set ?out" "l_index h = m"
      "l_lowers j = l_lowers h @ pushed_to (port_edges ?out) h"
    by (auto simp: T assemble_at [OF ix])
  ultimately show "(m, i) \<in> edges T l_lowers" by (force simp: edges_def)
qed

text \<open>
  The contract between a graph with two directions of edges and whoever walks it: on the nodes that
  are there, going up is going down backwards.
\<close>

locale inverse_edges =
  fixes dn up :: "'t \<Rightarrow> ('n \<times> 'n) set"
    and here :: "'t \<Rightarrow> 'n set"
    and valid :: "'t \<Rightarrow> bool"
  assumes turned: "valid t \<Longrightarrow> (a, b) \<in> up t \<longleftrightarrow> a \<in> here t \<and> (b, a) \<in> dn t"
    and from_here: "(a, b) \<in> dn t \<Longrightarrow> a \<in> here t"
begin

lemma down_star_here: "(y, x) \<in> (dn t)\<^sup>* \<Longrightarrow> x \<in> here t \<Longrightarrow> y \<in> here t"
  by (cases rule: converse_rtranclE) (auto dest: from_here)

lemma up_star:
  assumes "valid t" "x \<in> here t"
  shows "(x, y) \<in> (up t)\<^sup>* \<longleftrightarrow> (y, x) \<in> (dn t)\<^sup>*"
proof
  show "(x, y) \<in> (up t)\<^sup>* \<Longrightarrow> (y, x) \<in> (dn t)\<^sup>*"
    by (induction rule: rtrancl_induct)
      (use turned [OF assms(1)] in \<open>auto intro: converse_rtrancl_into_rtrancl\<close>)
  show "(y, x) \<in> (dn t)\<^sup>* \<Longrightarrow> (x, y) \<in> (up t)\<^sup>*"
  proof (induction rule: converse_rtrancl_induct)
    case (step y z)
    then have "z \<in> here t" using down_star_here assms(2) by blast
    then show ?case using step turned [OF assms(1)] by (auto intro: rtrancl_into_rtrancl)
  qed simp
qed

end

definition built :: "sysfs \<times> link_info list \<times> (ifindex \<rightharpoonup> device_facts) \<Rightarrow> topology" where
  "built t = (case t of (sy, infos, facts) \<Rightarrow> fst (from_links sy infos facts))"

interpretation dump_graph: inverse_edges
  "\<lambda>t. edges (built t) l_lowers" "\<lambda>t. edges (built t) l_uppers"
  "\<lambda>t. {i. at (built t) i \<noteq> None}" "\<lambda>t. distinct (map li_index (fst (snd t)))"
proof unfold_locales
  fix t :: "sysfs \<times> link_info list \<times> (ifindex \<rightharpoonup> device_facts)" and a b
  assume "distinct (map li_index (fst (snd t)))"
  then show "(a, b) \<in> edges (built t) l_uppers
      \<longleftrightarrow> a \<in> {i. at (built t) i \<noteq> None} \<and> (b, a) \<in> edges (built t) l_lowers"
    using from_links_facts(1) by (cases t) (simp add: built_def)
qed (auto simp: edges_def)

text \<open>C34: "Hangs below" is one relation. In the graph \<open>from_links\<close> builds out of a dump that lists
  each index once, for an interface \<open>x\<close> that is there, three walks agree: going down from \<open>y\<close> and
  stopping at the first hit (\<open>leads_to\<close>), collecting all that is at or below \<open>y\<close> (\<open>subtree_of\<close>) and
  climbing the inverse edges from \<open>x\<close> (\<open>stacked_above\<close>).\<close>

theorem below_is_one_relation:
  assumes "distinct (map li_index infos)"
    and "T = fst (from_links sy infos facts)" and "at T x \<noteq> None"
  shows "(y \<in> stacked_above T x) = leads_to T y x \<and> (x \<in> subtree_of T [y]) = leads_to T y x"
  using dump_graph.up_star [of "(sy, infos, facts)" x y] assms
  by (simp add: stacked_above_def subtree_of_def flood_reachable leads_to_reachable built_def)

text \<open>A bridge with one port that carries a VLAN, on a machine without devices.\<close>

definition bare_info :: "ifindex \<Rightarrow> name \<Rightarrow> link_info" where
  "bare_info i n = empty_link_info\<lparr>li_index := i, li_name := n\<rparr>"

definition no_sysfs :: sysfs where
  "no_sysfs = \<lparr>sy_device_dir = (\<lambda>_. False), sy_ifindex = (\<lambda>_. None), sy_ifindex_after = (\<lambda>_. None),
     sy_numvfs = (\<lambda>_. None), sy_facts = (\<lambda>_. default_facts)\<rparr>"

definition small_dump :: "link_info list" where
  "small_dump =
     [bare_info 1 ''br0''\<lparr>li_kind := Some ''bridge''\<rparr>, bare_info 2 ''eth0''\<lparr>li_master := Some 1\<rparr>,
      bare_info 3 ''eth0.5''\<lparr>li_kind := Some ''vlan'', li_link := Some 2\<rparr>]"

definition small_graph :: topology where
  "small_graph = fst (from_links no_sysfs small_dump Map.empty)"

lemma below_is_one_relation_witness:
  "3 \<in> stacked_above small_graph 2 \<and> 2 \<in> subtree_of small_graph [3] \<and> leads_to small_graph 3 2"
proof -
  have d: "distinct (map li_index small_dump)" by code_simp
  have "at small_graph 2 \<noteq> None" by code_simp
  note one = below_is_one_relation [OF d small_graph_def this, of 3]
  have "leads_to small_graph 3 2" by code_simp
  with one show ?thesis by simp
qed

section \<open>The bridge above\<close>

definition under_bond :: "topology \<Rightarrow> (ifindex \<times> ifindex) set" where
  "under_bond T = {(a, m). \<exists>l. at T a = Some l \<and> l_master l = Some m \<and> \<not> is_bridge T m}"

lemma under_bond_single: "(a, m) \<in> under_bond T \<Longrightarrow> (a, n) \<in> under_bond T \<Longrightarrow> m = n"
  by (auto simp: under_bond_def)

definition port_of_bridge :: "topology \<Rightarrow> ifindex \<Rightarrow> ifindex \<Rightarrow> bool" where
  "port_of_bridge T port br
     \<longleftrightarrow> (\<exists>l. at T port = Some l \<and> l_master l = Some br) \<and> is_bridge T br"

lemma port_of_bridge_ends: "port_of_bridge T port br \<Longrightarrow> (port, m) \<notin> under_bond T"
  by (auto simp: port_of_bridge_def under_bond_def)

lemma no_way_back:
  assumes "(cur, port) \<in> (under_bond T)\<^sup>*" "port_of_bridge T port br"
  shows "(cur, cur) \<notin> (under_bond T)\<^sup>+"
  using assms(1)
proof (induction rule: converse_rtrancl_induct)
  case base
  show ?case using port_of_bridge_ends [OF assms(2)] by (meson tranclD)
next
  case (step y z)
  show ?case
  proof
    assume "(y, y) \<in> (under_bond T)\<^sup>+"
    then obtain w where "(y, w) \<in> under_bond T" "(w, y) \<in> (under_bond T)\<^sup>*" by (meson tranclD)
    then have "(z, y) \<in> (under_bond T)\<^sup>*" using under_bond_single step(1) by blast
    then show False using step by (meson rtrancl_into_trancl1)
  qed
qed

lemma bridge_loop_sound:
  "bridge_loop T cur seen = Some (br, port)
     \<Longrightarrow> (cur, port) \<in> (under_bond T)\<^sup>* \<and> port_of_bridge T port br"
proof (induction T cur seen rule: bridge_loop.induct)
  case (1 T cur seen)
  then obtain l m where l: "cur \<notin> seen" "at T cur = Some l" "l_master l = Some m"
    by (subst (asm) (2) bridge_loop.simps) (auto split: if_splits option.splits)
  show ?case
  proof (cases "is_bridge T m")
    case True
    then show ?thesis
      using 1(2) l by (subst (asm) bridge_loop.simps) (auto simp: port_of_bridge_def)
  next
    case False
    then have "bridge_loop T m (insert cur seen) = Some (br, port)"
      using 1(2) l by (subst (asm) bridge_loop.simps) simp
    moreover have "(cur, m) \<in> under_bond T" using l False by (auto simp: under_bond_def)
    ultimately show ?thesis using 1(1) [OF l False] by (meson converse_rtrancl_into_rtrancl)
  qed
qed

lemma bridge_loop_complete:
  assumes "(cur, port) \<in> (under_bond T)\<^sup>*" "port_of_bridge T port br"
    and "\<forall>s \<in> seen. (cur, s) \<notin> (under_bond T)\<^sup>*"
  shows "bridge_loop T cur seen = Some (br, port)"
  using assms(1,3)
proof (induction arbitrary: seen rule: converse_rtrancl_induct)
  case base
  then have "port \<notin> seen" by blast
  then show ?case
    using assms(2) by (subst bridge_loop.simps) (auto simp: port_of_bridge_def)
next
  case (step y z)
  then obtain l where l: "at T y = Some l" "l_master l = Some z" "\<not> is_bridge T z"
    by (auto simp: under_bond_def)
  have "y \<notin> seen" using step.prems by blast
  moreover have "bridge_loop T z (insert y seen) = Some (br, port)"
  proof (rule step.IH)
    have "(z, y) \<notin> (under_bond T)\<^sup>*"
      using no_way_back [OF converse_rtrancl_into_rtrancl [OF step.hyps] assms(2)] step.hyps(1)
      by (meson rtrancl_into_trancl2)
    then show "\<forall>s \<in> insert y seen. (z, s) \<notin> (under_bond T)\<^sup>*"
      using step.prems step.hyps(1) by (auto intro: converse_rtrancl_into_rtrancl)
  qed
  ultimately show ?case using l by (subst bridge_loop.simps) simp
qed

text \<open>C36: \<open>bridge_above\<close> answers with the nearest bridge and the interface enslaved to it: through
  masters that are no bridges (bonds) up to the first interface whose master is one; and it answers
  nothing exactly when no such interface is above, cycles of masters included.\<close>

theorem bridge_above_is_the_nearest:
  "(bridge_above T dev = Some (br, port))
     = ((dev, port) \<in> (under_bond T)\<^sup>* \<and> port_of_bridge T port br)"
  using bridge_loop_sound bridge_loop_complete [where seen = "{}"] by (auto simp: bridge_above_def)

lemma bridge_aboveD:
  assumes "bridge_above T dev = Some (br, port)"
  shows "(dev, port) \<in> (under_bond T)\<^sup>*" "port_of_bridge T port br"
  using bridge_loop_sound assms unfolding bridge_above_def by blast+

section \<open>The functions behind an interface\<close>

definition own_functions :: "topology \<Rightarrow> ifindex \<Rightarrow> ifindex set" where
  "own_functions T i =
     (case at T i of
        None \<Rightarrow> {}
      | Some l \<Rightarrow> if l_pf_netdevs l \<noteq> [] then set (l_pf_netdevs l) else if 0 < l_numvfs l then {i} else {})"

definition looks_through :: "link \<Rightarrow> ifindex list" where
  "looks_through l =
     (if l_pf_netdevs l \<noteq> [] \<or> 0 < l_numvfs l \<or> l_is_bridge l then []
      else l_slaves l @ (case l_filter_below l of None \<Rightarrow> [] | Some p \<Rightarrow> [p]))"

lemma pf_loop_visits:
  "set (pf_loop T stack seen out)
     = set out \<union> \<Union> (own_functions T ` (flood_loop T looks_through stack seen - seen))"
proof (induction T stack seen out rule: pf_loop.induct)
  case (2 T cur stack seen out)
  show ?case
  proof (cases "cur \<in> seen")
    case True
    then show ?thesis using 2(1) by simp
  next
    case fresh: False
    have split: "\<Union> (own_functions T ` (A - seen))
        = own_functions T cur \<union> \<Union> (own_functions T ` (A - insert cur seen))" if "cur \<in> A" for A
      using fresh that by blast
    have here: "cur \<in> flood_loop T looks_through st (insert cur seen)" for st
      using flood_loop_grows by blast
    show ?thesis
    proof (cases "at T cur")
      case None
      then show ?thesis
        using 2(2) [OF fresh None] fresh split [OF here] by (simp add: own_functions_def)
    next
      case (Some l)
      have rev: "rev (l_slaves l @ (case l_filter_below l of None \<Rightarrow> [] | Some p \<Rightarrow> [p]))
          = (case l_filter_below l of None \<Rightarrow> [] | Some p \<Rightarrow> [p]) @ rev (l_slaves l)"
        by (simp split: option.splits)
      consider "l_pf_netdevs l \<noteq> []" | "l_pf_netdevs l = []" "0 < l_numvfs l"
        | "l_pf_netdevs l = []" "\<not> 0 < l_numvfs l" "\<not> l_is_bridge l"
        | "l_pf_netdevs l = []" "\<not> 0 < l_numvfs l" "l_is_bridge l" by blast
      then show ?thesis
      proof cases
        case 1
        then have "own_functions T cur = set (l_pf_netdevs l)" "looks_through l = []"
          using Some by (simp_all add: own_functions_def looks_through_def)
        then show ?thesis using 2(3) [OF fresh Some 1] 1 fresh Some split [OF here] by auto
      next
        case 2
        then have "own_functions T cur = {cur}" "looks_through l = []"
          using Some by (simp_all add: own_functions_def looks_through_def)
        then show ?thesis using "2.IH"(4) [OF fresh Some] 2 fresh Some split [OF here] by auto
      next
        case 3
        then have "own_functions T cur = {}" "rev (looks_through l)
            = (case l_filter_below l of None \<Rightarrow> [] | Some p \<Rightarrow> [p]) @ rev (l_slaves l)"
          using Some rev by (simp_all add: own_functions_def looks_through_def)
        then show ?thesis using "2.IH"(5) [OF fresh Some] 3 fresh Some split [OF here] by simp
      next
        case 4
        then have "own_functions T cur = {}" "looks_through l = []"
          using Some by (simp_all add: own_functions_def looks_through_def)
        then show ?thesis using "2.IH"(6) [OF fresh Some] 4 fresh Some split [OF here] by simp
      qed
    qed
  qed
qed simp

lemma remdups_adj_sorted_strict: "sorted xs \<Longrightarrow> sorted_wrt (<) (remdups_adj xs)"
  for xs :: "'a::linorder list"
  by (induction xs rule: remdups_adj.induct) (auto simp: order.strict_iff_order)

text \<open>\<open>physical_functions\<close> is, in index order and without repetition, every physical function
  behind an interface: through bonds and VLANs, never through a bridge, never past an interface that
  names its functions or is one.\<close>

lemma physical_functions_are_those_behind:
  "sorted_wrt (<) (physical_functions T dev)
   \<and> set (physical_functions T dev)
       = \<Union> (own_functions T ` ((edges T looks_through)\<^sup>* `` {dev}))"
  using flood_reachable [of T "[dev]" looks_through]
  by (simp add: physical_functions_def pf_loop_visits remdups_adj_sorted_strict flood_def
      del: pf_loop.simps flood_loop.simps)

section \<open>Autodetection\<close>

abbreviation functions_behind :: "topology \<Rightarrow> link \<Rightarrow> ifindex list" where
  "functions_behind T l \<equiv> physical_functions T (filter_carrier T (l_index l))"

definition bridge_over :: "topology \<Rightarrow> link \<Rightarrow> ifindex" where
  "bridge_over T l = (case bridge_above T (l_index l) of None \<Rightarrow> 0 | Some (br, _) \<Rightarrow> br)"

text \<open>Two uplinks on one segment with no function in common, or two on different segments.\<close>

definition apart :: "topology \<Rightarrow> link \<Rightarrow> link \<Rightarrow> bool" where
  "apart T k l \<longleftrightarrow>
     (if stacked_related T (bridge_over T k) (bridge_over T l)
      then set (functions_behind T k) \<inter> set (functions_behind T l) = {} else True)"

text \<open>An uplink none of whose functions, itself aside, sits on its segment as well.\<close>

definition carries_alone :: "topology \<Rightarrow> link \<Rightarrow> bool" where
  "carries_alone T l \<longleftrightarrow>
     (\<forall>pf \<in> set (functions_behind T l) - {l_index l}.
        case bridge_above T pf of
          None \<Rightarrow> True
        | Some (b, _) \<Rightarrow> \<not> stacked_related T b (bridge_over T l))"

definition eligible :: "topology \<Rightarrow> link \<Rightarrow> bool" where
  "eligible T l \<longleftrightarrow> l \<in> set (link_values T) \<and> could_be_uplink T l
     \<and> bridge_above T (l_index l) \<noteq> None \<and> carries_alone T l"

definition taken_by :: "topology \<Rightarrow> link list \<Rightarrow> detection \<Rightarrow> bool" where
  "taken_by T ls D \<longleftrightarrow>
     d_pairs D = map (\<lambda>l. (l_name l, name_or_empty T (bridge_over T l))) ls
     \<and> d_taken D = map (\<lambda>l. (functions_behind T l, bridge_over T l, l_name l)) ls
     \<and> Ball (set ls) (eligible T) \<and> sorted_wrt (apart T) ls"

lemma anatomy_functions:
  "anatomy_of T dev br = Some an
     \<Longrightarrow> a_functions an = physical_functions T (filter_carrier T dev) \<and> a_dev an = dev
         \<and> a_bridge an = br \<and> uplink_port T dev br = Some (a_port an)"
  by (auto simp: anatomy_of_def Let_def split: option.splits)

lemma taken_by_skip: "taken_by T ls D \<Longrightarrow> taken_by T ls (D\<lparr>d_skipped := xs\<rparr>)"
  by (simp add: taken_by_def)

lemma detect_step_takes:
  assumes "taken_by T ls D" "l \<in> set (link_values T)"
  shows "\<exists>ls'. taken_by T ls' (detect_step T l D)"
proof (cases "\<exists>br port an. could_be_uplink T l \<and> bridge_above T (l_index l) = Some (br, port)
    \<and> anatomy_of T (l_index l) br = Some an")
  case False
  then have "\<exists>xs. detect_step T l D = D \<or> detect_step T l D = D\<lparr>d_skipped := xs\<rparr>"
    by (auto simp: detect_step_def split: option.splits)
  then show ?thesis using assms(1) taken_by_skip by metis
next
  case True
  then obtain br port an where
    l: "could_be_uplink T l" "bridge_above T (l_index l) = Some (br, port)"
      "anatomy_of T (l_index l) br = Some an" by blast
  have br: "bridge_over T l = br" using l(2) by (simp add: bridge_over_def)
  have fns: "a_functions an = functions_behind T l" using anatomy_functions [OF l(3)] by simp
  let ?carrier = "find (\<lambda>pf. pf \<noteq> l_index l \<and> (case bridge_above T pf of None \<Rightarrow> False
      | Some (b, _) \<Rightarrow> stacked_related T b br)) (a_functions an)"
  let ?taken = "find (\<lambda>(f, b, _). stacked_related T b br
      \<and> list_ex (\<lambda>x. x \<in> set (a_functions an)) f) (d_taken D)"
  show ?thesis
  proof (cases "?carrier = None \<and> ?taken = None")
    case False
    have "\<exists>xs. detect_step T l D = D\<lparr>d_skipped := xs\<rparr>"
    proof (cases ?carrier)
      case (Some pf)
      then show ?thesis using l by (simp add: detect_step_def Let_def) blast
    next
      case None
      then obtain t where "?taken = Some t" using False by (cases ?taken) simp_all
      then show ?thesis
        using l None by (cases t) (simp add: detect_step_def Let_def, blast)
    qed
    then show ?thesis using assms(1) taken_by_skip by metis
  next
    case free: True
    have "carries_alone T l"
      using free unfolding carries_alone_def br fns find_None_iff by (fastforce split: option.splits)
    then have "eligible T l" using l assms(2) by (simp add: eligible_def)
    moreover have "apart T k l" if "k \<in> set ls" for k
    proof -
      have "(functions_behind T k, bridge_over T k, l_name k) \<in> set (d_taken D)"
        using assms(1) that by (auto simp: taken_by_def)
      then show ?thesis
        using free unfolding apart_def br fns find_None_iff by (fastforce simp: list_ex_iff)
    qed
    ultimately have "taken_by T (ls @ [l]) (D\<lparr>
        d_skipped := d_skipped D @
          (if port \<noteq> l_index l
           then [ReachesThrough (l_name l) (name_or_empty T br) (name_or_empty T port)] else []),
        d_taken := d_taken D @ [(a_functions an, br, l_name l)],
        d_pairs := d_pairs D @ [(l_name l, name_or_empty T br)]\<rparr>)"
      using assms(1) by (simp add: taken_by_def sorted_wrt_append br fns)
    moreover have "detect_step T l D = D\<lparr>
        d_skipped := d_skipped D @
          (if port \<noteq> l_index l
           then [ReachesThrough (l_name l) (name_or_empty T br) (name_or_empty T port)] else []),
        d_taken := d_taken D @ [(a_functions an, br, l_name l)],
        d_pairs := d_pairs D @ [(l_name l, name_or_empty T br)]\<rparr>"
      using l free by (simp add: detect_step_def Let_def)
    ultimately show ?thesis by metis
  qed
qed

lemma detect_fold_takes:
  "set cands \<subseteq> set (link_values T) \<Longrightarrow> taken_by T ls D \<Longrightarrow> \<exists>ls'. taken_by T ls' (fold (detect_step T) cands D)"
proof (induction cands arbitrary: ls D)
  case (Cons l cands)
  then obtain ls' where "taken_by T ls' (detect_step T l D)" using detect_step_takes by (metis list.set_intros(1) subsetD)
  then show ?case using Cons by simp
qed auto


end
