(* ===== verification/Decide_Laws.thy ===== *)
theory Decide_Laws
  imports Decide Graph_Laws
begin

text \<open>
  Laws of the deciding half of a pass: exactly which addresses are wanted, that the card's own side
  is never among them, that what is known about an address's last word only grows, and that the
  keeps surrendered under pressure are the fewest and the oldest.
\<close>

section \<open>A machine to look at\<close>

text \<open>One card with four virtual functions as the uplink of a bridge, a guest behind it.\<close>

definition one_card :: sysfs where
  "one_card = no_sysfs\<lparr>sy_device_dir := (\<lambda>n. n = ''eth0''),
     sy_ifindex := (\<lambda>n. if n = ''eth0'' then Some 2 else None),
     sy_ifindex_after := (\<lambda>n. if n = ''eth0'' then Some 2 else None),
     sy_numvfs := (\<lambda>n. if n = ''eth0'' then Some 4 else None)\<rparr>"

definition card_dump :: "link_info list" where
  "card_dump =
     [bare_info 1 ''br0''\<lparr>li_kind := Some ''bridge'', li_mac := Some (Mac 2 0 0 0 0 1)\<rparr>,
      bare_info 2 ''eth0''\<lparr>li_master := Some 1, li_mac := Some (Mac 2 0 0 0 0 2)\<rparr>,
      bare_info 3 ''tap0''\<lparr>li_master := Some 1\<rparr>]"

definition card_graph :: topology where
  "card_graph = fst (from_links one_card card_dump Map.empty)"

definition card_anatomy :: anatomy where
  "card_anatomy =
     \<lparr>a_dev = 2, a_bridge = 1, a_port = 2, a_card = 2, a_functions = [2], a_siblings = []\<rparr>"

definition blank_disk :: disk where
  "blank_disk = \<lparr>dk_files = [], dk_next_ino = 1, dk_clock = 0, dk_now = 1\<rparr>"

definition card_syncer :: syncer where
  "card_syncer = new_syncer [\<lparr>p_dev = ''eth0'', p_bridge = ''br0''\<rparr>] blank_disk"

abbreviation guest :: mac where "guest \<equiv> Mac 2 0 0 0 0 170"
abbreviation outsider :: mac where "outsider \<equiv> Mac 2 0 0 0 0 187"

definition learnt_on :: "ifindex \<Rightarrow> mac \<Rightarrow> fdb_entry" where
  "learnt_on i m = \<lparr>fe_ifindex = i, fe_master = Some 1, fe_mac = m, fe_state = 2, fe_flags = 0\<rparr>"

definition card_fdb :: "fdb_entry list" where
  "card_fdb = [learnt_on 3 guest, learnt_on 2 outsider]"

lemma card_anatomy_is: "anatomy_of card_graph 2 1 = Some card_anatomy"
  by code_simp

section \<open>Who was seen where\<close>

definition counted :: "fdb_entry list \<Rightarrow> fdb_entry set" where
  "counted fdb = {e \<in> set fdb. is_learned e \<and> is_unicast e \<and> fe_master e \<noteq> None}"

definition sight_of :: "anatomy \<Rightarrow> reach \<Rightarrow> fdb_entry \<Rightarrow> learn" where
  "sight_of an R e =
     (if fe_ifindex e \<in> set (a_siblings an) then Wire
      else classify R (fe_ifindex e) (the (fe_master e)) (a_port an))"

definition seen_as :: "learn \<Rightarrow> anatomy \<Rightarrow> reach \<Rightarrow> fdb_entry list \<Rightarrow> mac set" where
  "seen_as how an R fdb = fe_mac ` {e \<in> counted fdb. sight_of an R e = how}"

lemma counted_Cons: "counted (e # fdb)
    = (if is_learned e \<and> is_unicast e \<and> fe_master e \<noteq> None then {e} else {}) \<union> counted fdb"
  by (auto simp: counted_def)

lemma seen_as_Cons: "seen_as how an R (e # fdb)
    = (if is_learned e \<and> is_unicast e \<and> fe_master e \<noteq> None \<and> sight_of an R e = how
       then {fe_mac e} else {}) \<union> seen_as how an R fdb"
  by (auto simp: seen_as_def counted_Cons)

lemma sight_foldl:
  "s_want (foldl (sight an R) acc fdb) = s_want acc \<union> seen_as Behind an R fdb
   \<and> s_wire (foldl (sight an R) acc fdb) = s_wire acc \<union> seen_as Wire an R fdb"
proof (induction fdb arbitrary: acc)
  case Nil
  show ?case by (simp add: seen_as_def counted_def)
next
  case (Cons e fdb)
  show ?case
  proof (cases "is_learned e \<and> is_unicast e \<and> fe_master e \<noteq> None")
    case False
    then have "sight an R acc e = acc" by (auto simp: sight_def)
    then show ?thesis using False Cons by (auto simp: seen_as_Cons)
  next
    case True
    then show ?thesis
      using Cons [of "sight an R acc e"]
      by (auto simp: seen_as_Cons sight_of_def sight_def split: learn.splits)
  qed
qed

lemma sightings_sets:
  "s_want (sightings an R fdb) = seen_as Behind an R fdb"
  "s_wire (sightings an R fdb) = seen_as Wire an R fdb"
  using sight_foldl [of an R _ fdb] by (simp_all add: sightings_def)

section \<open>What is wanted\<close>

text \<open>An owned address whose remembered port still hangs below the bridge, away from the wire.\<close>

definition kept_quiet :: "syncer \<Rightarrow> topology \<Rightarrow> anatomy \<Rightarrow> mac set" where
  "kept_quiet S T an =
     {m. \<exists>n ps p t. name_of T (a_dev an) = Some n \<and> sy_carried_ports S n = Some ps
          \<and> map_of ps m = Some (p, t)
          \<and> p \<notin> subtree_of T [a_port an] \<union> set (a_siblings an)
          \<and> still_behind T (reach_of T (a_bridge an)) p}"

lemma quiet_survivors_eq:
  "quiet_survivors S T an (reach_of T (a_bridge an)) skip want wire owned
     = {m \<in> owned \<inter> kept_quiet S T an. m \<notin> want \<and> m \<notin> wire \<and> m \<notin> skip \<and> is_registerable m}"
  by (auto simp: quiet_survivors_def kept_quiet_def survives_def split: option.splits)

lemma anatomy_bridge_here:
  assumes "anatomy_of T dev br = Some an"
  obtains bl where "at T br = Some bl" "a_bridge an = br" "a_dev an = dev"
    "bridge_above T dev = Some (br, a_port an)"
proof -
  have up: "uplink_port T dev br = Some (a_port an)" "a_bridge an = br" "a_dev an = dev"
    using anatomy_functions [OF assms] by auto
  then have "bridge_above T dev = Some (br, a_port an)"
    by (auto simp: uplink_port_def split: option.splits if_splits)
  moreover from bridge_aboveD(2) [OF this] obtain bl where "at T br = Some bl"
    by (auto simp: port_of_bridge_def is_bridge_def split: option.splits)
  ultimately show thesis using up that by metis
qed

abbreviation sources_of_want :: "syncer \<Rightarrow> topology \<Rightarrow> anatomy \<Rightarrow> fdb_entry list \<Rightarrow> mac set \<Rightarrow> mac set" where
  "sources_of_want S T an fdb owned \<equiv>
     seen_as Behind an (reach_of T (a_bridge an)) fdb \<union> mac_at T (a_bridge an)
     \<union> ward_macs T (a_bridge an) \<union> sy_extra S \<union> (owned \<inter> kept_quiet S T an)"

lemma wanted_unfold:
  assumes "at T (a_bridge an) = Some bl"
    and w: "w = wanted_with_keeps S T an fdb vfs owned"
  shows "w_wire w = seen_as Wire an (reach_of T (a_bridge an)) fdb"
    and "w_want w = {m \<in> sources_of_want S T an fdb owned. is_registerable m
           \<and> m \<notin> exclusions S T an vfs \<and> m \<notin> seen_as Wire an (reach_of T (a_bridge an)) fdb}"
    and "w_kept w \<subseteq> w_want w"
    and "w_kept w \<subseteq> owned"
  using assms(1)
  by (auto simp: w wanted_with_keeps_def desired_def Let_def sightings_sets
      quiet_survivors_eq mac_at_def)

text \<open>C14: Exactly what belongs in an uplink's filter. With the anatomy known, a pass wants an address
  when it is registerable, not excluded and not learnt on the wire side (the port itself or a sibling
  on the same card), and is learnt behind the bridge, or belongs to the bridge or an interface stacked
  on it, or was asked for, or is owned already and its remembered port still hangs below the bridge.\<close>

theorem wanted_exactly:
  assumes "anatomy_of T dev br = Some an"
  shows "w_want (wanted_with_keeps S T an fdb vfs owned)
    = {m \<in> seen_as Behind an (reach_of T br) fdb \<union> mac_at T br \<union> ward_macs T br \<union> sy_extra S
           \<union> (owned \<inter> kept_quiet S T an).
       is_registerable m \<and> m \<notin> exclusions S T an vfs \<and> m \<notin> seen_as Wire an (reach_of T br) fdb}"
proof -
  obtain bl where "at T br = Some bl" "a_bridge an = br" using anatomy_bridge_here [OF assms] .
  then show ?thesis using wanted_unfold(2) [of T an bl _ S fdb vfs owned] by simp
qed

lemma wanted_exactly_witness:
  "guest \<in> w_want (wanted_with_keeps card_syncer card_graph card_anatomy card_fdb [] {})
   \<and> outsider \<notin> w_want (wanted_with_keeps card_syncer card_graph card_anatomy card_fdb [] {})"
proof -
  have "guest \<in> seen_as Behind card_anatomy (reach_of card_graph 1) card_fdb"
    "guest \<notin> seen_as Wire card_anatomy (reach_of card_graph 1) card_fdb"
    "outsider \<in> seen_as Wire card_anatomy (reach_of card_graph 1) card_fdb"
    "guest \<notin> exclusions card_syncer card_graph card_anatomy []" "is_registerable guest"
    by code_simp+
  then show ?thesis
    using wanted_exactly [OF card_anatomy_is, of card_syncer card_fdb "[]" "{}"] by simp
qed

text \<open>The interfaces on the wire side of an uplink.\<close>

definition wire_side :: "topology \<Rightarrow> anatomy \<Rightarrow> ifindex set" where
  "wire_side T an =
     insert (a_dev an) (set (a_functions an))
     \<union> {x. leads_to T (a_port an) x}
     \<union> \<Union> ((\<lambda>pf. case at T pf of None \<Rightarrow> {} | Some l \<Rightarrow> set (l_vf_netdevs l)) ` set (a_functions an))"

text \<open>C15: The card's own side stays out. No address of the uplink itself, of anything at or below its
  port, of a physical function behind it, of a virtual function's interface or of one the kernel
  reports for a virtual function is ever wanted.\<close>

theorem wire_side_is_never_wanted:
  assumes "anatomy_of T dev br = Some an"
  shows "w_want (wanted_with_keeps S T an fdb vfs owned)
    \<inter> (\<Union> (mac_at T ` wire_side T an) \<union> vf_reported (a_functions an) vfs) = {}"
proof -
  have "subtree_of T [a_port an] = {x. leads_to T (a_port an) x}"
    using flood_reachable [of T "[a_port an]" l_lowers] by (auto simp: subtree_of_def leads_to_reachable)
  then have port: "mac_at T x \<subseteq> subtree_macs T (a_port an)" if "leads_to T (a_port an) x" for x
    using that unfolding subtree_macs_def in_these_eq subset_iff
    by (force simp: mac_at_def split: option.splits)
  have fm: "mac_at T pf \<union> (case at T pf of None \<Rightarrow> {} | Some l \<Rightarrow> \<Union> (mac_at T ` set (l_vf_netdevs l)))
      = function_macs T pf" for pf
    by (cases "at T pf") (simp_all add: function_macs_def mac_at_def)
  have "\<Union> (mac_at T ` wire_side T an)
      = mac_at T (a_dev an) \<union> \<Union> (mac_at T ` {x. leads_to T (a_port an) x})
        \<union> \<Union> (function_macs T ` set (a_functions an))"
    unfolding fm [symmetric] by (auto simp: wire_side_def split: option.splits)
  also have "\<dots> \<subseteq> exclusions S T an vfs"
    using port by (auto simp: exclusions_def)
  finally have out: "\<Union> (mac_at T ` wire_side T an) \<union> vf_reported (a_functions an) vfs
      \<subseteq> exclusions S T an vfs"
    by (auto simp: exclusions_def)
  obtain bl where "at T (a_bridge an) = Some bl" using anatomy_bridge_here [OF assms] by metis
  then have "w_want (wanted_with_keeps S T an fdb vfs owned) \<inter> exclusions S T an vfs = {}"
    using wanted_unfold(2) [OF _ refl, of T an bl S fdb vfs owned] by blast
  with out show ?thesis by blast
qed

lemma wire_side_is_never_wanted_witness:
  "mac_at card_graph 2 = {Mac 2 0 0 0 0 2}
   \<and> Mac 2 0 0 0 0 2 \<notin> w_want (wanted_with_keeps card_syncer card_graph card_anatomy
        (learnt_on 3 (Mac 2 0 0 0 0 2) # card_fdb) [] {})"
proof -
  have own: "mac_at card_graph 2 = {Mac 2 0 0 0 0 2}" by code_simp
  moreover have "2 \<in> wire_side card_graph card_anatomy"
    by (simp add: wire_side_def card_anatomy_def)
  ultimately show ?thesis
    using wire_side_is_never_wanted [OF card_anatomy_is, of card_syncer
        "learnt_on 3 (Mac 2 0 0 0 0 2) # card_fdb" "[]" "{}"] by auto
qed

section \<open>Stamps\<close>

lemma note_seen_later:
  "stamp_of ps m' \<le> stamp_of (note_seen ps m port t) m'"
  "m' \<noteq> m \<Longrightarrow> map_of (note_seen ps m port t) m' = map_of ps m'"
  by (auto simp: note_seen_def stamp_of_def update_conv' split: option.splits prod.splits)

lemma note_seen_None_ports:
  "map_option fst (map_of (note_seen ps m None t) m') = map_option fst (map_of ps m')"
  by (auto simp: note_seen_def update_conv' split: option.splits)

text \<open>Memory \<open>ps'\<close> knows what \<open>ps\<close> knew, the same ports, with stamps that are no older.\<close>

definition later :: "ports option \<Rightarrow> ports option \<Rightarrow> bool" where
  "later a b \<longleftrightarrow> (case (a, b) of
       (None, None) \<Rightarrow> True
     | (Some ps, Some qs) \<Rightarrow>
         (\<forall>m. stamp_of ps m \<le> stamp_of qs m \<and> map_option fst (map_of ps m) = map_option fst (map_of qs m))
     | _ \<Rightarrow> False)"

lemma later_refl [simp]: "later a a"
  by (simp add: later_def split: option.splits)

lemma later_trans: "later a b \<Longrightarrow> later b c \<Longrightarrow> later a c"
  by (auto simp: later_def split: option.splits intro: le_trans)

lemma date_pair_later: "later (cp dev) (date_pair m spoke p cp dev)"
  by (auto simp: date_pair_def later_def note_seen_later note_seen_None_ports split: option.splits)

lemma date_pairs_later: "later (cp dev) (fold (date_pair m spoke) ps cp dev)"
  by (induction ps arbitrary: cp) (auto intro: later_trans date_pair_later)

lemma date_pairs_other: "dev \<notin> p_dev ` set ps \<Longrightarrow> fold (date_pair m spoke) ps cp dev = cp dev"
  by (induction ps arbitrary: cp) (auto simp: date_pair_def split: option.splits)

text \<open>The bridges whose entries an event batch lets go.\<close>

definition masters_let_go :: "(u16 \<times> fdb_entry) list \<Rightarrow> ifindex set" where
  "masters_let_go evs = Option.these ((\<lambda>(kind, e). if kind = RTM_DELNEIGH then fe_master e else None) ` set evs)"

lemma date_event_shape:
  "date_event T now ev S = S
   \<or> (\<exists>master \<in> masters_let_go [ev]. \<exists>m spoke. date_event T now ev S = S\<lparr>sy_carried_ports :=
         fold (date_pair m spoke) (serves S T master) (sy_carried_ports S)\<rparr>)"
proof (cases "\<exists>e master l ageing. ev = (RTM_DELNEIGH, e) \<and> fe_master e = Some master
    \<and> at T master = Some l \<and> l_ageing_ms l = Some ageing")
  case True
  then obtain e master l ageing where ev: "ev = (RTM_DELNEIGH, e)" "fe_master e = Some master"
      "at T master = Some l" "l_ageing_ms l = Some ageing" by blast
  then have "master \<in> masters_let_go [ev]" by (simp add: masters_let_go_def in_these_eq)
  moreover have "date_event T now ev S = S\<lparr>sy_carried_ports :=
      fold (date_pair (fe_mac e) (now - ageing)) (serves S T master) (sy_carried_ports S)\<rparr>"
    using ev by (simp add: date_event_def)
  ultimately show ?thesis by blast
next
  case False
  then have "date_event T now ev S = S"
    by (cases ev) (auto simp: date_event_def split: option.splits)
  then show ?thesis by blast
qed

lemma changed_pairs: "{dev. fold (date_pair m spoke) ps cp dev \<noteq> cp dev} \<subseteq> p_dev ` set ps"
  using date_pairs_other by (metis (mono_tags, lifting) mem_Collect_eq subsetI)

lemma changed_trans:
  "{d. g d \<noteq> f d} \<subseteq> A \<Longrightarrow> {d. h d \<noteq> g d} \<subseteq> B \<Longrightarrow> {d. h d \<noteq> f d} \<subseteq> A \<union> B"
  unfolding subset_iff mem_Collect_eq Un_iff by metis

lemma masters_let_go_Cons: "masters_let_go (ev # evs) = masters_let_go [ev] \<union> masters_let_go evs"
  by (auto simp: masters_let_go_def in_these_eq)

text \<open>The uplinks behind the bridges whose entries an event batch lets go.\<close>

definition uplinks_let_go :: "syncer \<Rightarrow> topology \<Rightarrow> (u16 \<times> fdb_entry) list \<Rightarrow> name set" where
  "uplinks_let_go S T evs = \<Union> ((\<lambda>master. p_dev ` set (serves S T master)) ` masters_let_go evs)"

lemma date_event_step:
  "\<exists>cp. date_event T now ev S = S\<lparr>sy_carried_ports := cp\<rparr>
     \<and> (\<forall>dev. later (sy_carried_ports S dev) (cp dev))
     \<and> {dev. cp dev \<noteq> sy_carried_ports S dev} \<subseteq> uplinks_let_go S T [ev]"
  using date_event_shape [of T now ev S]
proof (elim disjE bexE exE)
  assume "date_event T now ev S = S"
  then show ?thesis by (intro exI [of _ "sy_carried_ports S"]) simp
next
  fix master m spoke
  let ?cp = "fold (date_pair m spoke) (serves S T master) (sy_carried_ports S)"
  assume "master \<in> masters_let_go [ev]" and step: "date_event T now ev S = S\<lparr>sy_carried_ports := ?cp\<rparr>"
  then have "p_dev ` set (serves S T master) \<subseteq> uplinks_let_go S T [ev]"
    unfolding uplinks_let_go_def by blast
  then have "{dev. ?cp dev \<noteq> sy_carried_ports S dev} \<subseteq> uplinks_let_go S T [ev]"
    using changed_pairs by (rule subset_trans [rotated])
  moreover have "\<forall>dev. later (sy_carried_ports S dev) (?cp dev)" by (simp add: date_pairs_later)
  ultimately show ?thesis using step by (intro exI [of _ ?cp]) simp
qed

lemma uplinks_let_go_Cons:
  "uplinks_let_go S T (ev # evs) = uplinks_let_go S T [ev] \<union> uplinks_let_go S T evs"
  unfolding uplinks_let_go_def masters_let_go_Cons [of ev evs] by blast

text \<open>C32: A silence is dated forward only, and only where it belongs. A batch of forwarding events
  leaves everything of the program's state as it was except stamps; those never move back, no port
  changes, no address is forgotten or added, and the memory changes for no uplink but those behind a
  bridge that let an entry go.\<close>

theorem silence_is_dated_forward:
  "\<exists>cp. date_the_silence T now evs S = S\<lparr>sy_carried_ports := cp\<rparr>
     \<and> (\<forall>dev. later (sy_carried_ports S dev) (cp dev))
     \<and> {dev. cp dev \<noteq> sy_carried_ports S dev} \<subseteq> uplinks_let_go S T evs"
proof (induction evs arbitrary: S)
  case Nil
  show ?case by (intro exI [of _ "sy_carried_ports S"]) (simp add: date_the_silence_def)
next
  case (Cons ev evs)
  obtain cp where one: "date_event T now ev S = S\<lparr>sy_carried_ports := cp\<rparr>"
      "\<forall>dev. later (sy_carried_ports S dev) (cp dev)"
      "{dev. cp dev \<noteq> sy_carried_ports S dev} \<subseteq> uplinks_let_go S T [ev]"
    using date_event_step [of T now ev S] by blast
  let ?S = "S\<lparr>sy_carried_ports := cp\<rparr>"
  obtain cq where two: "date_the_silence T now evs ?S = ?S\<lparr>sy_carried_ports := cq\<rparr>"
      "\<forall>dev. later (sy_carried_ports ?S dev) (cq dev)"
      "{dev. cq dev \<noteq> sy_carried_ports ?S dev} \<subseteq> uplinks_let_go ?S T evs"
    using Cons.IH [of ?S] by blast
  have same: "uplinks_let_go ?S T evs = uplinks_let_go S T evs"
    by (simp add: uplinks_let_go_def serves_def)
  have "date_the_silence T now (ev # evs) S = S\<lparr>sy_carried_ports := cq\<rparr>"
    using one(1) two(1) by (simp add: date_the_silence_def)
  moreover have "\<forall>dev. later (sy_carried_ports S dev) (cq dev)"
    using one(2) two(2) later_trans by fastforce
  moreover have "{dev. cq dev \<noteq> sy_carried_ports S dev} \<subseteq> uplinks_let_go S T (ev # evs)"
    using changed_trans [OF one(3), of cq "uplinks_let_go S T evs"] two(3)
    by (simp add: same uplinks_let_go_Cons [of S T ev evs])
  ultimately show ?case by blast
qed

section \<open>Pressure\<close>

lemma press_loop_prefix:
  "\<exists>n \<le> length order.
     press_loop limit reserve order occupied want kept shed
       = (want - set (map snd (take n order)), kept - set (map snd (take n order)), shed + n)
     \<and> (n = length order \<or> occupied - n + reserve \<le> limit)
     \<and> (\<forall>k < n. limit < occupied - k + reserve)"
proof (induction limit reserve order occupied want kept shed rule: press_loop.induct)
  case (2 limit reserve t m order occupied want kept shed)
  show ?case
  proof (cases "occupied + reserve \<le> limit")
    case True
    then show ?thesis by (intro exI [of _ 0]) simp
  next
    case False
    then obtain n where n: "n \<le> length order"
        "press_loop limit reserve order (occupied - 1) (want - {m}) (kept - {m}) (Suc shed)
           = (want - {m} - set (map snd (take n order)), kept - {m} - set (map snd (take n order)),
              Suc shed + n)"
        "n = length order \<or> occupied - 1 - n + reserve \<le> limit"
        "\<forall>k < n. limit < occupied - 1 - k + reserve"
      using 2 by blast
    have "limit < occupied - k + reserve" if "k < Suc n" for k
      using that n(4) False by (cases k) auto
    with n False show ?thesis
      by (intro exI [of _ "Suc n"]) (auto simp: Diff_insert2 [symmetric] simp flip: Diff_insert)
  qed
qed simp

abbreviation raw_stamp :: "syncer \<Rightarrow> name \<Rightarrow> mac \<Rightarrow> nat" where
  "raw_stamp S dev m \<equiv> (case sy_carried_ports S dev of None \<Rightarrow> 0 | Some ps \<Rightarrow> stamp_of ps m)"

lemma keep_order_facts:
  fixes f :: "mac \<Rightarrow> nat"
  assumes "finite kept" and "order = sort (map (\<lambda>m. (f m, m)) (sorted_list_of_set kept))"
  shows "distinct (map snd order)" "set (map snd order) = kept" "sorted order"
    "x \<in> set order \<Longrightarrow> x = (f (snd x), snd x)"
  using assms by (auto simp: distinct_map inj_on_def image_image)

lemma distinct_split:
  assumes "distinct xs"
  shows "set xs - set (take n xs) = set (drop n xs)"
  using set_take_disj_set_drop_if_distinct [OF assms, of n n]
  by (metis Diff_disjoint Un_Diff Un_Diff_Int append_take_drop_id Diff_cancel Un_empty_left
      Diff_triv inf_commute order_refl set_append)

text \<open>C29: Under pressure the keeps go, the fewest that help and the oldest first. \<open>press_at_pass\<close> takes
  out of what is wanted exactly the surrendered keeps; it goes on until the list fits under the limit
  with its headroom or no keep is left; with one fewer it would not have fitted; and no keep it
  surrenders was heard from later than one it holds on to (the address decides between equals).\<close>

theorem keeps_go_oldest_first:
  assumes "finite kept"
    and "press_at_pass S dev crd occupied want kept = (want', kept', shed)"
  shows "kept' \<subseteq> kept \<and> want' = want - (kept - kept') \<and> shed = card (kept - kept')
    \<and> (kept' = {} \<or> occupied - shed + headroom (limit_of S crd) \<le> limit_of S crd)
    \<and> (\<forall>k < shed. limit_of S crd < occupied - k + headroom (limit_of S crd))
    \<and> (\<forall>a \<in> kept - kept'. \<forall>b \<in> kept'. (raw_stamp S dev a, a) \<le> (raw_stamp S dev b, b))"
proof (cases "kept = {} \<or> occupied + headroom (limit_of S crd) \<le> limit_of S crd")
  case True
  then have "want' = want" "kept' = kept" "shed = 0"
    using assms(2) by (auto simp: press_at_pass_def Let_def split: if_splits)
  with True show ?thesis by auto
next
  case False
  let ?order = "keep_order (sy_carried_ports S dev) kept"
  let ?limit = "limit_of S crd"
  have order: "?order = sort (map (\<lambda>m. (raw_stamp S dev m, m)) (sorted_list_of_set kept))"
    by (simp add: keep_order_def)
  note all = keep_order_facts(1,2) [OF assms(1) order] and sorted = keep_order_facts(3) [OF assms(1) order]
    and keyed = keep_order_facts(4) [OF assms(1) order]
  obtain n where n: "n \<le> length ?order"
      "press_at_pass S dev crd occupied want kept
         = (want - set (map snd (take n ?order)), kept - set (map snd (take n ?order)), n)"
      "n = length ?order \<or> occupied - n + headroom ?limit \<le> ?limit"
      "\<forall>k < n. ?limit < occupied - k + headroom ?limit"
    using press_loop_prefix [of ?order ?limit "headroom ?limit" occupied want kept 0] False
    by (auto simp: press_at_pass_def Let_def)
  let ?gone = "set (map snd (take n ?order))"
  have sub: "?gone \<subseteq> kept" using all(2) by (auto dest: in_set_takeD)
  then have gone: "kept - kept' = ?gone" using n(2) assms(2) by auto
  have card: "card ?gone = n"
    using n(1) all(1) by (metis distinct_card distinct_take length_map length_take min.absorb2 take_map)
  have rest: "kept' = set (map snd (drop n ?order))"
    using n(2) assms(2) distinct_split [OF all(1), of n] all(2) by (simp add: take_map drop_map)
  have "(raw_stamp S dev a, a) \<le> (raw_stamp S dev b, b)" if ab: "a \<in> kept - kept'" "b \<in> kept'" for a b
  proof -
    obtain x where "x \<in> set (take n ?order)" "snd x = a"
      using ab(1) unfolding gone set_map by (rule imageE) (simp only: )
    moreover obtain y where "y \<in> set (drop n ?order)" "snd y = b"
      using ab(2) unfolding rest set_map by (rule imageE) (simp only: )
    moreover have "\<forall>x \<in> set (take n ?order). \<forall>y \<in> set (drop n ?order). x \<le> y"
      using sorted by (metis append_take_drop_id sorted_append)
    ultimately show ?thesis using keyed by (metis in_set_dropD in_set_takeD)
  qed
  moreover have "kept' = {} \<or> occupied - shed + headroom ?limit \<le> ?limit"
    using n(2,3) assms(2) rest by auto
  ultimately show ?thesis using n(2,4) assms(2) gone card sub by auto
qed

definition pressed_syncer :: syncer where
  "pressed_syncer = card_syncer\<lparr>sy_max_macs := 3, sy_carried_ports :=
     [''eth0'' \<mapsto> [(guest, 3, 10), (outsider, 3, 5), (Mac 2 0 0 0 0 1, 3, 7)]]\<rparr>"

lemma keeps_go_oldest_first_witness:
  "press_at_pass pressed_syncer ''eth0'' ''eth0'' 3 {guest, outsider, Mac 2 0 0 0 0 1}
       {guest, outsider, Mac 2 0 0 0 0 1} = ({guest}, {guest}, 2)
   \<and> (5, outsider) \<le> (10 :: nat, guest)"
proof -
  have run: "press_at_pass pressed_syncer ''eth0'' ''eth0'' 3 {guest, outsider, Mac 2 0 0 0 0 1}
      {guest, outsider, Mac 2 0 0 0 0 1} = ({guest}, {guest}, 2)" by code_simp
  have "raw_stamp pressed_syncer ''eth0'' outsider = 5" "raw_stamp pressed_syncer ''eth0'' guest = 10"
    by code_simp+
  moreover have "outsider \<in> {guest, outsider, Mac 2 0 0 0 0 1} - {guest}" "guest \<in> {guest}"
    by simp_all
  then have "(raw_stamp pressed_syncer ''eth0'' outsider, outsider)
      \<le> (raw_stamp pressed_syncer ''eth0'' guest, guest)"
    using keeps_go_oldest_first [OF _ run] by blast
  ultimately show ?thesis using run by simp
qed

end
