(* ===== verification/Card_Laws.thy ===== *)
theory Card_Laws
  imports Card Note_Laws Decide_Laws
begin

text \<open>
  Laws of the writing half: what the program puts into a card is on the note before it is in the
  card and off the note only after it is out of it, whatever the card and the file system refuse and
  wherever the process is killed. The kernel is a parameter; what is relied on is the documented
  behaviour of \<open>RTM_NEWNEIGH\<close> and \<open>RTM_DELNEIGH\<close> on a card's own list (\<open>card_laws\<close>).
\<close>

section \<open>What is relied on\<close>

text \<open>
  \<open>held w i\<close> is what interface \<open>i\<close> holds in its own list in world \<open>w\<close>. A request that succeeds
  puts the address in or takes it out, of that list alone; one that fails changes nothing, and fails
  with \<open>EEXIST\<close> or \<open>ENOENT\<close> only over an address that is there already, or is not there.
\<close>

definition answered :: "(ifindex \<Rightarrow> mac set) \<Rightarrow> ifindex \<Rightarrow> mac \<Rightarrow> bool \<Rightarrow> io_error option \<Rightarrow> (ifindex \<Rightarrow> mac set) \<Rightarrow> bool" where
  "answered h i m on r h' \<longleftrightarrow>
     (case r of
        None \<Rightarrow> h' = h(i := if on then insert m (h i) else h i - {m})
      | Some e \<Rightarrow> h' = h \<and> (on \<longrightarrow> e = EEXIST \<longrightarrow> m \<in> h i) \<and> (\<not> on \<longrightarrow> e = ENOENT \<longrightarrow> m \<notin> h i))"

definition card_laws :: "'w writer \<Rightarrow> ('w \<Rightarrow> ifindex \<Rightarrow> mac set) \<Rightarrow> bool" where
  "card_laws K held \<longleftrightarrow>
     (\<forall>i m on w. answered (held w) i m on (fst (k_set_self_fdb K i m on w))
                   (held (snd (k_set_self_fdb K i m on w))))"

lemma card_put:
  assumes "card_laws K held" "k_set_self_fdb K i m True w = (r, w')"
  shows "r = None \<Longrightarrow> held w' = (held w)(i := insert m (held w i))"
    "r = Some e \<Longrightarrow> held w' = held w" "r = Some EEXIST \<Longrightarrow> m \<in> held w i"
proof -
  have "answered (held w) i m True r (held w')" using assms unfolding card_laws_def by (metis fst_conv snd_conv)
  then show "r = None \<Longrightarrow> held w' = (held w)(i := insert m (held w i))"
    "r = Some e \<Longrightarrow> held w' = held w" "r = Some EEXIST \<Longrightarrow> m \<in> held w i"
    by (auto simp: answered_def)
qed

lemma card_take:
  assumes "card_laws K held" "k_set_self_fdb K i m False w = (r, w')"
  shows "r = None \<Longrightarrow> held w' = (held w)(i := held w i - {m})"
    "r = Some e \<Longrightarrow> held w' = held w" "r = Some ENOENT \<Longrightarrow> m \<notin> held w i"
proof -
  have "answered (held w) i m False r (held w')" using assms unfolding card_laws_def by (metis fst_conv snd_conv)
  then show "r = None \<Longrightarrow> held w' = (held w)(i := held w i - {m})"
    "r = Some e \<Longrightarrow> held w' = held w" "r = Some ENOENT \<Longrightarrow> m \<notin> held w i"
    by (auto simp: answered_def)
qed

section \<open>The loops over a card\<close>

lemma register_loop_card:
  assumes "card_laws K held" "register_loop K i fresh ms w = ((put, unclaim, failed), w')"
  shows "held w' = (held w)(i := held w i \<union> set put) \<and> set put \<subseteq> set ms
    \<and> set unclaim \<subseteq> set ms \<inter> fresh \<inter> held w' i
    \<and> (distinct ms \<longrightarrow> set unclaim \<subseteq> held w i \<and> set put \<inter> set unclaim = {})
    \<and> set ms \<subseteq> held w' i \<union> fst ` set failed"
  using assms(2)
proof (induction ms arbitrary: w put unclaim failed w')
  case (Cons m ms)
  obtain r w1 where put: "k_set_self_fdb K i m True w = (r, w1)" by fastforce
  obtain put1 un1 f1 w2 where rest: "register_loop K i fresh ms w1 = ((put1, un1, f1), w2)"
    by (cases "register_loop K i fresh ms w1") auto
  note IH = Cons.IH [OF rest]
  note card = card_put [OF assms(1) put]
  have eq: "((put, unclaim, failed), w') = (case r of None \<Rightarrow> ((m # put1, un1, f1), w2)
      | Some e \<Rightarrow> if e = EEXIST then ((put1, if m \<in> fresh then m # un1 else un1, f1), w2)
                  else ((put1, un1, (m, e) # f1), w2))"
    using Cons.prems put rest by simp
  show ?case
  proof (cases r)
    case None
    then show ?thesis using IH card(1) eq by (auto simp: fun_eq_iff)
  next
    case (Some e)
    then show ?thesis using IH card(2) [OF Some] card(3) eq by (cases "e = EEXIST") auto
  qed
qed simp

lemma retire_loop_card:
  assumes "card_laws K held" "retire_loop K i ms w = (out, w')"
  shows "held w' = (held w)(i := held w i - set (rt_removed out))
    \<and> set (rt_removed out) \<subseteq> set (rt_dropped out) \<and> set (rt_dropped out) \<subseteq> set ms
    \<and> set (rt_dropped out) \<inter> held w' i = {} \<and> set ms = set (rt_dropped out) \<union> fst ` set (rt_failed out)"
  using assms(2)
proof (induction ms arbitrary: w out w')
  case (Cons m ms)
  obtain r w1 where one: "k_set_self_fdb K i m False w = (r, w1)" by fastforce
  obtain out1 w2 where rest: "retire_loop K i ms w1 = (out1, w2)" by fastforce
  note IH = Cons.IH [OF rest]
  note card = card_take [OF assms(1) one]
  have eq: "(out, w') = (case r of
        None \<Rightarrow> (out1\<lparr>rt_dropped := m # rt_dropped out1, rt_removed := m # rt_removed out1\<rparr>, w2)
      | Some e \<Rightarrow> if e = ENOENT then (out1\<lparr>rt_dropped := m # rt_dropped out1\<rparr>, w2)
                  else (out1\<lparr>rt_failed := (m, e) # rt_failed out1\<rparr>, w2))"
    using Cons.prems one rest by simp
  show ?case
  proof (cases r)
    case None
    then show ?thesis using IH card(1) eq by (auto simp: fun_eq_iff)
  next
    case (Some e)
    then show ?thesis using IH card(2) [OF Some] card(3) eq by (cases "e = ENOENT") auto
  qed
qed simp

lemma unregister_all_card:
  assumes "card_laws K held" "unregister_all K i ms w = ((gone, kept), w')"
  shows "(\<forall>j. j \<noteq> i \<longrightarrow> held w' j = held w j) \<and> held w' i \<subseteq> held w i
    \<and> kept \<subseteq> set ms \<and> held w' i \<inter> (set ms - kept) = {} \<and> held w i - held w' i \<subseteq> set ms
    \<and> finite kept"
  using assms(2)
proof (induction ms arbitrary: w gone kept w')
  case (Cons m ms)
  obtain r w1 where one: "k_set_self_fdb K i m False w = (r, w1)" by fastforce
  obtain g1 k1 w2 where rest: "unregister_all K i ms w1 = ((g1, k1), w2)"
    by (cases "unregister_all K i ms w1") auto
  note IH = Cons.IH [OF rest]
  note card = card_take [OF assms(1) one]
  have eq: "((gone, kept), w') = (case r of None \<Rightarrow> ((Suc g1, k1), w2)
      | Some e \<Rightarrow> if e = ENOENT then ((Suc g1, k1), w2) else ((g1, insert m k1), w2))"
    using Cons.prems one rest by simp
  show ?case
  proof (cases r)
    case None
    then show ?thesis using IH card(1) eq by auto
  next
    case (Some e)
    then show ?thesis using IH card(2) [OF Some] card(3) eq by (cases "e = ENOENT") auto
  qed
qed simp

section \<open>One batch\<close>

text \<open>
  A disk that never runs full in the middle of an append. Without it a line can be cut, and the
  trimming of the next append may take a line that counted; see \<open>trimming_drops_a_named_owner\<close>
  in \<open>Note_Laws\<close>.
\<close>

definition whole_appends :: "fs \<Rightarrow> bool" where
  "whole_appends fs \<longleftrightarrow> (\<forall>p k. fs_append fs p \<noteq> WriteStops k)"

lemma refused_append_text:
  assumes "whole_appends fs" "coherent s" "append_owned_locked fs s dev added = (None, s')"
  shows "text_at s' dev = text_at s dev"
proof -
  obtain macs s1 where ld: "load_owned fs s dev = (macs, s1)" by (cases "load_owned fs s dev")
  have same: "text_at s1 dev = text_at s dev" using load_owned_spec(1) [OF assms(2) ld] by (rule text_at_cong)
  let ?t = "concat (map line_of (filter (\<lambda>m. m \<notin> macs) added))"
  obtain ok d where ap: "append_text fs (st_disk s1) dev ?t = (ok, d)"
    by (cases "append_text fs (st_disk s1) dev ?t")
  have "text_at (s1\<lparr>st_disk := d\<rparr>) dev = text_at s1 dev" if "\<not> ok"
    using append_text_outcome [OF ap] that assms(1)
    by (cases "fs_append fs (OwnedP dev)") (auto simp: whole_appends_def)
  moreover have "s' = s1 \<or> \<not> ok \<and> s' = drop_cached (s1\<lparr>st_disk := d\<rparr>) dev"
    using assms(3) ld ap by (auto simp: append_owned_locked_def Let_def split: if_splits)
  ultimately show ?thesis
    using same text_at_cong [of "drop_cached (s1\<lparr>st_disk := d\<rparr>) dev" "s1\<lparr>st_disk := d\<rparr>" dev] by auto
qed

abbreviation sound_note :: "store \<Rightarrow> name \<Rightarrow> bool" where
  "sound_note s dev \<equiv> coherent s \<and> tidy (text_at s dev)"

lemma sound_locked [simp]: "tidy (text_at (locked fs s dev) d) \<longleftrightarrow> tidy (text_at s d)"
  by (simp add: text_at_def)

lemma register_batch_spec:
  assumes K: "card_laws (e_kernel E) held" and s: "sound_note s dev" and ms: "distinct macs"
    and run: "register_batch_locked E dev i macs s w = (r, s', w')"
  shows "coherent s'" "touches_only dev s s'"
    "held w i \<subseteq> held w' i" "j \<noteq> i \<Longrightarrow> held w' j = held w j"
    "held w' i - held w i \<subseteq> note_of s' dev" "note_of s dev \<subseteq> note_of s' dev"
    "r = None \<Longrightarrow> w' = w"
    "r = Some rg \<Longrightarrow> held w' i = held w i \<union> set (rg_put rg) \<and> set (rg_put rg) \<subseteq> set macs
       \<and> set (rg_put rg) \<subseteq> note_of s' dev \<and> set macs \<subseteq> held w' i \<union> fst ` set (rg_failures rg)"
    "whole_appends (e_fs E) \<or> r \<noteq> None \<Longrightarrow> tidy (text_at s' dev)"
proof -
  let ?l = "locked (e_fs E) s dev"
  obtain fresh s1 where ap: "append_owned_locked (e_fs E) ?l dev macs = (fresh, s1)"
    by (cases "append_owned_locked (e_fs E) ?l dev macs")
  have l: "coherent ?l" "tidy (text_at ?l dev)" "note_of ?l dev = note_of s dev" using s by simp_all
  note A = append_owned_locked_spec [OF l(1) ap] and N = append_owned_note [OF l(1,2) ap]
  have touch: "touches_only dev s s1" using A(2) by (simp add: touches_only_def)
  have "coherent s' \<and> touches_only dev s s' \<and> held w i \<subseteq> held w' i \<and> (\<forall>j. j \<noteq> i \<longrightarrow> held w' j = held w j)
    \<and> held w' i - held w i \<subseteq> note_of s' dev \<and> note_of s dev \<subseteq> note_of s' dev \<and> (r = None \<longrightarrow> w' = w)
    \<and> (\<forall>rg. r = Some rg \<longrightarrow> held w' i = held w i \<union> set (rg_put rg) \<and> set (rg_put rg) \<subseteq> set macs
         \<and> set (rg_put rg) \<subseteq> note_of s' dev \<and> set macs \<subseteq> held w' i \<union> fst ` set (rg_failures rg))
    \<and> (whole_appends (e_fs E) \<or> r \<noteq> None \<longrightarrow> tidy (text_at s' dev))"
  proof (cases fresh)
    case None
    then have "r = None" "s' = s1" "w' = w" using run ap by (simp_all add: register_batch_locked_def)
    then show ?thesis
      using A(1) touch N(2) l refused_append_text [OF _ l(1)] ap None by auto
  next
    case (Some fr)
    obtain put unclaim failed w1 where
      loop: "register_loop (e_kernel E) i (set fr) macs w = ((put, unclaim, failed), w1)"
      by (cases "register_loop (e_kernel E) i (set fr) macs w") auto
    note C = register_loop_card [OF K loop]
    let ?s2 = "if unclaim = [] then s1 else snd (unnote_locked (e_fs E) s1 dev unclaim)"
    have eq: "r = Some \<lparr>rg_put = put, rg_failures = failed\<rparr>" "s' = ?s2" "w' = w1"
      using run ap Some loop by (simp_all add: register_batch_locked_def Let_def)
    have t1: "tidy (text_at s1 dev)" and n1: "note_of s1 dev = note_of s dev \<union> set macs"
      using N(1,4) Some l by simp_all
    have gone: "set unclaim \<inter> note_of s dev = {}" "set unclaim \<inter> set put = {}"
      using C A(3) [of fr] Some ms l(3) by auto
    have s2: "coherent ?s2 \<and> tidy (text_at ?s2 dev)
        \<and> note_of s dev \<union> set put \<subseteq> {} \<union> note_of ?s2 dev"
      using unnoted_tidy.sound [OF A(1) t1, of "note_of s dev \<union> set put" "{}" unclaim "e_fs E"]
        A(1) t1 n1 gone C by (cases "unclaim = []") auto
    have "touches_only dev s ?s2"
      using touch unnoted.frame [OF A(1)] touches_only_trans by auto
    then show ?thesis using s2 C eq by auto
  qed
  then show "coherent s'" "touches_only dev s s'"
    "held w i \<subseteq> held w' i" "j \<noteq> i \<Longrightarrow> held w' j = held w j"
    "held w' i - held w i \<subseteq> note_of s' dev" "note_of s dev \<subseteq> note_of s' dev"
    "r = None \<Longrightarrow> w' = w"
    "r = Some rg \<Longrightarrow> held w' i = held w i \<union> set (rg_put rg) \<and> set (rg_put rg) \<subseteq> set macs
       \<and> set (rg_put rg) \<subseteq> note_of s' dev \<and> set macs \<subseteq> held w' i \<union> fst ` set (rg_failures rg)"
    "whole_appends (e_fs E) \<or> r \<noteq> None \<Longrightarrow> tidy (text_at s' dev)"
    by blast+
qed

lemma retire_spec:
  assumes K: "card_laws (e_kernel E) held" and s: "sound_note s dev"
    and run: "retire E dev i macs s w = (out, s', w')"
  shows "sound_note s' dev" "touches_only dev s s'"
    "held w' = (held w)(i := held w i - set (rt_removed out))"
    "set (rt_removed out) \<subseteq> set (rt_dropped out)" "set macs = set (rt_dropped out) \<union> fst ` set (rt_failed out)"
    "held w' i \<inter> set (rt_dropped out) = {}"
    "note_of s dev - set (rt_dropped out) \<subseteq> note_of s' dev" "note_of s' dev \<subseteq> note_of s dev"
proof -
  let ?l = "locked (e_fs E) s dev"
  have l: "coherent ?l" "tidy (text_at ?l dev)" "note_of ?l dev = note_of s dev" using s by simp_all
  obtain out' w1 where loop: "retire_loop (e_kernel E) i macs w = (out', w1)"
    by (cases "retire_loop (e_kernel E) i macs w")
  have eq: "out' = out" "w1 = w'" "s' = forget_locked (e_fs E) ?l dev (rt_dropped out)"
    using run loop by (auto simp: retire_def Let_def)
  show "sound_note s' dev"
    using forgotten.keeps_coherent [OF l(1)] forgotten_tidy.keeps_tidy [OF l(1,2)] eq(3) by simp
  show "touches_only dev s s'"
    using forgotten.frame [OF l(1)] unfolding eq(3) by (simp add: touches_only_def)
  show "note_of s dev - set (rt_dropped out) \<subseteq> note_of s' dev" "note_of s' dev \<subseteq> note_of s dev"
    using forgotten.lower [OF l(1,2)] forgotten.upper [OF l(1,2)] l(3) unfolding eq(3) by auto
  show "held w' = (held w)(i := held w i - set (rt_removed out))"
    "set (rt_removed out) \<subseteq> set (rt_dropped out)" "set macs = set (rt_dropped out) \<union> fst ` set (rt_failed out)"
    "held w' i \<inter> set (rt_dropped out) = {}"
    using retire_loop_card [OF K loop] eq(1,2) by auto
qed

lemma killed_retiring:
  assumes "card_laws K held"
  shows "held (snd (retire_loop K i ms w)) i \<subseteq> held w i"
    "j \<noteq> i \<Longrightarrow> held (snd (retire_loop K i ms w)) j = held w j"
  using retire_loop_card [OF assms prod.collapse [symmetric], of i ms w] by auto

lemma killed_registering:
  assumes K: "card_laws K held" and s: "sound_note s dev"
    and ap: "append_owned_locked fs (locked fs s dev) dev macs = (Some fresh, s1)"
  shows "held (snd (register_loop K i (set fresh) (take k macs) w)) i \<subseteq> held w i \<union> note_of s1 dev"
    "sound_note s1 dev" "note_of s dev \<subseteq> note_of s1 dev"
proof -
  have l: "coherent (locked fs s dev)" "tidy (text_at (locked fs s dev) dev)" using s by simp_all
  note N = append_owned_note [OF l ap]
  obtain put unclaim failed w1 where
    loop: "register_loop K i (set fresh) (take k macs) w = ((put, unclaim, failed), w1)"
    by (cases "register_loop K i (set fresh) (take k macs) w") auto
  show "held (snd (register_loop K i (set fresh) (take k macs) w)) i \<subseteq> held w i \<union> note_of s1 dev"
    using register_loop_card [OF K loop] N(1) loop set_take_subset [of k macs] by auto
  show "sound_note s1 dev" "note_of s dev \<subseteq> note_of s1 dev"
    using append_owned_locked_spec(1) [OF l(1) ap] N(2,4) by simp_all
qed

section \<open>A history of one card\<close>

text \<open>
  What can happen to one uplink's card and note: the writing operations, run to their end, and the
  process killed before, between or inside them, with what it had in memory gone. Each step has its
  own file system answers and its own hash order; the kernel is one.
\<close>

definition restarted :: "store \<Rightarrow> store" where
  "restarted s = new_store (st_disk s)"

inductive card_step :: "'w writer \<Rightarrow> name \<Rightarrow> ifindex \<Rightarrow> store \<times> 'w \<Rightarrow> store \<times> 'w \<Rightarrow> bool"
  for K dev i where
  registers: "e_kernel E = K \<Longrightarrow> whole_appends (e_fs E) \<Longrightarrow> distinct macs
      \<Longrightarrow> register_batch_locked E dev i macs s w = (r, s', w') \<Longrightarrow> card_step K dev i (s, w) (s', w')"
| retires: "e_kernel E = K \<Longrightarrow> retire E dev i macs s w = (out, s', w')
      \<Longrightarrow> card_step K dev i (s, w) (s', w')"
| dies_registering: "append_owned_locked fs (locked fs s dev) dev macs = (Some fresh, s1)
      \<Longrightarrow> card_step K dev i (s, w)
            (restarted s1, snd (register_loop K i (set fresh) (take k macs) w))"
| dies_retiring: "card_step K dev i (s, w) (restarted s, snd (retire_loop K i macs w))"
| dies: "card_step K dev i (s, w) (restarted s, w)"

inductive_cases card_stepE: "card_step K dev i (s, w) (s', w')"

definition accounted :: "('w \<Rightarrow> ifindex \<Rightarrow> mac set) \<Rightarrow> mac set \<Rightarrow> name \<Rightarrow> ifindex \<Rightarrow> store \<times> 'w \<Rightarrow> bool" where
  "accounted held base dev i sw \<longleftrightarrow>
     (case sw of (s, w) \<Rightarrow> sound_note s dev \<and> held w i \<subseteq> base \<union> note_of s dev)"

lemma restarted_sound [simp]:
  "coherent (restarted s)" "tidy (text_at (restarted s) dev) \<longleftrightarrow> tidy (text_at s dev)"
  "note_of (restarted s) dev = note_of s dev"
  by (simp_all add: restarted_def text_at_def note_of_def)

lemma card_step_accounts:
  assumes K: "card_laws K held" and step: "card_step K dev i x y" and before: "accounted held base dev i x"
  shows "accounted held base dev i y"
  using step
proof cases
  case (registers E macs s w r s' w')
  have "sound_note s dev" "held w i \<subseteq> base \<union> note_of s dev"
    using before registers by (simp_all add: accounted_def)
  note R = register_batch_spec [OF K [folded registers(3)] this(1) registers(5,6)] and this
  then show ?thesis using registers(2,4) R(1,5,6,9) by (auto simp: accounted_def)
next
  case (retires E macs s w out s' w')
  have s: "sound_note s dev" "held w i \<subseteq> base \<union> note_of s dev"
    using before retires by (simp_all add: accounted_def)
  note R = retire_spec [OF K [folded retires(3)] s(1) retires(4)]
  have "held w' i \<subseteq> base \<union> note_of s' dev"
    using R(3,6,7) s(2) by (auto simp: set_eq_iff subset_iff)
  then show ?thesis using R(1) retires(2) by (simp add: accounted_def)
next
  case (dies_registering fs s macs fresh s1 w k)
  have s: "sound_note s dev" "held w i \<subseteq> base \<union> note_of s dev"
    using before dies_registering by (simp_all add: accounted_def)
  note R = killed_registering(1) [OF K s(1) dies_registering(3), where i = i and k = k and w = w]
    and killed_registering(2,3) [OF K s(1) dies_registering(3)]
  then show ?thesis using s(2) dies_registering(2) by (auto simp: accounted_def)
next
  case (dies_retiring s w macs)
  then show ?thesis
    using before killed_retiring(1) [OF K, of i macs w] by (auto simp: accounted_def)
next
  case (dies s w)
  then show ?thesis using before by (auto simp: accounted_def)
qed

inductive card_run :: "'w writer \<Rightarrow> name \<Rightarrow> ifindex \<Rightarrow> store \<times> 'w \<Rightarrow> store \<times> 'w \<Rightarrow> bool"
  for K dev i where
  here: "card_run K dev i x x"
| on: "card_run K dev i x y \<Longrightarrow> card_step K dev i y z \<Longrightarrow> card_run K dev i x z"

lemma card_run_accounts:
  "card_run K dev i x y \<Longrightarrow> card_laws K held \<Longrightarrow> accounted held base dev i x \<Longrightarrow> accounted held base dev i y"
  by (induction rule: card_run.induct) (auto intro: card_step_accounts)

section \<open>A card to look at\<close>

text \<open>
  A kernel over a list of what its cards hold: a card takes two addresses, a third is refused with
  \<open>ENOSPC\<close>. A dump lists them as permanent self entries; the clock stands at five.
\<close>

type_synonym cards = "(ifindex \<times> mac) list"

definition cards_set :: "ifindex \<Rightarrow> mac \<Rightarrow> bool \<Rightarrow> cards \<Rightarrow> io_error option \<times> cards" where
  "cards_set i m on w =
     (if on then
        (if (i, m) \<in> set w then (Some EEXIST, w)
         else if 2 \<le> length (filter (\<lambda>x. fst x = i) w) then (Some (Os 28), w)
         else (None, (i, m) # w))
      else if (i, m) \<in> set w then (None, filter (\<lambda>x. x \<noteq> (i, m)) w)
      else (Some ENOENT, w))"

definition cards_dump :: "cards \<Rightarrow> fdb_entry list" where
  "cards_dump w =
     map (\<lambda>(i, m). \<lparr>fe_ifindex = i, fe_master = None, fe_mac = m, fe_state = NUD_PERMANENT,
                     fe_flags = NTF_SELF\<rparr>) w"

definition cards_kernel :: "cards writer" where
  "cards_kernel =
     \<lparr>k_dump_fdb = (\<lambda>w. (Inr (cards_dump w), w)),
      k_dump_fdb_of = (\<lambda>i w. (Inr (filter (\<lambda>e. fe_ifindex e = i) (cards_dump w)), w)),
      k_dump_links = (\<lambda>w. (Inr card_dump, w)),
      k_vf_macs_of = (\<lambda>pfs w. (Inr [], w)),
      k_vf_info_of = (\<lambda>i w. (Inr [], w)),
      k_set_self_fdb = cards_set,
      k_boot_millis = (\<lambda>w. (5, w)),
      k_instant = (\<lambda>w. (5, w))\<rparr>"

definition cards_held :: "cards \<Rightarrow> ifindex \<Rightarrow> mac set" where
  "cards_held w i = {m. (i, m) \<in> set w}"

definition cards_env :: "cards env" where
  "cards_env = \<lparr>e_kernel = cards_kernel, e_fs = kind_fs, e_order = sorted_list_of_set\<rparr>"

lemma cards_laws: "card_laws cards_kernel cards_held"
  unfolding card_laws_def answered_def cards_kernel_def
  by (auto simp: cards_set_def cards_held_def fun_eq_iff)

lemma cards_env_fields [simp]:
  "e_kernel cards_env = cards_kernel" "e_fs cards_env = kind_fs"
  by (simp_all add: cards_env_def)

lemma kind_whole: "whole_appends kind_fs"
  by (simp add: whole_appends_def kind_fs_def)

section \<open>Properties\<close>



text \<open>C10: Forgotten last. \<open>retire\<close> takes out of the card only addresses it was asked for and touches no
  other interface; an address that was on the note and is still in the card is on the note afterwards,
  whatever failed, and nothing is added to the note.\<close>

theorem retiring_forgets_last:
  assumes "card_laws (e_kernel E) held" and "coherent s" and "tidy (text_at s dev)"
    and "retire E dev i macs s w = (out, s', w')"
  shows "held w' = (held w)(i := held w i - set (rt_removed out)) \<and> set (rt_removed out) \<subseteq> set macs
    \<and> held w' i \<inter> note_of s dev \<subseteq> note_of s' dev \<and> note_of s' dev \<subseteq> note_of s dev
    \<and> set macs \<inter> held w' i \<subseteq> fst ` set (rt_failed out)"
  using retire_spec [OF assms(1) _ assms(4)] assms(2,3) by auto

lemma retiring_forgets_last_witness:
  "\<exists>out s'. retire cards_env ''eth0'' 2 [guest, Mac 2 0 0 0 0 1]
       (new_store (disk_with ''eth0'' (line_of guest @ line_of outsider))) [(2, outsider), (2, guest)]
       = (out, s', [(2, outsider)])
     \<and> outsider \<in> note_of s' ''eth0''"
proof -
  let ?s = "new_store (disk_with ''eth0'' (line_of guest @ line_of outsider))"
  let ?run = "retire cards_env ''eth0'' 2 [guest, Mac 2 0 0 0 0 1] ?s [(2, outsider), (2, guest)]"
  have w: "snd (snd ?run) = [(2, outsider)]" by code_simp
  obtain out s' where run: "?run = (out, s', [(2, outsider)])"
    using w by (metis prod.collapse)
  have t: "tidy (text_at ?s ''eth0'')" by (simp add: tidy_def line_of_def)
  have "outsider \<in> note_of ?s ''eth0''"
    using parse_owned_lines [of "[guest, outsider]"] by (simp add: note_of_def)
  moreover have "card_laws (e_kernel cards_env) cards_held" by (simp add: cards_laws)
  note retiring_forgets_last [OF this coherent_new_store t run]
  ultimately show ?thesis using run by (auto simp: cards_held_def)
qed



end
