(* ===== verification/Socket.thy ===== *)
theory Socket
  imports Netlink "HOL-Library.Monad_Syntax"
begin

text \<open>
  The socket of \<^verbatim>\<open>src/netlink.rs\<close>: who is listened to, how long a question is waited for, the
  buffer that grows, the retries. The operating system is a parameter: \<open>send\<close>, \<open>recvfrom\<close> with
  \<open>MSG_TRUNC\<close> (the whole datagram, of which only the buffer's length is looked at) and the
  monotonic clock, in nanoseconds. Loops that only the outside ends are partial functions: \<open>None\<close>
  is the call that does not return.
\<close>

section \<open>The operating system\<close>

datatype arrival = Arrived u32 "u8 list" | Refused io_error

record 'w os =
  os_send :: "u8 list \<Rightarrow> 'w \<Rightarrow> (io_error + nat) \<times> 'w"
  os_recvfrom :: "bool \<Rightarrow> 'w \<Rightarrow> arrival \<times> 'w"
  os_now :: "'w \<Rightarrow> nat \<times> 'w"

abbreviation READ_TIMEOUT :: nat where "READ_TIMEOUT \<equiv> 5000000000"

text \<open>\<open>struct Socket\<close>: the sequence number, how large the kept buffer is, the say-once mark.\<close>

record sock =
  so_seq :: u32
  so_buf :: nat
  so_spoof_warned :: bool

definition new_sock :: sock where
  "new_sock = \<lparr>so_seq = 1, so_buf = 0, so_spoof_warned = False\<rparr>"

text \<open>\<open>take_buf\<close>: the kept buffer, at least \<open>want\<close> long.\<close>

definition take_buf :: "nat \<Rightarrow> sock \<Rightarrow> nat" where
  "take_buf want S = max (so_buf S) want"

section \<open>Sending and receiving\<close>

definition send_request :: "'w os \<Rightarrow> u8 list \<Rightarrow> 'w \<Rightarrow> io_error option \<times> 'w" where
  "send_request os buf w =
     (case os_send os buf w of
        (Inl e, w) \<Rightarrow> (Some e, w)
      | (Inr n, w) \<Rightarrow> (if n \<noteq> length buf then Some Custom else None, w))"

text \<open>
  \<open>recv_flags\<close>: only port zero, the kernel, is listened to; after a first spoofed datagram nothing is
  waited for, and the sixty-fourth ends the call as if the queue were empty.
\<close>

partial_function (option) recv_flags ::
    "'w os \<Rightarrow> bool \<Rightarrow> nat \<Rightarrow> sock \<Rightarrow> 'w \<Rightarrow> (received \<times> sock \<times> 'w) option" where
  "recv_flags os nowait dropped S w =
     (case os_recvfrom os (nowait \<or> 0 < dropped) w of
        (Refused e, w) \<Rightarrow>
          (if e = EINTR then recv_flags os nowait dropped S w
           else Some (if e = EAGAIN then WouldBlock else RecvError e, S, w))
      | (Arrived pid d, w) \<Rightarrow>
          (if pid \<noteq> 0 then
             (if 64 \<le> Suc dropped then Some (WouldBlock, S\<lparr>so_spoof_warned := True\<rparr>, w)
              else recv_flags os nowait (Suc dropped) (S\<lparr>so_spoof_warned := True\<rparr>) w)
           else Some (Datagram d, S, w)))"

text \<open>\<open>recv_deadline\<close>: the clock is looked at before every receive; an empty queue goes round again.\<close>

partial_function (option) recv_deadline ::
    "'w os \<Rightarrow> nat \<Rightarrow> sock \<Rightarrow> 'w \<Rightarrow> ((io_error + u8 list) \<times> sock \<times> 'w) option" where
  "recv_deadline os deadline S w =
     (case os_now os w of (now, w) \<Rightarrow>
        if deadline \<le> now then Some (Inl Custom, S, w)
        else do {
          (r, S, w) \<leftarrow> recv_flags os False 0 S w;
          case r of
            WouldBlock \<Rightarrow> recv_deadline os deadline S w
          | RecvError e \<Rightarrow> Some (Inl e, S, w)
          | Datagram d \<Rightarrow> Some (Inr d, S, w)
        })"

text \<open>\<open>drain\<close>: everything queued is thrown away, whoever it is from.\<close>

partial_function (option) drain :: "'w os \<Rightarrow> 'w \<Rightarrow> 'w option" where
  "drain os w =
     (case os_recvfrom os True w of
        (Refused e, w) \<Rightarrow> if e = EINTR then drain os w else Some w
      | (Arrived _ _, w) \<Rightarrow> drain os w)"

section \<open>Dumps\<close>

partial_function (option) sock_run_dump ::
    "'w os \<Rightarrow> nat \<Rightarrow> u16 \<Rightarrow> u32 \<Rightarrow> nat \<Rightarrow> u8 list list \<Rightarrow> sock \<Rightarrow> 'w
     \<Rightarrow> ((u8 list list \<times> (io_error + dump_end)) \<times> sock \<times> 'w) option" where
  "sock_run_dump os buflen want seq deadline acc S w =
     do {
       (r, S, w) \<leftarrow> recv_deadline os deadline S w;
       case r of
         Inl e \<Rightarrow> Some ((acc, Inl e), S, w)
       | Inr d \<Rightarrow>
           (if buflen < length d then Some ((acc, Inr (Dump_TooBig (length d))), S, w)
            else case dump_messages want seq (messages d) acc of
                   (acc, Some r) \<Rightarrow> Some ((acc, r), S, w)
                 | (acc, None) \<Rightarrow> sock_run_dump os buflen want seq deadline acc S w)
     }"

definition with_seq :: "u8 list \<Rightarrow> u32 \<Rightarrow> u8 list" where
  "with_seq req seq = take 8 req @ bytes32 seq @ drop 12 req"

text \<open>\<open>dump_into\<close>, attempt by attempt: a fresh number, one question, and what its end asks for.\<close>

fun sock_dump_into ::
    "nat \<Rightarrow> 'w os \<Rightarrow> nat \<Rightarrow> u8 list \<Rightarrow> u16 \<Rightarrow> sock \<Rightarrow> 'w
     \<Rightarrow> ((io_error + u8 list list) \<times> nat \<times> sock \<times> 'w) option" where
  "sock_dump_into 0 os buflen req want S w = Some (Inl Custom, buflen, S, w)"
| "sock_dump_into (Suc k) os buflen req want S w =
     (let S = S\<lparr>so_seq := so_seq S + 1\<rparr>; seq = so_seq S in
      case send_request os (with_seq req seq) w of
        (Some e, w) \<Rightarrow> Some (Inl e, buflen, S, w)
      | (None, w) \<Rightarrow>
          (case os_now os w of (now, w) \<Rightarrow>
             do {
               ((out, r), S, w) \<leftarrow> sock_run_dump os buflen want seq (now + READ_TIMEOUT) [] S w;
               case r of
                 Inr Dump_Done \<Rightarrow> Some (Inr out, buflen, S, w)
               | Inr Dump_Interrupted \<Rightarrow>
                   do { w \<leftarrow> drain os w; sock_dump_into k os buflen req want S w }
               | Inr (Dump_TooBig need) \<Rightarrow>
                   do {
                     w \<leftarrow> drain os w;
                     if CEILING < need then Some (Inl Custom, buflen, S, w)
                     else sock_dump_into k os (min (next_power_of_two need) CEILING) req want S w
                   }
               | Inl e \<Rightarrow> do { w \<leftarrow> drain os w; Some (Inl e, buflen, S, w) }
             }))"

text \<open>\<open>dump_from\<close>: the buffer is kept at the size it ended with.\<close>

definition sock_dump_from ::
    "nat \<Rightarrow> 'w os \<Rightarrow> u8 list \<Rightarrow> u16 \<Rightarrow> sock \<Rightarrow> 'w
     \<Rightarrow> ((io_error + u8 list list) \<times> sock \<times> 'w) option" where
  "sock_dump_from start os req want S w =
     do {
       (r, buflen, S, w) \<leftarrow> sock_dump_into ATTEMPTS os (take_buf start S) req want S w;
       Some (r, S\<lparr>so_buf := buflen\<rparr>, w)
     }"

definition sock_dump ::
    "'w os \<Rightarrow> u8 list \<Rightarrow> u16 \<Rightarrow> sock \<Rightarrow> 'w \<Rightarrow> ((io_error + u8 list list) \<times> sock \<times> 'w) option" where
  "sock_dump os req want S w = sock_dump_from (64 * 1024) os req want S w"

definition parsed_dump ::
    "(u8 list \<Rightarrow> 'a option) \<Rightarrow> ((io_error + u8 list list) \<times> sock \<times> 'w) \<Rightarrow> ((io_error + 'a list) \<times> sock \<times> 'w)" where
  "parsed_dump parse x = (case x of (r, y) \<Rightarrow>
     (case r of Inl e \<Rightarrow> Inl e | Inr out \<Rightarrow> Inr (List.map_filter parse out), y))"

definition sock_dump_links :: "'w os \<Rightarrow> sock \<Rightarrow> 'w \<Rightarrow> ((io_error + link_info list) \<times> sock \<times> 'w) option" where
  "sock_dump_links os S w =
     do { req \<leftarrow> link_dump_request; map_option (parsed_dump parse_link) (sock_dump os req RTM_NEWLINK S w) }"

definition fdb_request :: "u8 list" where
  "fdb_request =
     put_nlmsghdr 28 RTM_GETNEIGH 0x301 0 @ [AF_BRIDGE, 0] @ bytes16 0 @ bytes32 0 @ bytes16 0 @ [0, 0]"

definition sock_dump_fdb :: "'w os \<Rightarrow> sock \<Rightarrow> 'w \<Rightarrow> ((io_error + fdb_entry list) \<times> sock \<times> 'w) option" where
  "sock_dump_fdb os S w = map_option (parsed_dump parse_fdb) (sock_dump os fdb_request RTM_NEWNEIGH S w)"

definition sock_dump_fdb_of ::
    "'w os \<Rightarrow> ifindex \<Rightarrow> sock \<Rightarrow> 'w \<Rightarrow> ((io_error + fdb_entry list) \<times> sock \<times> 'w) option" where
  "sock_dump_fdb_of os i S w =
     map_option (parsed_dump parse_fdb) (sock_dump os (fdb_of_request i) RTM_NEWNEIGH S w)"

section \<open>One question, one answer\<close>

datatype one_end = Answered "u8 list option" | One_TooBig nat

partial_function (option) one_loop ::
    "'w os \<Rightarrow> nat \<Rightarrow> u32 \<Rightarrow> u16 \<Rightarrow> nat \<Rightarrow> sock \<Rightarrow> 'w \<Rightarrow> ((io_error + one_end) \<times> sock \<times> 'w) option" where
  "one_loop os buflen seq want deadline S w =
     do {
       (r, S, w) \<leftarrow> recv_deadline os deadline S w;
       case r of
         Inl e \<Rightarrow> Some (Inl e, S, w)
       | Inr d \<Rightarrow>
           (if buflen < length d then
              do { w \<leftarrow> drain os w; Some (Inr (One_TooBig (length d)), S, w) }
            else case one_answer want seq (messages d) of
                   None \<Rightarrow> one_loop os buflen seq want deadline S w
                 | Some (Inl e) \<Rightarrow> Some (Inl e, S, w)
                 | Some (Inr a) \<Rightarrow> Some (Inr (Answered a), S, w))
     }"

definition request_one_into ::
    "'w os \<Rightarrow> nat \<Rightarrow> u32 \<Rightarrow> u16 \<Rightarrow> sock \<Rightarrow> 'w \<Rightarrow> ((io_error + one_end) \<times> sock \<times> 'w) option" where
  "request_one_into os buflen seq want S w =
     (case os_now os w of (now, w) \<Rightarrow> one_loop os buflen seq want (now + READ_TIMEOUT) S w)"

text \<open>\<open>request_one_grown\<close>: the same question into a larger buffer, under the number it has.\<close>

fun request_one_grown ::
    "nat \<Rightarrow> 'w os \<Rightarrow> nat \<Rightarrow> u8 list \<Rightarrow> u32 \<Rightarrow> u16 \<Rightarrow> sock \<Rightarrow> 'w
     \<Rightarrow> ((io_error + u8 list option) \<times> nat \<times> sock \<times> 'w) option" where
  "request_one_grown 0 os buflen req seq want S w = Some (Inl Custom, buflen, S, w)"
| "request_one_grown (Suc k) os buflen req seq want S w =
     (case send_request os req w of
        (Some e, w) \<Rightarrow> Some (Inl e, buflen, S, w)
      | (None, w) \<Rightarrow>
          do {
            (r, S, w) \<leftarrow> request_one_into os buflen seq want S w;
            case r of
              Inl e \<Rightarrow> Some (Inl e, buflen, S, w)
            | Inr (Answered a) \<Rightarrow> Some (Inr a, buflen, S, w)
            | Inr (One_TooBig need) \<Rightarrow>
                if CEILING < need then Some (Inl Custom, buflen, S, w)
                else request_one_grown k os (min (next_power_of_two need) CEILING) req seq want S w
          })"

definition request_one_from ::
    "nat \<Rightarrow> 'w os \<Rightarrow> u8 list \<Rightarrow> u16 \<Rightarrow> sock \<Rightarrow> 'w
     \<Rightarrow> ((io_error + u8 list option) \<times> sock \<times> 'w) option" where
  "request_one_from start os req want S w =
     do {
       (r, buflen, S, w) \<leftarrow>
         request_one_grown ATTEMPTS os (take_buf start S) req (u32_of (slice 8 4 req)) want S w;
       Some (r, S\<lparr>so_buf := buflen\<rparr>, w)
     }"

text \<open>\<open>vf_info_of\<close>: an interface that is gone has no virtual functions.\<close>

definition sock_vf_info_of ::
    "'w os \<Rightarrow> ifindex \<Rightarrow> sock \<Rightarrow> 'w \<Rightarrow> ((io_error + vf_info list) \<times> sock \<times> 'w) option" where
  "sock_vf_info_of os i S w =
     (let S = S\<lparr>so_seq := so_seq S + 1\<rparr> in
      do {
        req \<leftarrow> vf_request i (so_seq S);
        (r, S, w) \<leftarrow> request_one_from (64 * 1024) os req RTM_NEWLINK S w;
        Some (case r of
                Inr None \<Rightarrow> Inr []
              | Inr (Some payload) \<Rightarrow> Inr (collect_vf_info payload [])
              | Inl e \<Rightarrow> if e = ENODEV then Inr [] else Inl e, S, w)
      })"

fun sock_vf_macs_of ::
    "'w os \<Rightarrow> ifindex list \<Rightarrow> sock \<Rightarrow> 'w \<Rightarrow> ((io_error + (ifindex \<times> mac) list) \<times> sock \<times> 'w) option" where
  "sock_vf_macs_of os [] S w = Some (Inr [], S, w)"
| "sock_vf_macs_of os (i # is) S w =
     do {
       (r, S, w) \<leftarrow> sock_vf_info_of os i S w;
       case r of
         Inl e \<Rightarrow> Some (Inl e, S, w)
       | Inr vfs \<Rightarrow>
           do {
             (r, S, w) \<leftarrow> sock_vf_macs_of os is S w;
             Some (case r of
                     Inl e \<Rightarrow> Inl e
                   | Inr rest \<Rightarrow> Inr (map (\<lambda>v. (vi_pf v, vi_mac v)) vfs @ rest), S, w)
           }
     }"

section \<open>Writing a card\<close>

partial_function (option) ack_loop ::
    "'w os \<Rightarrow> u32 \<Rightarrow> nat \<Rightarrow> sock \<Rightarrow> 'w \<Rightarrow> (io_error option \<times> sock \<times> 'w) option" where
  "ack_loop os seq deadline S w =
     do {
       (r, S, w) \<leftarrow> recv_deadline os deadline S w;
       case r of
         Inl e \<Rightarrow> Some (Some e, S, w)
       | Inr d \<Rightarrow>
           (case ack_in seq (messages (take 8192 d)) of
              None \<Rightarrow> ack_loop os seq deadline S w
            | Some answer \<Rightarrow> Some (answer, S, w))
     }"

definition sock_set_self_fdb ::
    "'w os \<Rightarrow> ifindex \<Rightarrow> mac \<Rightarrow> bool \<Rightarrow> sock \<Rightarrow> 'w \<Rightarrow> (io_error option \<times> sock \<times> 'w) option" where
  "sock_set_self_fdb os i m add S w =
     (let S = S\<lparr>so_seq := so_seq S + 1\<rparr> in
      do {
        req \<leftarrow> self_fdb_request i m add (so_seq S);
        case send_request os req w of
          (Some e, w) \<Rightarrow> Some (Some e, S, w)
        | (None, w) \<Rightarrow>
            (case os_now os w of (now, w) \<Rightarrow> ack_loop os (so_seq S) (now + READ_TIMEOUT) S w)
      })"

section \<open>Notifications\<close>

fun sock_events ::
    "nat \<Rightarrow> 'w os \<Rightarrow> nat \<Rightarrow> events \<Rightarrow> sock \<Rightarrow> 'w \<Rightarrow> ((io_error + events) \<times> sock \<times> 'w) option" where
  "sock_events 0 os buflen out S w = Some (Inr out, S, w)"
| "sock_events (Suc k) os buflen out S w =
     do {
       (r, S, w) \<leftarrow> recv_flags os True 0 S w;
       case r of
         WouldBlock \<Rightarrow> Some (Inr out, S, w)
       | RecvError e \<Rightarrow> Some (Inl e, S, w)
       | Datagram d \<Rightarrow>
           if buflen < length d then Some (Inl Custom, S, w)
           else sock_events k os buflen (collect_events out d) S w
     }"

definition recv_events :: "'w os \<Rightarrow> sock \<Rightarrow> 'w \<Rightarrow> ((io_error + events) \<times> sock \<times> 'w) option" where
  "recv_events os S w =
     map_option (\<lambda>(r, S', w). (r, S'\<lparr>so_buf := take_buf (64 * 1024) S\<rparr>, w))
       (sock_events DRAIN_CAP os (take_buf (64 * 1024) S) no_events S w)"

end
