(* ===== verification/Socket_Laws.thy ===== *)
theory Socket_Laws
  imports Socket Wire
begin

text \<open>
  Laws of the socket: only the kernel is believed, an answer is the answer to the question that was
  asked, and every question ends, with an answer or an error, as long as time passes.
\<close>

section \<open>Who is believed\<close>

definition from_kernel :: "'w os \<Rightarrow> u8 list \<Rightarrow> bool" where
  "from_kernel os d \<longleftrightarrow> (\<exists>nowait w w'. os_recvfrom os nowait w = (Arrived 0 d, w'))"

lemma from_kernelI: "os_recvfrom os nowait w = (Arrived 0 d, w') \<Longrightarrow> from_kernel os d"
  unfolding from_kernel_def by blast

lemma recv_flags_result:
  "recv_flags os nowait dropped S w = Some y \<Longrightarrow>
     so_seq (fst (snd y)) = so_seq S \<and> (\<forall>d. fst y = Datagram d \<longrightarrow> from_kernel os d)"
proof (induction os nowait dropped S w y rule: recv_flags.raw_induct [rotated, consumes 1, case_names 1])
  case (1 rec os nowait dropped S w y)
  obtain a v where a: "os_recvfrom os (nowait \<or> 0 < dropped) w = (a, v)" by fastforce
  show ?case
  proof (cases a)
    case (Refused e)
    then show ?thesis using 1(2) a 1(1) [of os nowait dropped S v y] by (auto split: if_splits)
  next
    case (Arrived pid d)
    then show ?thesis
      using 1(2) a 1(1) [of os nowait "Suc dropped" "S\<lparr>so_spoof_warned := True\<rparr>" v y]
      by (auto split: if_splits intro: from_kernelI)
  qed
qed

lemma recv_deadline_result:
  "recv_deadline os deadline S w = Some y \<Longrightarrow>
     so_seq (fst (snd y)) = so_seq S \<and> (\<forall>d. fst y = Inr d \<longrightarrow> from_kernel os d)"
proof (induction os deadline S w y rule: recv_deadline.raw_induct [rotated, consumes 1, case_names 1])
  case (1 rec os deadline S w y)
  obtain now v where n: "os_now os w = (now, v)" by fastforce
  show ?case
  proof (cases "deadline \<le> now")
    case True
    then show ?thesis using 1(2) n by auto
  next
    case False
    then obtain r S1 v1 where r: "recv_flags os False 0 S v = Some (r, S1, v1)"
      using 1(2) n by (auto simp: bind_eq_Some_conv)
    then show ?thesis
      using 1(2) n False recv_flags_result [OF r] 1(1) [of os deadline S1 v1 y]
      by (cases r) auto
  qed
qed

lemma sock_run_dump_result:
  "sock_run_dump os buflen want seq deadline acc S w = Some y \<Longrightarrow>
     so_seq (fst (snd y)) = so_seq S
     \<and> (\<forall>out e. fst y = (out, Inr e) \<longrightarrow>
          (\<exists>ds. (\<forall>d \<in> set ds. from_kernel os d) \<and> run_dump buflen want seq ds acc = (out, Inr e)))"
proof (induction os buflen want seq deadline acc S w y rule: sock_run_dump.raw_induct [rotated, consumes 1, case_names 1])
  case (1 rec os buflen want seq deadline acc S w y)
  then obtain r S1 v1 where r: "recv_deadline os deadline S w = Some (r, S1, v1)"
    by (auto simp: bind_eq_Some_conv)
  note R = recv_deadline_result [OF r]
  show ?case
  proof (cases r)
    case (Inl e)
    then show ?thesis using 1(2) r R by auto
  next
    case (Inr d)
    then have d: "from_kernel os d" "so_seq S1 = so_seq S" using R by auto
    show ?thesis
    proof (cases "buflen < length d")
      case True
      then have "y = ((acc, Inr (Dump_TooBig (length d))), S1, v1)" using 1(2) r Inr by simp
      then show ?thesis using d True by (auto intro!: exI [of _ "[d]"])
    next
      case False
      obtain acc' res where m: "dump_messages want seq (messages d) acc = (acc', res)" by fastforce
      show ?thesis
      proof (cases res)
        case None
        then have "rec os buflen want seq deadline acc' S1 v1 = Some y" using 1(2) r Inr False m by simp
        note IH = 1(1) [OF this]
        have "\<exists>ds. (\<forall>d \<in> set ds. from_kernel os d) \<and> run_dump buflen want seq ds acc = (out, Inr e)"
          if ended: "fst y = (out, Inr e)" for out e
        proof -
          obtain ds where "\<forall>d \<in> set ds. from_kernel os d" "run_dump buflen want seq ds acc' = (out, Inr e)"
            using IH ended by blast
          then show ?thesis using d m None False by (intro exI [of _ "d # ds"]) simp
        qed
        then show ?thesis using IH d(2) by simp
      next
        case (Some e)
        then have "y = ((acc', e), S1, v1)" using 1(2) r Inr False m by simp
        then show ?thesis using d m Some False by (auto intro!: exI [of _ "[d]"])
      qed
    qed
  qed
qed

text \<open>A list of datagrams from the kernel that the collecting loop ends on as it is said to.\<close>

definition told ::
    "'w os \<Rightarrow> nat \<Rightarrow> u16 \<Rightarrow> u32 \<Rightarrow> u8 list list \<Rightarrow> dump_end \<Rightarrow> u8 list list \<Rightarrow> bool" where
  "told os buflen want seq out how ds \<longleftrightarrow>
     (\<forall>d \<in> set ds. from_kernel os d) \<and> run_dump buflen want seq ds [] = (out, Inr how)"

lemma sock_dump_into_result:
  "sock_dump_into k os buflen req want S w = Some (r, b', S', w') \<Longrightarrow>
     r = Inr out \<Longrightarrow> \<exists>ds. told os b' want (so_seq S') out Dump_Done ds"
proof (induction k arbitrary: buflen S w)
  case (Suc k)
  let ?S = "S\<lparr>so_seq := so_seq S + 1\<rparr>"
  obtain e v where sent: "send_request os (with_seq req (so_seq ?S)) w = (e, v)" by fastforce
  show ?case
  proof (cases e)
    case (Some err)
    then show ?thesis using Suc.prems sent by (simp add: Let_def)
  next
    case None
    obtain now v1 where now: "os_now os v = (now, v1)" by fastforce
    obtain x S1 v2 where run: "sock_run_dump os buflen want (so_seq ?S) (now + READ_TIMEOUT) [] ?S v1 = Some (x, S1, v2)"
      using Suc.prems sent None now by (auto simp: Let_def bind_eq_Some_conv)
    obtain got res where x: "x = (got, res)" by fastforce
    note R = sock_run_dump_result [OF run]
    have left: "(case res of
          Inr Dump_Done \<Rightarrow> Some (Inr got, buflen, S1, v2)
        | Inr Dump_Interrupted \<Rightarrow> do { w \<leftarrow> drain os v2; sock_dump_into k os buflen req want S1 w }
        | Inr (Dump_TooBig need) \<Rightarrow>
            do { w \<leftarrow> drain os v2;
                 if CEILING < need then Some (Inl Custom, buflen, S1, w)
                 else sock_dump_into k os (min (next_power_of_two need) CEILING) req want S1 w }
        | Inl e \<Rightarrow> do { w \<leftarrow> drain os v2; Some (Inl e, buflen, S1, w) })
        = Some (r, b', S', w')"
      using Suc.prems(1) sent None now run x by (simp add: Let_def)
    show ?thesis
    proof (cases res)
      case (Inl err)
      then show ?thesis using left Suc.prems(2) by (auto simp: bind_eq_Some_conv)
    next
      case (Inr how)
      show ?thesis
      proof (cases how)
        case Dump_Done
        then have "got = out" "b' = buflen" "S' = S1" using left Inr Suc.prems(2) by auto
        moreover have "so_seq S1 = so_seq ?S" using R by simp
        ultimately show ?thesis using R x Inr Dump_Done by (simp add: told_def)
      next
        case Dump_Interrupted
        then show ?thesis using left Inr Suc by (auto simp: bind_eq_Some_conv)
      next
        case (Dump_TooBig need)
        then show ?thesis using left Inr Suc by (auto simp: bind_eq_Some_conv split: if_splits)
      qed
    qed
  qed
qed simp

lemma ack_loop_result:
  "ack_loop os seq deadline S w = Some y \<Longrightarrow>
     so_seq (fst (snd y)) = so_seq S
     \<and> (fst y = None \<longrightarrow> (\<exists>d. from_kernel os d \<and> ack_in seq (messages (take 8192 d)) = Some None))"
proof (induction os seq deadline S w y rule: ack_loop.raw_induct [rotated, consumes 1, case_names 1])
  case (1 rec os seq deadline S w y)
  then obtain r S1 v1 where r: "recv_deadline os deadline S w = Some (r, S1, v1)"
    by (auto simp: bind_eq_Some_conv)
  note R = recv_deadline_result [OF r]
  show ?case
  proof (cases r)
    case (Inl e)
    then show ?thesis using 1(2) r R by auto
  next
    case (Inr d)
    then have d: "from_kernel os d" "so_seq S1 = so_seq S" using R by auto
    show ?thesis
    proof (cases "ack_in seq (messages (take 8192 d))")
      case None
      then have "rec os seq deadline S1 v1 = Some y" using 1(2) r Inr by simp
      from 1(1) [OF this] show ?thesis using d(2) by simp
    next
      case (Some answer)
      then have "y = (answer, S1, v1)" using 1(2) r Inr by simp
      then show ?thesis using d Some by auto
    qed
  qed
qed

section \<open>Time passes\<close>

text \<open>
  What is relied on so that a call returns: the monotonic clock does not go back and moves with every
  receive; only finitely many signals interrupt (\<open>pending\<close> counts those to come); and what is queued
  runs out under non-blocking receives (\<open>queued\<close>).
\<close>

definition time_passes :: "'w os \<Rightarrow> ('w \<Rightarrow> nat) \<Rightarrow> ('w \<Rightarrow> nat) \<Rightarrow> ('w \<Rightarrow> nat) \<Rightarrow> bool" where
  "time_passes os clock pending queued \<longleftrightarrow>
     (\<forall>w now v. os_now os w = (now, v) \<longrightarrow> now = clock w \<and> clock w \<le> clock v)
     \<and> (\<forall>n w a v. os_recvfrom os n w = (a, v) \<longrightarrow>
          clock w < clock v \<and> (a = Refused EINTR \<longrightarrow> pending v < pending w))
     \<and> (\<forall>w a v. os_recvfrom os True w = (a, v) \<longrightarrow>
          (case a of Arrived _ _ \<Rightarrow> queued v < queued w | Refused e \<Rightarrow> e = EINTR \<longrightarrow> queued v \<le> queued w))"

lemma time_passesD:
  assumes "time_passes os clock pending queued"
  shows "os_now os w = (now, v) \<Longrightarrow> now = clock w \<and> clock w \<le> clock v"
    and "os_recvfrom os n w = (a, v) \<Longrightarrow> clock w < clock v"
    and "os_recvfrom os n w = (Refused EINTR, v) \<Longrightarrow> pending v < pending w"
    and "os_recvfrom os True w = (Arrived pid d, v) \<Longrightarrow> queued v < queued w"
    and "os_recvfrom os True w = (Refused EINTR, v) \<Longrightarrow> queued v \<le> queued w"
proof -
  note T = assms [unfolded time_passes_def]
  show "os_now os w = (now, v) \<Longrightarrow> now = clock w \<and> clock w \<le> clock v" using T by blast
  show "os_recvfrom os n w = (a, v) \<Longrightarrow> clock w < clock v" using T by blast
  show "os_recvfrom os n w = (Refused EINTR, v) \<Longrightarrow> pending v < pending w" using T by blast
  show "os_recvfrom os True w = (Arrived pid d, v) \<Longrightarrow> queued v < queued w" using T by fastforce
  show "os_recvfrom os True w = (Refused EINTR, v) \<Longrightarrow> queued v \<le> queued w" using T by fastforce
qed

lemma recv_flags_returns:
  assumes time: "time_passes os clock pending queued"
  shows "\<exists>r S' w'. recv_flags os nowait dropped S w = Some (r, S', w') \<and> clock w < clock w'"
proof (induction "64 - dropped" arbitrary: dropped S w rule: less_induct)
  case fewer: less
  show ?case
  proof (induction "pending w" arbitrary: w rule: less_induct)
    case less
    obtain a v where a: "os_recvfrom os (nowait \<or> 0 < dropped) w = (a, v)" by fastforce
    have on: "clock w < clock v" by (rule time_passesD(2) [OF time a])
    consider (again) "a = Refused EINTR" | (refused) e where "a = Refused e" "e \<noteq> EINTR"
      | (spoofed) pid d where "a = Arrived pid d" "pid \<noteq> 0" "Suc dropped < 64"
      | (enough) pid d where "a = Arrived pid d" "pid \<noteq> 0" "64 \<le> Suc dropped"
      | (kernel) d where "a = Arrived 0 d"
      by (cases a; cases "63 \<le> dropped") auto
    then show ?case
    proof cases
      case again
      have "pending v < pending w" using time_passesD(3) [OF time] a again by blast
      from less [OF this] obtain r S' w' where
        "recv_flags os nowait dropped S v = Some (r, S', w')" "clock v < clock w'" by blast
      then show ?thesis using a again on by (subst recv_flags.simps) auto
    next
      case spoofed
      then have "64 - Suc dropped < 64 - dropped" by linarith
      from fewer [OF this, of "S\<lparr>so_spoof_warned := True\<rparr>" v] obtain r S' w' where
        "recv_flags os nowait (Suc dropped) (S\<lparr>so_spoof_warned := True\<rparr>) v = Some (r, S', w')"
        "clock v < clock w'" by blast
      then show ?thesis using a spoofed on by (subst recv_flags.simps) auto
    qed (use a on in \<open>subst recv_flags.simps; simp\<close>)+
  qed
qed

lemma recv_deadline_returns:
  assumes time: "time_passes os clock pending queued"
  shows "\<exists>r S' w'. recv_deadline os deadline S w = Some (r, S', w') \<and> (\<forall>d. r = Inr d \<longrightarrow> clock w < clock w')"
proof (induction "deadline - clock w" arbitrary: S w rule: less_induct)
  case less
  obtain now v where n: "os_now os w = (now, v)" by fastforce
  have now: "now = clock w" "clock w \<le> clock v" using time_passesD(1) [OF time n] by blast+
  show ?case
  proof (cases "deadline \<le> now")
    case True
    then show ?thesis using n by (subst recv_deadline.simps) simp
  next
    case False
    obtain r S1 w1 where r: "recv_flags os False 0 S v = Some (r, S1, w1)" "clock v < clock w1"
      using recv_flags_returns [OF time] by blast
    show ?thesis
    proof (cases r)
      case WouldBlock
      have "deadline - clock w1 < deadline - clock w" using False now r(2) by linarith
      from less [OF this, of S1] obtain r' S' w' where
        "recv_deadline os deadline S1 w1 = Some (r', S', w')" "\<forall>d. r' = Inr d \<longrightarrow> clock w1 < clock w'"
        by blast
      then show ?thesis using n False r WouldBlock now by (subst recv_deadline.simps) auto
    qed (use n False r now in \<open>subst recv_deadline.simps; auto\<close>)+
  qed
qed

lemma drain_returns:
  assumes time: "time_passes os clock pending queued"
  shows "\<exists>w'. drain os w = Some w'"
proof (induction "queued w" arbitrary: w rule: less_induct)
  case shorter: less
  have "queued u \<le> queued w \<Longrightarrow> \<exists>w'. drain os u = Some w'" for u
  proof (induction "pending u" arbitrary: u rule: less_induct)
    case less
    obtain a v where a: "os_recvfrom os True u = (a, v)" by fastforce
    show ?case
    proof (cases a)
      case (Arrived pid d)
      then have "queued v < queued w" using time_passesD(4) [OF time] a less.prems by fastforce
      from shorter [OF this] show ?thesis using a Arrived by (subst drain.simps) simp
    next
      case (Refused e)
      show ?thesis
      proof (cases "e = EINTR")
        case True
        have "pending v < pending u" "queued v \<le> queued w"
          using time_passesD(3,5) [OF time] a Refused True less.prems by fastforce+
        from less.hyps [OF this] show ?thesis using a Refused True by (subst drain.simps) simp
      qed (use a Refused in \<open>subst drain.simps; simp\<close>)
    qed
  qed
  then show ?case by simp
qed

text \<open>
  The three loops that read datagrams under a deadline until one decides. What they share: a turn
  either ends, or has used up a datagram and goes on with a new accumulator.
\<close>

locale waiting =
  fixes loop :: "'w os \<Rightarrow> nat \<Rightarrow> 'a \<Rightarrow> sock \<Rightarrow> 'w \<Rightarrow> 'b option"
  assumes turn: "(\<And>w. \<exists>w'. drain os w = Some w') \<Longrightarrow> recv_deadline os deadline S w = Some (r, S', w')
      \<Longrightarrow> (\<exists>b. loop os deadline a S w = Some b)
        \<or> (\<exists>d a'. r = Inr d \<and> loop os deadline a S w = loop os deadline a' S' w')"
begin

lemma returns:
  assumes time: "time_passes os clock pending queued"
  shows "\<exists>b. loop os deadline a S w = Some b"
proof (induction "deadline - clock w" arbitrary: a S w rule: less_induct)
  case less
  obtain r S' w' where r: "recv_deadline os deadline S w = Some (r, S', w')"
    and on: "\<And>d. r = Inr d \<Longrightarrow> clock w < clock w'"
    using recv_deadline_returns [OF time, of deadline S w] by blast
  have "\<exists>w'. drain os w = Some w'" for w by (rule drain_returns [OF time])
  from turn [OF this r, of a] show ?case
  proof (elim disjE exE conjE)
    fix d a'
    assume d: "r = Inr d" and eq: "loop os deadline a S w = loop os deadline a' S' w'"
    have "clock w < deadline"
    proof (rule ccontr)
      assume "\<not> clock w < deadline"
      then have "\<exists>v. recv_deadline os deadline S w = Some (Inl Custom, S, v)"
        using time_passesD(1) [OF time] by (subst recv_deadline.simps) (cases "os_now os w"; fastforce)
      then show False using r d by auto
    qed
    then have "deadline - clock w' < deadline - clock w" using on [OF d] by linarith
    from less [OF this, of a' S'] show ?thesis using eq by simp
  qed simp
qed

end

interpretation dump_wait: waiting
  "\<lambda>os deadline (buflen, want, seq, acc) S w. sock_run_dump os buflen want seq deadline acc S w"
proof
  fix os :: "'w os" and deadline S w r S' w' and a :: "nat \<times> u16 \<times> u32 \<times> u8 list list"
  assume r: "recv_deadline os deadline S w = Some (r, S', w')"
  obtain buflen want seq acc where a: "a = (buflen, want, seq, acc)" by (cases a)
  show "(\<exists>b. (case a of (buflen, want, seq, acc) \<Rightarrow> \<lambda>S w. sock_run_dump os buflen want seq deadline acc S w) S w = Some b)
      \<or> (\<exists>d a'. r = Inr d \<and>
          (case a of (buflen, want, seq, acc) \<Rightarrow> \<lambda>S w. sock_run_dump os buflen want seq deadline acc S w) S w
          = (case a' of (buflen, want, seq, acc) \<Rightarrow> \<lambda>S w. sock_run_dump os buflen want seq deadline acc S w) S' w')"
  proof (cases r)
    case (Inl e)
    then show ?thesis using r a by (simp add: sock_run_dump.simps)
  next
    case (Inr d)
    show ?thesis
    proof (cases "\<not> buflen < length d \<and> snd (dump_messages want seq (messages d) acc) = None")
      case False
      then show ?thesis using r a Inr
        by (subst sock_run_dump.simps) (auto split: prod.splits option.splits)
    next
      case True
      obtain acc' where "dump_messages want seq (messages d) acc = (acc', None)"
        using True by (metis prod.collapse)
      then have "sock_run_dump os buflen want seq deadline acc S w = sock_run_dump os buflen want seq deadline acc' S' w'"
        using True r Inr by (subst sock_run_dump.simps) simp
      then show ?thesis using Inr a by fastforce
    qed
  qed
qed

interpretation ack_wait: waiting "\<lambda>os deadline seq S w. ack_loop os seq deadline S w"
proof
  fix os :: "'w os" and deadline S w r S' w' and a :: u32
  assume r: "recv_deadline os deadline S w = Some (r, S', w')"
  show "(\<exists>b. ack_loop os a deadline S w = Some b)
      \<or> (\<exists>d a'. r = Inr d \<and> ack_loop os a deadline S w = ack_loop os a' deadline S' w')"
  proof (cases "\<exists>d. r = Inr d \<and> ack_in a (messages (take 8192 d)) = None")
    case True
    then have "ack_loop os a deadline S w = ack_loop os a deadline S' w'"
      using r by (subst ack_loop.simps) auto
    then show ?thesis using True by blast
  next
    case False
    then show ?thesis using r by (subst ack_loop.simps) (cases r; auto split: option.splits)
  qed
qed

interpretation one_wait: waiting "\<lambda>os deadline (buflen, seq, want) S w. one_loop os buflen seq want deadline S w"
proof
  fix os :: "'w os" and deadline S w r S' w' and a :: "nat \<times> u32 \<times> u16"
  assume drains: "\<And>w. \<exists>w'. drain os w = Some w'" and r: "recv_deadline os deadline S w = Some (r, S', w')"
  obtain buflen seq want where a: "a = (buflen, seq, want)" by (cases a)
  show "(\<exists>b. (case a of (buflen, seq, want) \<Rightarrow> \<lambda>S w. one_loop os buflen seq want deadline S w) S w = Some b)
      \<or> (\<exists>d a'. r = Inr d \<and>
          (case a of (buflen, seq, want) \<Rightarrow> \<lambda>S w. one_loop os buflen seq want deadline S w) S w
          = (case a' of (buflen, seq, want) \<Rightarrow> \<lambda>S w. one_loop os buflen seq want deadline S w) S' w')"
  proof (cases "\<exists>d. r = Inr d \<and> \<not> buflen < length d \<and> one_answer want seq (messages d) = None")
    case True
    then have "one_loop os buflen seq want deadline S w = one_loop os buflen seq want deadline S' w'"
      using r by (subst one_loop.simps) auto
    then show ?thesis using True a by fastforce
  next
    case False
    have "\<exists>b. one_loop os buflen seq want deadline S w = Some b"
    proof (cases r)
      case (Inl e)
      then show ?thesis using r by (subst one_loop.simps) simp
    next
      case (Inr d)
      obtain v where v: "drain os w' = Some v" using drains by blast
      show ?thesis
      proof (cases "buflen < length d")
        case True
        then show ?thesis using r Inr v by (subst one_loop.simps) simp
      next
        case short: False
        then obtain x where "one_answer want seq (messages d) = Some x" using False Inr by auto
        then show ?thesis using r Inr short by (subst one_loop.simps) (cases x; simp)
      qed
    qed
    then show ?thesis using a by simp
  qed
qed

text \<open>Every question comes back.\<close>

lemma sock_dump_into_returns:
  assumes time: "time_passes os clock pending queued"
  shows "\<exists>y. sock_dump_into k os buflen req want S w = Some y"
proof (induction k arbitrary: buflen S w)
  case (Suc k)
  let ?S = "S\<lparr>so_seq := so_seq S + 1\<rparr>"
  obtain e v where sent: "send_request os (with_seq req (so_seq ?S)) w = (e, v)" by fastforce
  obtain now v1 where now: "os_now os v = (now, v1)" by fastforce
  obtain out r S1 v2 where run:
    "sock_run_dump os buflen want (so_seq ?S) (now + READ_TIMEOUT) [] ?S v1 = Some ((out, r), S1, v2)"
    using dump_wait.returns [OF time, of "now + READ_TIMEOUT" "(buflen, want, so_seq ?S, [])" ?S v1] by auto
  obtain v3 where d: "drain os v2 = Some v3" using drain_returns [OF time] by blast
  show ?case
  proof (cases e)
    case None
    then show ?thesis
      using sent now run d Suc.IH by (cases r rule: sum.exhaust) (simp_all add: Let_def split: dump_end.split)
  qed (use sent in \<open>simp add: Let_def\<close>)
qed simp

lemma request_one_returns:
  assumes time: "time_passes os clock pending queued"
  shows "\<exists>y. request_one_grown k os buflen req seq want S w = Some y"
proof (induction k arbitrary: buflen S w)
  case (Suc k)
  obtain e v where sent: "send_request os req w = (e, v)" by fastforce
  obtain now v1 where now: "os_now os v = (now, v1)" by fastforce
  obtain r S1 v2 where run: "one_loop os buflen seq want (now + READ_TIMEOUT) S v1 = Some (r, S1, v2)"
    using one_wait.returns [OF time, of "now + READ_TIMEOUT" "(buflen, seq, want)" S v1] by auto
  show ?case
  proof (cases e)
    case None
    then show ?thesis
      using sent now run Suc.IH
      by (cases r rule: sum.exhaust) (simp_all add: request_one_into_def split: one_end.split)
  qed (simp add: sent)
qed simp

section \<open>An operating system to look at\<close>

text \<open>What arrives is written down; the clock moves by a nanosecond, or by a second spent waiting.\<close>

type_synonym script = "nat \<times> arrival list"

definition scripted_recv :: "bool \<Rightarrow> script \<Rightarrow> arrival \<times> script" where
  "scripted_recv nowait w =
     (case w of (t, as) \<Rightarrow>
        case as of [] \<Rightarrow> (Refused EAGAIN, (t + 1000000000, [])) | a # as \<Rightarrow> (a, (t + 1, as)))"

definition scripted :: "script os" where
  "scripted = \<lparr>os_send = (\<lambda>buf w. (Inr (length buf), w)), os_recvfrom = scripted_recv,
     os_now = (\<lambda>w. (fst w, w))\<rparr>"

lemma scripted_time: "time_passes scripted fst (length \<circ> snd) (length \<circ> snd)"
  by (auto simp: time_passes_def scripted_def scripted_recv_def split: list.splits arrival.splits)

lemma scripted_recv_flags:
  "recv_flags scripted nw dr S (t, Arrived 0 d # as) = Some (Datagram d, S, (t + 1, as))"
  "pid \<noteq> 0 \<Longrightarrow> dr < 63 \<Longrightarrow> recv_flags scripted nw dr S (t, Arrived pid d # as)
     = recv_flags scripted nw (Suc dr) (S\<lparr>so_spoof_warned := True\<rparr>) (t + 1, as)"
  "recv_flags scripted nw dr S (t, Refused EINTR # as) = recv_flags scripted nw dr S (t + 1, as)"
  by (subst recv_flags.simps; simp add: scripted_def scripted_recv_def)+

lemma scripted_recv_deadline:
  "t < deadline \<Longrightarrow> recv_flags scripted False 0 S (t, as) = Some (Datagram d, S', w')
     \<Longrightarrow> recv_deadline scripted deadline S (t, as) = Some (Inr d, S', w')"
  by (subst recv_deadline.simps) (simp add: scripted_def)

lemma scripted_fields [simp]:
  "os_now scripted w = (fst w, w)" "send_request scripted buf w = (None, w)"
  by (simp_all add: scripted_def send_request_def)

text \<open>A forged end of the dump before the kernel's two messages; and an acknowledgement.\<close>

definition one_link :: "u8 list" where
  "one_link = put_nlmsghdr 20 RTM_NEWLINK 0 2 @ [1, 2, 3, 4]"

definition ack_of :: "u32 \<Rightarrow> u8 list" where
  "ack_of seq = put_nlmsghdr 20 NLMSG_ERROR 0 seq @ bytes32 0"

lemma messages_samples:
  "messages one_link = [\<lparr>m_kind = RTM_NEWLINK, m_flags = 0, m_seq = 2, m_payload = [1, 2, 3, 4]\<rparr>]"
  "messages (ack_of seq) = [\<lparr>m_kind = NLMSG_ERROR, m_flags = 0, m_seq = seq, m_payload = bytes32 0\<rparr>]"
  "length one_link = 20" "length (ack_of seq) = 20"
  unfolding one_link_def ack_of_def by (simp_all add: messages_request)

definition forged_script :: script where
  "forged_script = (0, [Arrived 7 (done_message 2), Arrived 0 one_link, Arrived 0 (done_message 2)])"

definition acked_script :: script where
  "acked_script = (0, [Arrived 0 (ack_of 9), Refused EINTR, Arrived 0 (ack_of 2)])"

section \<open>Properties\<close>



text \<open>C12: A write counts as done only when the kernel said so. If \<open>set_self_fdb\<close> succeeds, a datagram
  from the kernel held a message under the number of this very request, of the error type, with a code,
  and the code was zero.\<close>

theorem written_means_acknowledged:
  assumes "sock_set_self_fdb os i m add S w = Some (None, S', w')"
  shows "so_seq S' = so_seq S + 1
    \<and> (\<exists>d msg. from_kernel os d \<and> msg \<in> set (messages (take 8192 d)) \<and> m_seq msg = so_seq S'
         \<and> m_kind msg = NLMSG_ERROR \<and> 4 \<le> length (m_payload msg) \<and> nlmsg_error (m_payload msg) = None)"
proof -
  have ack: "ack_in seq ms = Some None \<Longrightarrow> \<exists>msg \<in> set ms. m_seq msg = seq \<and> m_kind msg = NLMSG_ERROR
      \<and> 4 \<le> length (m_payload msg) \<and> nlmsg_error (m_payload msg) = None" for seq ms
    by (induction seq ms rule: ack_in.induct) (auto split: if_splits)
  let ?S = "S\<lparr>so_seq := so_seq S + 1\<rparr>"
  obtain req where r: "self_fdb_request i m add (so_seq ?S) = Some req"
    by (auto simp: self_fdb_request_def put_attr_def)
  obtain e v where sent: "send_request os req w = (e, v)" by fastforce
  obtain now v1 where now: "os_now os v = (now, v1)" by fastforce
  have "e = None" using assms r sent by (cases e) (simp_all add: sock_set_self_fdb_def Let_def)
  then have "ack_loop os (so_seq ?S) (now + READ_TIMEOUT) ?S v1 = Some (None, S', w')"
    using assms r sent now by (simp add: sock_set_self_fdb_def Let_def)
  from ack_loop_result [OF this] show ?thesis using ack by fastforce
qed

lemma written_means_acknowledged_witness:
  "\<exists>S' w'. sock_set_self_fdb scripted 2 (Mac 2 0 0 0 0 7) True new_sock acked_script = Some (None, S', w')
     \<and> so_seq S' = 2"
proof -
  let ?S = "new_sock\<lparr>so_seq := so_seq new_sock + 1\<rparr>" and ?dl = "0 + READ_TIMEOUT"
  have one: "recv_deadline scripted ?dl ?S acked_script
      = Some (Inr (ack_of 9), ?S, (1, [Refused EINTR, Arrived 0 (ack_of 2)]))"
    unfolding acked_script_def by (rule scripted_recv_deadline) (simp_all add: scripted_recv_flags)
  have two: "recv_deadline scripted ?dl ?S (1, [Refused EINTR, Arrived 0 (ack_of 2)])
      = Some (Inr (ack_of 2), ?S, (3, []))"
    by (rule scripted_recv_deadline) (simp_all add: scripted_recv_flags)
  have answers: "ack_in 2 (messages (take 8192 (ack_of 9))) = None"
    "ack_in 2 (messages (take 8192 (ack_of 2))) = Some None"
    by (simp_all add: messages_samples)
  have "ack_loop scripted 2 ?dl ?S (1, [Refused EINTR, Arrived 0 (ack_of 2)]) = Some (None, ?S, (3, []))"
    using two answers(2) by (subst ack_loop.simps) simp
  then have ack: "ack_loop scripted 2 ?dl ?S acked_script = Some (None, ?S, (3, []))"
    using one answers(1) by (subst ack_loop.simps) simp
  obtain req where "self_fdb_request 2 (Mac 2 0 0 0 0 7) True 2 = Some req"
    by (auto simp: self_fdb_request_def put_attr_def)
  then obtain S' w' where run:
    "sock_set_self_fdb scripted 2 (Mac 2 0 0 0 0 7) True new_sock acked_script = Some (None, S', w')"
    using ack by (auto simp: sock_set_self_fdb_def Let_def new_sock_def acked_script_def)
  from written_means_acknowledged [OF run] run show ?thesis by (auto simp: new_sock_def)
qed

text \<open>C11: No question hangs the daemon. As long as the clock moves with every receive, signals are
  finitely many and the queue can be emptied, a dump, a question about one interface and a write each
  return, whatever arrives: forged datagrams, other answers, answers that do not fit, or nothing.\<close>

theorem every_question_returns:
  assumes "time_passes os clock pending queued"
  shows "sock_dump os req want S w \<noteq> None \<and> request_one_from start os req want S w \<noteq> None
    \<and> sock_set_self_fdb os i m add S w \<noteq> None"
proof -
  obtain req' where r: "self_fdb_request i m add (so_seq S + 1) = Some req'"
    by (auto simp: self_fdb_request_def put_attr_def)
  obtain e v where sent: "send_request os req' w = (e, v)" by fastforce
  obtain now v1 where now: "os_now os v = (now, v1)" by fastforce
  let ?S = "S\<lparr>so_seq := so_seq S + 1\<rparr>"
  obtain b where "ack_loop os (so_seq S + 1) (now + READ_TIMEOUT) ?S v1 = Some b"
    using ack_wait.returns [OF assms] by blast
  then have "sock_set_self_fdb os i m add S w \<noteq> None"
    using r sent now by (cases e) (simp_all add: sock_set_self_fdb_def Let_def)
  moreover have "sock_dump os req want S w \<noteq> None"
    using sock_dump_into_returns [OF assms, of ATTEMPTS "take_buf (64 * 1024) S" req want S w]
    by (auto simp: sock_dump_def sock_dump_from_def)
  moreover have "request_one_from start os req want S w \<noteq> None"
    using request_one_returns [OF assms, of ATTEMPTS "take_buf start S" req "u32_of (slice 8 4 req)" want S w]
    by (auto simp: request_one_from_def)
  ultimately show ?thesis by blast
qed

lemma every_question_returns_witness:
  "sock_dump scripted [] RTM_NEWLINK new_sock (0, []) \<noteq> None
   \<and> sock_set_self_fdb scripted 2 (Mac 2 0 0 0 0 7) True new_sock (0, []) \<noteq> None"
  using every_question_returns [OF scripted_time] by blast

end
