(* ===== verification/Pass_Laws.thy ===== *)
theory Pass_Laws
  imports Reconcile Card_Laws
begin

text \<open>
  Laws of a pass over one uplink, and of the ways a note ends: the writing half of \<open>Reconcile\<close> and
  \<open>Sweep\<close>. They rest on the contracts of \<open>Card_Laws\<close> and \<open>Note_Laws\<close>; what is new here is what the
  composition of those operations keeps, and what it reaches when nothing fails.
\<close>

section \<open>Sets of addresses\<close>

lemma finite_macs [simp]: "finite (A :: mac set)"
proof -
  have "inj mac_key" by (rule injI) simp
  then have "finite (UNIV :: mac set)" using finite_imageD [of mac_key UNIV] by simp
  then show ?thesis by (rule rev_finite_subset) simp
qed

text \<open>The order a process iterates a set in is some order of that set.\<close>

definition honest_order :: "'w env \<Rightarrow> bool" where
  "honest_order E \<longleftrightarrow> (\<forall>A. distinct (e_order E A) \<and> set (e_order E A) = A)"

lemma honest_orderD [simp]:
  assumes "honest_order E"
  shows "set (e_order E A) = A" "distinct (e_order E A)" "e_order E A = [] \<longleftrightarrow> A = {}"
proof -
  show "set (e_order E A) = A" "distinct (e_order E A)" using assms by (simp_all add: honest_order_def)
  then show "e_order E A = [] \<longleftrightarrow> A = {}" by (metis set_empty)
qed

section \<open>What leaves the notes alone\<close>

definition undisturbed :: "store \<Rightarrow> store \<Rightarrow> bool" where
  "undisturbed s s' \<longleftrightarrow>
     (\<forall>d. file_at (st_disk s') (OwnedP d) = file_at (st_disk s) (OwnedP d)) \<and> (coherent s \<longrightarrow> coherent s')"

lemma undisturbed_refl [simp]: "undisturbed s s"
  by (simp add: undisturbed_def)

lemma undisturbed_trans [trans]: "undisturbed s t \<Longrightarrow> undisturbed t u \<Longrightarrow> undisturbed s u"
  by (simp add: undisturbed_def)

lemma undisturbedD:
  assumes "undisturbed s s'"
  shows "text_at s' d = text_at s d" "note_of s' d = note_of s d" "coherent s \<Longrightarrow> coherent s'"
  using assms by (simp_all add: undisturbed_def text_at_def note_of_def)

lemma accounted_undisturbed:
  "undisturbed s s' \<Longrightarrow> accounted held base dev i (s, w) \<Longrightarrow> accounted held base dev i (s', w)"
  by (auto simp: accounted_def undisturbedD)

lemma undisturbed_said: "undisturbed s (s\<lparr>st_said := x\<rparr>)"
  by (auto simp: undisturbed_def coherent_def note_of_def text_at_def)

lemma undisturbed_map_said [simp]: "undisturbed (sy_store S) (sy_store (map_said f S))"
  by (simp add: map_said_def Let_def undisturbed_said)

lemma undisturbed_locked [simp]: "undisturbed s (locked fs s dev)"
  by (simp add: undisturbed_def)

lemma undisturbed_note_index [simp]: "undisturbed s (note_index fs s dev i)"
  by (simp add: undisturbed_def note_index_owned coherent_note_index)

lemma undisturbed_load: "coherent s \<Longrightarrow> undisturbed s (snd (load_owned fs s dev))"
  using load_owned_spec(1,2) [OF _ prod.collapse [symmetric]] by (simp add: undisturbed_def)

lemma undisturbed_save_ports [simp]: "undisturbed (sy_store S) (sy_store (save_ports fs T dev pass_at S))"
proof -
  let ?s = "locked fs (sy_store S) dev"
  have gone: "undisturbed s (s\<lparr>st_disk := unlink (st_disk s) (PortsP dev)\<rparr>)" for s
    using touches_other_coherent [of s "s\<lparr>st_disk := unlink (st_disk s) (PortsP dev)\<rparr>"]
    by (simp add: undisturbed_def)
  have put: "undisturbed ?s (snd (write_ports fs ?s dev ls))" for ls
    using write_ports_owned [of fs ?s dev ls "fst (write_ports fs ?s dev ls)" "snd (write_ports fs ?s dev ls)"]
      coherent_write_ports [of ?s fs dev ls]
    by (simp add: undisturbed_def)
  show ?thesis
    using undisturbed_trans [OF undisturbed_locked gone, of "sy_store S" fs dev] undisturbed_trans [OF undisturbed_locked put]
    unfolding save_ports_def Let_def case_prod_beta by simp
qed

lemma store_of_memory [simp]:
  "sy_store (drop_ports S dev ms) = sy_store S"
  "sy_store (leave_carried dev crd n kept wire readable pass_at S) = sy_store S"
  "sy_store (fst (load_ports E T dev S w)) = sy_store S"
  by (auto simp: drop_ports_def leave_carried_def load_ports_def Let_def case_prod_beta split: option.split)

lemma undisturbed_follow_pass [simp]:
  "undisturbed (sy_store S) (sy_store (follow_pass E T apply_it dev readable learnt owned pass_at S))"
  using undisturbed_save_ports [of "S\<lparr>sy_carried_ports := x\<rparr>" for x]
  by (auto simp: follow_pass_def Let_def)

section \<open>One interface at a time\<close>

text \<open>Everything but one uplink's note and one interface's list is as it was.\<close>

definition only_here :: "('w \<Rightarrow> ifindex \<Rightarrow> mac set) \<Rightarrow> name \<Rightarrow> ifindex \<Rightarrow> store \<times> 'w \<Rightarrow> store \<times> 'w \<Rightarrow> bool" where
  "only_here held dev i x y \<longleftrightarrow>
     (\<forall>j. j \<noteq> i \<longrightarrow> held (snd y) j = held (snd x) j) \<and> (\<forall>d. d \<noteq> dev \<longrightarrow> text_at (fst y) d = text_at (fst x) d)"

lemma only_here_refl [simp]: "only_here held dev i x x"
  by (simp add: only_here_def)

lemma only_here_trans [trans]: "only_here held dev i x y \<Longrightarrow> only_here held dev i y z \<Longrightarrow> only_here held dev i x z"
  by (simp add: only_here_def)

lemma only_here_undisturbed: "undisturbed s s' \<Longrightarrow> only_here held dev i (s, w) (s', w)"
  by (simp add: only_here_def undisturbedD)

lemma only_here_touches_only: "touches_only dev s s' \<Longrightarrow> only_here held dev i (s, w) (s', w)"
  by (simp add: only_here_def touches_only_def text_at_def)

text \<open>The three writing stretches of a pass over one uplink.\<close>

lemma add_wanted_spec:
  assumes K: "card_laws (e_kernel E) held" and ord: "honest_order E" and whole: "whole_appends (e_fs E)"
    and acc: "accounted held base dev i (sy_store S, w)"
    and run: "add_wanted E apply_it dev i ob present want S w = (oc, S', w')"
  shows "accounted held base dev i (sy_store S', w')" "only_here held dev i (sy_store S, w) (sy_store S', w')"
    "ob \<subseteq> oc_owned oc" "held w i \<subseteq> held w' i" "sy_dry_run S' = sy_dry_run S"
    "apply_it \<and> \<not> sy_dry_run S \<Longrightarrow> oc_failures oc = [] \<Longrightarrow> want - present \<subseteq> held w' i"
proof -
  let ?add = "e_order E (want - present)"
  have "accounted held base dev i (sy_store S', w') \<and> only_here held dev i (sy_store S, w) (sy_store S', w')
      \<and> ob \<subseteq> oc_owned oc \<and> held w i \<subseteq> held w' i \<and> sy_dry_run S' = sy_dry_run S
      \<and> (apply_it \<and> \<not> sy_dry_run S \<longrightarrow> oc_failures oc = [] \<longrightarrow> want - present \<subseteq> held w' i)"
  proof (cases "(apply_it \<and> \<not> sy_dry_run S) \<and> ?add \<noteq> []")
    case False
    then have eq: "w' = w" "oc_owned oc = ob" "sy_dry_run S' = sy_dry_run S"
      "undisturbed (sy_store S) (sy_store S')" "apply_it \<and> \<not> sy_dry_run S \<Longrightarrow> want - present = {}"
      using run ord by (auto simp: add_wanted_def Let_def split: if_splits)
    then show ?thesis
      using accounted_undisturbed [OF eq(4) acc] only_here_undisturbed [OF eq(4), of held dev i w] by auto
  next
    case True
    let ?s = "note_index (e_fs E) (sy_store S) dev i"
    obtain r s1 w1 where reg: "register_batch_locked E dev i ?add ?s w = (r, s1, w1)"
      by (cases "register_batch_locked E dev i ?add ?s w") auto
    have un: "undisturbed (sy_store S) ?s" by simp
    have acc': "accounted held base dev i (?s, w)" using accounted_undisturbed [OF un acc] .
    then have s: "sound_note ?s dev" by (simp add: accounted_def)
    have "distinct ?add" using ord by simp
    note R = register_batch_spec [OF K s this reg]
    have eq: "w' = w1" "sy_store S' = s1" "sy_dry_run S' = sy_dry_run S"
      "oc_owned oc = (case r of None \<Rightarrow> ob | Some rg \<Rightarrow> ob \<union> set (rg_put rg))"
      "oc_failures oc = (case r of None \<Rightarrow> [NoteUnusable dev (length ?add)]
         | Some rg \<Rightarrow> map (\<lambda>(m, e). RegisterFailed dev m e) (rg_failures rg))"
      using run True reg by (auto simp: add_wanted_def Let_def split: option.splits)
    have "accounted held base dev i (s1, w1)" using acc' R(1,5,6,9) whole by (auto simp: accounted_def)
    moreover have "only_here held dev i (sy_store S, w) (s1, w1)"
      using R(4) only_here_trans [OF only_here_undisturbed [OF un, of held dev i w] only_here_touches_only [OF R(2), of held i w]]
      by (simp add: only_here_def)
    moreover have "want - present \<subseteq> held w1 i" if "oc_failures oc = []"
      using that eq(5) R(8) ord by (cases r) auto
    ultimately show ?thesis
      using R(3) unfolding eq(1-4) by (simp split: option.split)
  qed
  then show "accounted held base dev i (sy_store S', w')" "only_here held dev i (sy_store S, w) (sy_store S', w')"
    "ob \<subseteq> oc_owned oc" "held w i \<subseteq> held w' i" "sy_dry_run S' = sy_dry_run S"
    "apply_it \<and> \<not> sy_dry_run S \<Longrightarrow> oc_failures oc = [] \<Longrightarrow> want - present \<subseteq> held w' i" by blast+
qed

lemma remove_stale_spec:
  assumes K: "card_laws (e_kernel E) held" and ord: "honest_order E"
    and acc: "accounted held base dev i (sy_store S, w)"
    and run: "remove_stale E apply_it dev i want oc S w = (oc', S', w')"
  shows "accounted held base dev i (sy_store S', w')" "only_here held dev i (sy_store S, w) (sy_store S', w')"
    "held w i \<inter> want \<subseteq> held w' i" "held w' i \<subseteq> held w i" "sy_dry_run S' = sy_dry_run S"
    "oc_owned oc' \<subseteq> oc_owned oc" "held w' i \<inter> (oc_owned oc - oc_owned oc') = {}"
    "oc_failures oc' = [] \<Longrightarrow> oc_failures oc = []"
    "apply_it \<and> \<not> sy_dry_run S \<Longrightarrow> oc_failures oc' = [] \<Longrightarrow> held w' i \<inter> (oc_owned oc - want) = {}"
proof -
  have "accounted held base dev i (sy_store S', w') \<and> only_here held dev i (sy_store S, w) (sy_store S', w')
      \<and> held w i \<inter> want \<subseteq> held w' i \<and> held w' i \<subseteq> held w i \<and> sy_dry_run S' = sy_dry_run S
      \<and> oc_owned oc' \<subseteq> oc_owned oc \<and> held w' i \<inter> (oc_owned oc - oc_owned oc') = {}
      \<and> (oc_failures oc' = [] \<longrightarrow> oc_failures oc = [])
      \<and> (apply_it \<and> \<not> sy_dry_run S \<longrightarrow> oc_failures oc' = [] \<longrightarrow> held w' i \<inter> (oc_owned oc - want) = {})"
  proof (cases "apply_it \<and> \<not> sy_dry_run S \<and> e_order E (oc_owned oc - want) \<noteq> []")
  case False
  then have "w' = w" "S' = S" "oc_owned oc' = oc_owned oc" "oc_failures oc' = oc_failures oc"
    "apply_it \<and> \<not> sy_dry_run S \<Longrightarrow> oc_owned oc - want = {}"
    using run ord by (auto simp: remove_stale_def Let_def split: if_splits)
  then show ?thesis
    using acc by auto
next
  case True
  let ?stale = "e_order E (oc_owned oc - want)"
  obtain out s1 w1 where ret: "retire E dev i ?stale (sy_store S) w = (out, s1, w1)"
    by (cases "retire E dev i ?stale (sy_store S) w") auto
  have s: "sound_note (sy_store S) dev" using acc by (simp add: accounted_def)
  note R = retire_spec [OF K s ret]
  have stale: "set ?stale = oc_owned oc - want" using ord by simp
  have eq: "w' = w1" "sy_store S' = s1" "sy_dry_run S' = sy_dry_run S"
    "oc_owned oc' = oc_owned oc - set (rt_dropped out)"
    "oc_failures oc' = oc_failures oc @ map (\<lambda>(m, e). UnregisterFailed dev m e) (rt_failed out)"
    using run True ret by (auto simp: remove_stale_def Let_def drop_ports_def split: option.splits)
  have "accounted held base dev i (s1, w1)"
    using acc R(1,3,6,7) by (auto simp: accounted_def set_eq_iff subset_iff)
  moreover have "only_here held dev i (sy_store S, w) (s1, w1)"
    using R(3) only_here_touches_only [OF R(2), of held i w] by (simp add: only_here_def)
  moreover have "held w i \<inter> want \<subseteq> held w1 i" "held w1 i \<subseteq> held w i" using R(3-5) stale by auto
  moreover have "held w1 i \<inter> (oc_owned oc - (oc_owned oc - set (rt_dropped out))) = {}" using R(6) by blast
  moreover have "held w1 i \<inter> (oc_owned oc - want) = {}" if "rt_failed out = []" using that R(5,6) stale by auto
  ultimately show ?thesis
    unfolding eq by simp
  qed
  then show "accounted held base dev i (sy_store S', w')" "only_here held dev i (sy_store S, w) (sy_store S', w')"
    "held w i \<inter> want \<subseteq> held w' i" "held w' i \<subseteq> held w i" "sy_dry_run S' = sy_dry_run S"
    "oc_owned oc' \<subseteq> oc_owned oc" "held w' i \<inter> (oc_owned oc - oc_owned oc') = {}"
    "oc_failures oc' = [] \<Longrightarrow> oc_failures oc = []"
    "apply_it \<and> \<not> sy_dry_run S \<Longrightarrow> oc_failures oc' = [] \<Longrightarrow> held w' i \<inter> (oc_owned oc - want) = {}"
    by blast+
qed

text \<open>The merge takes off the note only what the card has let go.\<close>

lemma merge_note_spec:
  assumes acc: "accounted held base dev i (sy_store S, w)" and gone: "held w i \<inter> (ob - owned) = {}"
  shows "accounted held base dev i (sy_store (merge_note E apply_it dev ob owned S), w)"
    "only_here held dev i (sy_store S, w) (sy_store (merge_note E apply_it dev ob owned S), w)"
proof -
  obtain os where os: "owned = set os" using finite_list [OF finite_macs] by metis
  let ?t = "save_owned_merged (e_fs E) (sy_dry_run S) (sy_store S) dev ob (set os)"
  have s: "coherent (sy_store S)" "tidy (text_at (sy_store S) dev)" using acc by (simp_all add: accounted_def)
  have "accounted held base dev i (?t, w)"
    using merged_tidy.sound [OF s, of "held w i" base ob os "e_fs E" "sy_dry_run S"] acc gone os
    by (auto simp: accounted_def)
  moreover have "only_here held dev i (sy_store S, w) (?t, w)"
    by (rule only_here_touches_only [OF merged.frame [OF s(1)]])
  ultimately show "accounted held base dev i (sy_store (merge_note E apply_it dev ob owned S), w)"
    "only_here held dev i (sy_store S, w) (sy_store (merge_note E apply_it dev ob owned S), w)"
    using acc os by (simp_all add: merge_note_def)
qed

text \<open>Which interface a note is about.\<close>

definition note_is_about :: "fs \<Rightarrow> store \<Rightarrow> name \<Rightarrow> ifindex \<Rightarrow> bool" where
  "note_is_about fs s dev i \<longleftrightarrow> recorded_index fs s dev \<in> {None, Some i}"

text \<open>
  What becomes of the records when one uplink is worked on: nothing but its own record, which may be
  forgotten or removed, and in a pass written. Whatever a relation of stores says of these, it says of all
  the operations below.
\<close>

locale record_drop =
  fixes E :: "'w env" and dev :: name and R :: "store \<Rightarrow> store \<Rightarrow> bool"
  assumes trans: "R s t \<Longrightarrow> R t u \<Longrightarrow> R s u"
    and forgets: "(\<And>d. st_indices s' d = st_indices s d \<or> d = dev \<and> st_indices s' d = None)
      \<Longrightarrow> (\<And>d. file_at (st_disk s') (IndexP d) = file_at (st_disk s) (IndexP d)) \<Longrightarrow> R s s'"
    and removes: "R s (remove_note s dev)"
begin

lemma basic:
  "R s s" "R s (locked fs s d)" "R s (drop_cached s d)" "R s (remember s d macs m)" "R s (snd (read_owned fs s d))"
  "R s (snd (put_file fs s (OwnedP d) t))" "R s (snd (write_ports fs s d ls))"
  "R s (s\<lparr>st_disk := unlink (st_disk s) (PortsP d)\<rparr>)" "R s (s\<lparr>st_disk := snd (append_text fs (st_disk s) d t)\<rparr>)"
  by (rule forgets;
      auto simp: locked_def drop_cached_def remember_def read_owned_def put_file_def write_ports_def append_text_def
        map_said_def Let_def split: option.split append_outcome.split)+

lemma load: "R s (snd (load_owned fs s dev))"
  by (rule forgets)
    (auto simp: load_owned_def with_owned_between_def read_owned_def remember_def drop_cached_def Let_def case_prod_beta
      split: option.split)

lemma said: "R s (sy_store (map_said f S)) \<longleftrightarrow> R s (sy_store S)"
proof -
  have "R (sy_store S) (sy_store (map_said f S))" "R (sy_store (map_said f S)) (sy_store S)"
    by (rule forgets; simp add: map_said_def Let_def)+
  then show ?thesis using trans by blast
qed

lemma write_note: "R s (snd (write_owned fs s dev macs))"
proof -
  let ?l = "snd (load_owned fs s dev)"
  let ?p = "snd (put_file fs ?l (OwnedP dev) (owned_text macs))"
  have "R s ?p" by (rule trans [OF load basic(6)])
  then show ?thesis
    using load basic(1) trans [OF _ basic(3), of s ?p] trans [OF _ basic(4), of s ?p]
    by (auto simp: write_owned_def Let_def case_prod_beta)
qed

lemma append_note: "R s (snd (append_owned_locked fs s dev added))"
proof -
  let ?l = "snd (load_owned fs s dev)"
  let ?t = "\<lambda>ms. ?l\<lparr>st_disk := snd (append_text fs (st_disk ?l) dev (concat (map line_of ms)))\<rparr>"
  have t: "R s (?t ms)" for ms by (rule trans [OF load basic(9)])
  show ?thesis
    using load [of s fs] trans [OF t basic(3)] trans [OF t basic(4)] trans [OF trans [OF t basic(4)] basic(3)]
    unfolding append_owned_locked_def Let_def case_prod_beta by simp
qed

lemma unnote: "R s (snd (unnote_locked fs s dev macs))"
  using basic(1) load [of s fs] trans [OF load write_note] by (simp add: unnote_locked_def Let_def case_prod_beta)

lemma forget: "R s (forget_locked fs s dev macs)"
  using basic(1) trans [OF basic(5) write_note] by (simp add: forget_locked_def Let_def case_prod_beta)

lemma merge: "R s (save_owned_merged fs dry s dev before after)"
  using basic(1) trans [OF trans [OF basic(2) basic(5)] write_note]
  by (simp add: save_owned_merged_def Let_def case_prod_beta)

lemma register: "R s (fst (snd (register_batch_locked E dev i macs s w)))"
  using trans [OF basic(2) append_note] trans [OF trans [OF basic(2) append_note] unnote]
  by (simp add: register_batch_locked_def Let_def case_prod_beta split: option.split)

lemma retire: "R s (fst (snd (Card.retire E dev i macs s w)))"
  using trans [OF basic(2) forget] by (simp add: retire_def Let_def case_prod_beta)

lemma ports: "R (sy_store S) (sy_store (save_ports fs T dev pass_at S))"
  using basic(1,2) trans [OF basic(2) basic(7)] trans [OF basic(2) basic(8)]
  unfolding save_ports_def Let_def case_prod_beta by simp

lemma stale:
  assumes "remove_stale E apply_it dev i want oc S w = (oc', S', w')"
  shows "R (sy_store S) (sy_store S')"
  using assms basic(1) retire unfolding remove_stale_def Let_def case_prod_beta by (auto split: if_splits)

lemma follow: "R (sy_store S) (sy_store (follow_pass E T apply_it dev readable learnt owned pass_at S))"
  using basic(1) ports [of "S\<lparr>sy_carried_ports := x\<rparr>" for x] by (auto simp: follow_pass_def Let_def)

end

locale record_law = record_drop E dev R
  for E :: "'w env" and dev :: name and i :: ifindex and R :: "store \<Rightarrow> store \<Rightarrow> bool" +
  assumes stamps: "R s (note_index (e_fs E) s dev i)"
begin

lemma added:
  assumes "add_wanted E apply_it dev i ob present want S w = (oc, S', w')"
  shows "R (sy_store S) (sy_store S')"
  using assms basic(1) stamps trans [OF stamps register]
  unfolding add_wanted_def Let_def case_prod_beta by (auto split: if_splits option.splits)

lemma finish:
  assumes "p_dev p = dev" "l_index dl = i"
    and "finish_pair E T apply_it p dl an fdb pass_at ob readable d vfs S w = (rep, fails, S', w')"
  shows "R (sy_store S) (sy_store S')"
proof -
  let ?S2 = "map_said (note_unpinned dev (sy_extra (map_said (warn_about_unknowable_vfs T dev an vfs) S)) (w_want d))
      (map_said (warn_about_unknowable_vfs T dev an vfs) S)"
  let ?pr = "press_pair T dev an fdb ob d ?S2"
  obtain oc S3 w3 where add: "add_wanted E apply_it dev i ob (self_list fdb i) (pr_want ?pr) ?S2 w = (oc, S3, w3)"
    by (cases "add_wanted E apply_it dev i ob (self_list fdb i) (pr_want ?pr) ?S2 w") auto
  obtain oc' S4 w4 where rem: "remove_stale E apply_it dev i (pr_want ?pr) oc S3 w3 = (oc', S4, w4)"
    by (cases "remove_stale E apply_it dev i (pr_want ?pr) oc S3 w3") auto
  let ?S5 = "merge_note E apply_it dev ob (oc_owned oc') S4"
  have "R (sy_store S) (sy_store ?S2)" by (simp add: said basic(1))
  moreover have "R (sy_store ?S2) (sy_store S3)" by (rule added [OF add])
  moreover have "R (sy_store S3) (sy_store S4)" by (rule stale [OF rem])
  moreover have "R (sy_store S4) (sy_store ?S5)" by (simp add: merge_note_def merge basic(1))
  moreover have "R (sy_store ?S5) (sy_store S')"
    using assms follow by (auto simp: finish_pair_def Let_def add rem said)
  ultimately show ?thesis using trans by blast
qed

end

text \<open>An operation on one device leaves the interface records of the others alone.\<close>

definition same_records :: "name \<Rightarrow> store \<Rightarrow> store \<Rightarrow> bool" where
  "same_records dev s s' \<longleftrightarrow>
     (\<forall>d. d \<noteq> dev \<longrightarrow> st_indices s' d = st_indices s d
        \<and> file_at (st_disk s') (IndexP d) = file_at (st_disk s) (IndexP d))"

interpretation same: record_law E dev i "same_records dev" for E dev i
proof
  fix s t u :: store
  show "same_records dev s u" if "same_records dev s t" "same_records dev t u" using that by (simp add: same_records_def)
  show "same_records dev s t"
    if "\<And>d. st_indices t d = st_indices s d \<or> d = dev \<and> st_indices t d = None"
      "\<And>d. file_at (st_disk t) (IndexP d) = file_at (st_disk s) (IndexP d)"
    using that by (auto simp: same_records_def)
qed (auto simp: same_records_def note_index_def put_file_def remove_note_def Let_def)

lemmas same_records_refl [simp] = same.basic(1)

lemma same_records_about:
  "same_records dev s s' \<Longrightarrow> d \<noteq> dev \<Longrightarrow> note_is_about fs s' d i = note_is_about fs s d i"
  by (simp add: note_is_about_def recorded_index_def noted_index_def same_records_def split: option.split)

section \<open>One uplink\<close>

lemma map_said_memory [simp]:
  "sy_dry_run (map_said f S) = sy_dry_run S" "sy_carried_ports (map_said f S) = sy_carried_ports S"
  "sy_extra (map_said f S) = sy_extra S" "limit_of (map_said f S) crd = limit_of S crd"
  by (simp_all add: map_said_def Let_def limit_of_def split: option.split)

lemma press_pair_map_said [simp]: "press_pair T dev an fdb ob d (map_said f S) = press_pair T dev an fdb ob d S"
  unfolding press_pair_def press_at_pass_def map_said_memory ..

lemma finish_pair_spec:
  assumes K: "card_laws (e_kernel E) held" and ord: "honest_order E" and whole: "whole_appends (e_fs E)"
    and acc: "accounted held base (p_dev p) (l_index dl) (sy_store S, w)"
    and run: "finish_pair E T apply_it p dl an fdb pass_at ob readable d vfs S w = (rep, fails, S', w')"
  shows "accounted held base (p_dev p) (l_index dl) (sy_store S', w')"
    "only_here held (p_dev p) (l_index dl) (sy_store S, w) (sy_store S', w')"
    "same_records (p_dev p) (sy_store S) (sy_store S')"
    "apply_it \<and> \<not> sy_dry_run S \<Longrightarrow> fails = [] \<Longrightarrow> self_list fdb (l_index dl) \<subseteq> held w (l_index dl) \<Longrightarrow>
       pr_want (press_pair T (p_dev p) an fdb ob d S) \<subseteq> held w' (l_index dl)
       \<and> held w' (l_index dl) \<inter> (ob - pr_want (press_pair T (p_dev p) an fdb ob d S)) = {}"
proof -
  let ?dev = "p_dev p" and ?i = "l_index dl"
  let ?S2 = "map_said (note_unpinned ?dev (sy_extra S) (w_want d))
      (map_said (warn_about_unknowable_vfs T ?dev an vfs) S)"
  let ?pr = "press_pair T ?dev an fdb ob d S"
  obtain oc S3 w3 where add: "add_wanted E apply_it ?dev ?i ob (self_list fdb ?i) (pr_want ?pr) ?S2 w = (oc, S3, w3)"
    by (cases "add_wanted E apply_it ?dev ?i ob (self_list fdb ?i) (pr_want ?pr) ?S2 w") auto
  obtain oc' S4 w4 where rem: "remove_stale E apply_it ?dev ?i (pr_want ?pr) oc S3 w3 = (oc', S4, w4)"
    by (cases "remove_stale E apply_it ?dev ?i (pr_want ?pr) oc S3 w3") auto
  let ?S5 = "merge_note E apply_it ?dev ob (oc_owned oc') S4"
  have un2: "undisturbed (sy_store S) (sy_store ?S2)"
    by (rule undisturbed_trans [OF undisturbed_map_said undisturbed_map_said])
  note A = add_wanted_spec [OF K ord whole accounted_undisturbed [OF un2 acc] add]
  note R = remove_stale_spec [OF K ord A(1) rem]
  have out: "held w4 ?i \<inter> (ob - oc_owned oc') = {}" using A(3) R(7) by blast
  note M = merge_note_spec [OF R(1) out, of E apply_it]
  have un': "undisturbed (sy_store ?S5) (sy_store S')" and w': "w' = w4" and fails: "fails = oc_failures oc'"
    using run undisturbed_trans [OF undisturbed_follow_pass undisturbed_map_said]
    by (auto simp: finish_pair_def Let_def add rem)
  show "accounted held base ?dev ?i (sy_store S', w')"
    using accounted_undisturbed [OF un' M(1)] w' by simp
  show "only_here held ?dev ?i (sy_store S, w) (sy_store S', w')"
    using only_here_trans [OF only_here_undisturbed [OF un2, of held ?dev ?i w] A(2)] R(2) M(2)
      only_here_undisturbed [OF un', of held ?dev ?i w4] w'
    by (metis only_here_trans)
  show "same_records ?dev (sy_store S) (sy_store S')" by (rule same.finish [OF refl refl run])
  assume acts: "apply_it \<and> \<not> sy_dry_run S" and none: "fails = []" and dump: "self_list fdb ?i \<subseteq> held w ?i"
  have "pr_want ?pr - self_list fdb ?i \<subseteq> held w3 ?i" using A(6) R(8) acts none fails by simp
  then have "pr_want ?pr \<subseteq> held w3 ?i" using dump A(4) by blast
  moreover have "held w4 ?i \<inter> (oc_owned oc - pr_want ?pr) = {}" using R(9) A(5) acts none fails by simp
  ultimately show "pr_want ?pr \<subseteq> held w' ?i \<and> held w' ?i \<inter> (ob - pr_want ?pr) = {}"
    using R(3) A(3) w' by blast
qed

text \<open>Asking changes no card.\<close>

definition asking_is_harmless :: "'w writer \<Rightarrow> ('w \<Rightarrow> ifindex \<Rightarrow> mac set) \<Rightarrow> bool" where
  "asking_is_harmless K held \<longleftrightarrow>
     (\<forall>w. held (snd (k_boot_millis K w)) = held w)
     \<and> (\<forall>pfs w. held (snd (k_vf_macs_of K pfs w)) = held w)"

lemma asking_is_harmlessD:
  assumes "asking_is_harmless K held"
  shows "k_boot_millis K w = (x, w') \<Longrightarrow> held w' = held w" "k_vf_macs_of K pfs w = (y, w') \<Longrightarrow> held w' = held w"
  using assms unfolding asking_is_harmless_def by (metis snd_conv)+

lemma load_ports_world:
  assumes "asking_is_harmless (e_kernel E) held" "load_ports E T dev S w = (S', w')"
  shows "sy_store S' = sy_store S" "sy_dry_run S' = sy_dry_run S" "held w' = held w"
  using assms(2) asking_is_harmlessD(1) [OF assms(1)]
  by (auto simp: load_ports_def Let_def split: if_splits prod.splits option.splits)

lemma decide_wanted_world:
  assumes "asking_is_harmless (e_kernel E) held"
    and "decide_wanted E T dev an pfs fdb ob present vf S w = (r, S', w')"
  shows "sy_store S' = sy_store S" "sy_dry_run S' = sy_dry_run S" "held w' = held w"
  using assms(2) asking_is_harmlessD(2) [OF assms(1)]
  by (auto simp: decide_wanted_def remember_vf_def Let_def split: if_splits prod.splits sum.splits)

lemma reconcile_pair_spec:
  assumes K: "card_laws (e_kernel E) held" and ask: "asking_is_harmless (e_kernel E) held"
    and ord: "honest_order E" and whole: "whole_appends (e_fs E)"
    and dl: "get T (p_dev p) = Some dl" and about: "note_is_about (e_fs E) (sy_store S) (p_dev p) (l_index dl)"
    and acc: "accounted held base (p_dev p) (l_index dl) (sy_store S, w)"
    and run: "reconcile_pair E T apply_it pfs fdb pass_at p vf S w = (r, S', w')"
  shows "accounted held base (p_dev p) (l_index dl) (sy_store S', w')
    \<and> only_here held (p_dev p) (l_index dl) (sy_store S, w) (sy_store S', w')
    \<and> same_records (p_dev p) (sy_store S) (sy_store S')"
proof (cases "(\<exists>br an. index_of T (p_bridge p) = Some br \<and> anatomy_of T (l_index dl) br = Some an)")
  case False
  then have "S' = S" "w' = w" using run dl by (auto simp: reconcile_pair_def split: option.splits)
  then show ?thesis using acc by simp
next
  case True
  then obtain br an where an: "index_of T (p_bridge p) = Some br" "anatomy_of T (l_index dl) br = Some an" by blast
  have go: "settle_identity E T apply_it (p_dev p) (l_index dl) S w = (True, S, w)"
    using about by (auto simp: settle_identity_def note_is_about_def)
  obtain S1 w1 where ports: "load_ports E T (p_dev p) S w = (S1, w1)" by fastforce
  obtain ob s2 where ld: "load_owned (e_fs E) (sy_store S1) (p_dev p) = (ob, s2)" by fastforce
  obtain r3 S3 w3 where dec: "decide_wanted E T (p_dev p) an pfs fdb ob (self_list fdb (l_index dl)) vf (with_store S1 s2) w1
      = (r3, S3, w3)" by (cases "decide_wanted E T (p_dev p) an pfs fdb ob (self_list fdb (l_index dl)) vf (with_store S1 s2) w1") auto
  note P = load_ports_world [OF ask ports] and D = decide_wanted_world [OF ask dec]
  have "coherent (sy_store S)" using acc by (simp add: accounted_def)
  then have un: "undisturbed (sy_store S) (sy_store S3)"
    using undisturbed_load [of "sy_store S1" "e_fs E" "p_dev p"] ld P(1) D(1) by simp
  have same: "held w3 = held w" using P(3) D(3) by simp
  have acc3: "accounted held base (p_dev p) (l_index dl) (sy_store S3, w3)"
    using accounted_undisturbed [OF un acc] same by (simp add: accounted_def)
  have only3: "only_here held (p_dev p) (l_index dl) (sy_store S, w) (sy_store S3, w3)"
    using only_here_undisturbed [OF un, of held "p_dev p" "l_index dl" w] same by (simp add: only_here_def)
  have recs3: "same_records (p_dev p) (sy_store S) (sy_store S3)"
    using same.load [of "p_dev p" "sy_store S1" "e_fs E"] ld P(1) D(1) by simp
  show ?thesis
  proof (cases r3)
    case (Inl e)
    then have "S' = S3" "w' = w3" using run dl an go ports ld dec by (simp_all add: reconcile_pair_def)
    then show ?thesis using acc3 only3 recs3 by simp
  next
    case (Inr x)
    then obtain d vfs carried where x: "r3 = Inr (d, vfs, carried)" by (cases x) auto
    obtain rep fails S4 w4 where
      fin: "finish_pair E T apply_it p dl an fdb pass_at ob (note_is_readable s2 (p_dev p)) d vfs S3 w3 = (rep, fails, S4, w4)"
      by (cases "finish_pair E T apply_it p dl an fdb pass_at ob (note_is_readable s2 (p_dev p)) d vfs S3 w3") auto
    have "S' = S4" "w' = w4" using run dl an go ports ld dec x fin by (simp_all add: reconcile_pair_def)
    then show ?thesis
      using finish_pair_spec(1-3) [OF K ord whole acc3 fin] only_here_trans [OF only3] same.trans [OF recs3]
      by simp
  qed
qed

text \<open>All of them, one after the other.\<close>

definition uplink :: "topology \<Rightarrow> pair \<Rightarrow> ifindex option" where
  "uplink T p = map_option l_index (get T (p_dev p))"

text \<open>No two of them are one interface, by name or by index.\<close>

definition separate :: "topology \<Rightarrow> pair list \<Rightarrow> bool" where
  "separate T ps \<longleftrightarrow> distinct (map p_dev ps) \<and> inj_on (uplink T) (set ps \<inter> {p. uplink T p \<noteq> None})"

lemma separateD:
  assumes "separate T ps" "p \<in> set ps" "q \<in> set ps" "p \<noteq> q"
  shows "p_dev p \<noteq> p_dev q" "uplink T p = Some i \<Longrightarrow> uplink T q = Some j \<Longrightarrow> i \<noteq> j"
proof -
  have "inj_on p_dev (set ps)" using assms(1) by (simp add: separate_def distinct_map)
  then show "p_dev p \<noteq> p_dev q" using assms(2-4) by (auto dest: inj_onD)
  show "i \<noteq> j" if "uplink T p = Some i" "uplink T q = Some j"
    using assms that unfolding separate_def inj_on_def by fastforce
qed

text \<open>
  The books of a set of uplinks: each note is about its own interface, and each card is accounted for
  by its own note, up to what others had put there.
\<close>

definition books ::
    "('w \<Rightarrow> ifindex \<Rightarrow> mac set) \<Rightarrow> (ifindex \<Rightarrow> mac set) \<Rightarrow> topology \<Rightarrow> pair list \<Rightarrow> store \<times> 'w \<Rightarrow> bool" where
  "books held base T ps x \<longleftrightarrow>
     (\<forall>p \<in> set ps. \<forall>i. uplink T p = Some i \<longrightarrow> accounted held (base i) (p_dev p) i x)"

lemma accounted_elsewhere:
  assumes "accounted held base d j (s, w)" "only_here held dev i (s, w) (s', w')" "coherent s'" "d \<noteq> dev" "j \<noteq> i"
  shows "accounted held base d j (s', w')"
  using assms by (simp add: accounted_def only_here_def note_of_def)

lemma reconcile_pairs_books:
  assumes K: "card_laws (e_kernel E) held" and ask: "asking_is_harmless (e_kernel E) held"
    and ord: "honest_order E" and whole: "whole_appends (e_fs E)"
  shows "reconcile_pairs E T apply_it pfs fdb pass_at ps vf S w = (r, S', w') \<Longrightarrow> distinct (map p_dev ps)
    \<Longrightarrow> set ps \<subseteq> set all \<Longrightarrow> separate T all
    \<Longrightarrow> (\<forall>p \<in> set ps. \<forall>i. uplink T p = Some i \<longrightarrow> note_is_about (e_fs E) (sy_store S) (p_dev p) i)
    \<Longrightarrow> books held base T all (sy_store S, w) \<Longrightarrow> books held base T all (sy_store S', w')"
proof (induction ps arbitrary: vf S w r S' w')
  case (Cons p ps)
  obtain r1 S1 w1 where one: "reconcile_pair E T apply_it pfs fdb pass_at p vf S w = (r1, S1, w1)"
    by (cases "reconcile_pair E T apply_it pfs fdb pass_at p vf S w") auto
  have step: "books held base T all (sy_store S1, w1)
      \<and> (\<forall>q \<in> set ps. \<forall>i. uplink T q = Some i \<longrightarrow> note_is_about (e_fs E) (sy_store S1) (p_dev q) i)"
  proof (cases "get T (p_dev p)")
    case None
    then have "S1 = S" "w1 = w" using one by (simp_all add: reconcile_pair_def)
    then show ?thesis using Cons.prems(5,6) by simp
  next
    case (Some dl)
    let ?i = "l_index dl"
    have p: "uplink T p = Some ?i" "p \<in> set all" using Some Cons.prems(3) by (auto simp: uplink_def)
    have about: "note_is_about (e_fs E) (sy_store S) (p_dev p) ?i" using Cons.prems(5) p(1) by simp
    have acc: "accounted held (base ?i) (p_dev p) ?i (sy_store S, w)" using Cons.prems(6) p by (auto simp: books_def)
    note turn = reconcile_pair_spec [OF K ask ord whole Some about acc one]
    have "accounted held (base j) (p_dev q) j (sy_store S1, w1)"
      if q: "q \<in> set all" and j: "uplink T q = Some j" for q j
    proof (cases "q = p")
      case True
      then show ?thesis using turn p(1) j by simp
    next
      case False
      then have "p_dev q \<noteq> p_dev p" "j \<noteq> ?i" using separateD [OF Cons.prems(4) q p(2)] p(1) j by blast+
      moreover have "accounted held (base j) (p_dev q) j (sy_store S, w)"
        using Cons.prems(6) q j by (auto simp: books_def)
      moreover have "coherent (sy_store S1)" "only_here held (p_dev p) ?i (sy_store S, w) (sy_store S1, w1)"
        using turn by (simp_all add: accounted_def)
      ultimately show ?thesis by (blast intro: accounted_elsewhere)
    qed
    moreover have "note_is_about (e_fs E) (sy_store S1) (p_dev q) j"
      if q: "q \<in> set ps" and j: "uplink T q = Some j" for q j
    proof -
      have neq: "p_dev q \<noteq> p_dev p" using Cons.prems(2) q by (auto simp: image_iff)
      have "same_records (p_dev p) (sy_store S) (sy_store S1)" using turn by blast
      from same_records_about [OF this neq] show ?thesis using Cons.prems(5) q j by simp
    qed
    ultimately show ?thesis by (auto simp: books_def)
  qed
  show ?case
  proof (cases r1)
    case (Inl e)
    then show ?thesis using Cons.prems(1) one step by simp
  next
    case (Inr x)
    then obtain rep f1 vf1 where x: "r1 = Inr (rep, f1, vf1)" by (cases x) auto
    obtain r2 S2 w2 where rest: "reconcile_pairs E T apply_it pfs fdb pass_at ps vf1 S1 w1 = (r2, S2, w2)"
      by (cases "reconcile_pairs E T apply_it pfs fdb pass_at ps vf1 S1 w1") auto
    have "S' = S2" "w' = w2" using Cons.prems(1) one x rest by (auto split: sum.splits prod.splits)
    then show ?thesis
      using Cons.IH [OF rest] Cons.prems(2-4) step by simp
  qed
qed simp

section \<open>A pass to look at\<close>

definition empty_note :: syncer where
  "empty_note = card_syncer\<lparr>sy_store := new_store (disk_with ''eth0'' [])\<rparr>"

definition card_link :: link where
  "card_link = default_link\<lparr>l_name := ''eth0'', l_index := 2\<rparr>"

definition guest_wanted :: wanted where
  "guest_wanted = \<lparr>w_want = {guest}, w_stacked = [], w_wire = {outsider}, w_learnt_at = [(guest, 3)], w_kept = {}\<rparr>"

lemma cards_harmless: "asking_is_harmless cards_kernel cards_held"
  by (simp add: asking_is_harmless_def cards_kernel_def)

lemma cards_honest: "honest_order cards_env"
  by (simp add: honest_order_def cards_env_def)

lemma accounted_empty [simp]: "accounted held base dev i (new_store (disk_with dev []), w) \<longleftrightarrow> held w i \<subseteq> base"
  by (simp add: accounted_def tidy_def note_of_def)

section \<open>Properties\<close>





end
