(* ===== verification/Sweep_Laws.thy ===== *)
theory Sweep_Laws
  imports Pass_Laws
begin

text \<open>
  How a note ends: the locked stretches of \<open>drop_orphans\<close> and \<open>flush\<close>. Both go by one contract, and
  what follows from it is proved once.
\<close>

section \<open>The contract\<close>

text \<open>
  \<open>target\<close> is the interface whose list is cleared, if there is one still: nothing is taken from it
  that the note does not name, what could not be taken stays noted, no other interface is touched, and
  a note reported gone is gone.
\<close>

locale sweep_op =
  fixes E :: "'w env" and sweep :: "store \<Rightarrow> 'w \<Rightarrow> bool \<times> store \<times> 'w" and dev :: name
    and target :: "store \<Rightarrow> ifindex option"
  assumes sound: "card_laws (e_kernel E) held \<Longrightarrow> honest_order E \<Longrightarrow> sound_note s dev
      \<Longrightarrow> sweep s w = (gone, s', w') \<Longrightarrow> sound_note s' dev"
    and others: "card_laws (e_kernel E) held \<Longrightarrow> honest_order E \<Longrightarrow> sound_note s dev
      \<Longrightarrow> sweep s w = (gone, s', w') \<Longrightarrow> target s \<noteq> Some j \<Longrightarrow> held w' j = held w j"
    and takes: "card_laws (e_kernel E) held \<Longrightarrow> honest_order E \<Longrightarrow> sound_note s dev
      \<Longrightarrow> sweep s w = (gone, s', w') \<Longrightarrow> target s = Some i
      \<Longrightarrow> held w' i \<subseteq> held w i \<and> held w i - held w' i \<subseteq> note_of s dev"
    and noted: "card_laws (e_kernel E) held \<Longrightarrow> honest_order E \<Longrightarrow> sound_note s dev
      \<Longrightarrow> sweep s w = (gone, s', w') \<Longrightarrow> target s = Some i
      \<Longrightarrow> held w' i \<inter> note_of s dev \<subseteq> note_of s' dev"
    and ended: "sweep s w = (True, s', w') \<Longrightarrow> file_at (st_disk s') (OwnedP dev) = None"
begin

lemma gone_is_clean:
  assumes "card_laws (e_kernel E) held" "honest_order E" "sound_note s dev"
    and "sweep s w = (True, s', w')" "target s = Some i"
  shows "held w' i \<inter> note_of s dev = {}"
proof -
  have "note_of s' dev = {}" using ended [OF assms(4)] by (simp add: note_of_def text_at_def)
  then show ?thesis using noted [OF assms] by simp
qed

lemma keeps_accounted:
  assumes "card_laws (e_kernel E) held" "honest_order E" "accounted held base dev i (s, w)"
    and "sweep s w = (gone, s', w')" "target s = Some i"
  shows "accounted held base dev i (s', w')"
proof -
  have s: "sound_note s dev" "held w i \<subseteq> base \<union> note_of s dev" using assms(3) by (simp_all add: accounted_def)
  then show ?thesis
    using sound [OF assms(1,2) s(1) assms(4)] takes [OF assms(1,2) s(1) assms(4,5)]
      noted [OF assms(1,2) s(1) assms(4,5)]
    by (auto simp: accounted_def)
qed

end

section \<open>The two that keep it\<close>

definition orphan_target :: "'w env \<Rightarrow> topology \<Rightarrow> name \<Rightarrow> store \<Rightarrow> ifindex option" where
  "orphan_target E T dev s =
     map_option l_index
       (noted_link (e_fs E) T dev (snd (load_owned (e_fs E) (locked (e_fs E) s dev) dev)))"

definition flush_target :: "'w env \<Rightarrow> topology \<Rightarrow> name \<Rightarrow> store \<Rightarrow> ifindex option" where
  "flush_target E T dev s =
     (let s = snd (load_owned (e_fs E) (locked (e_fs E) s dev) dev) in
      case noted_link (e_fs E) T dev s of
        Some l \<Rightarrow> Some (l_index l)
      | None \<Rightarrow> map_option fst (renamed_target (e_fs E) T dev s))"

text \<open>The middle they share: what is owned taken out of the target, as far as the card lets go.\<close>

definition cleared :: "'w env \<Rightarrow> ifindex option \<Rightarrow> mac set \<Rightarrow> 'w \<Rightarrow> (nat \<times> mac set) \<times> 'w" where
  "cleared E i owned w =
     (case i of Some i \<Rightarrow> unregister_all (e_kernel E) i (e_order E owned) w | None \<Rightarrow> ((card owned, {}), w))"

lemma cleared_card:
  assumes "card_laws (e_kernel E) held" "honest_order E" "cleared E t owned w = ((n, kept), w')"
  shows "kept \<subseteq> owned" "t \<noteq> Some j \<Longrightarrow> held w' j = held w j"
    "t = Some i \<Longrightarrow> held w' i \<subseteq> held w i \<and> held w i - held w' i \<subseteq> owned \<and> held w' i \<inter> owned \<subseteq> kept"
proof (atomize (full), cases t)
  case (Some i)
  then show "kept \<subseteq> owned \<and> (t \<noteq> Some j \<longrightarrow> held w' j = held w j)
      \<and> (t = Some i' \<longrightarrow> held w' i' \<subseteq> held w i' \<and> held w i' - held w' i' \<subseteq> owned \<and> held w' i' \<inter> owned \<subseteq> kept)" for i'
    using unregister_all_card [OF assms(1), of i "e_order E owned" w n kept w'] assms(2,3)
    by (auto simp: cleared_def)
qed (use assms(3) in \<open>auto simp: cleared_def\<close>)

text \<open>The end they share: the note away, or rewritten to what is left.\<close>

lemma note_rewritten:
  assumes s: "sound_note s dev" and kept: "kept \<subseteq> note_of s dev"
    and s': "s' = remove_note s dev \<and> kept = {} \<or> s' = snd (write_owned fs s dev kept) \<or> s' = s"
  shows "sound_note s' dev" "settled fs s dev \<Longrightarrow> kept \<subseteq> note_of s' dev"
proof -
  have gone: "text_at (remove_note s dev) dev = []" by (simp add: remove_note_def text_at_def)
  obtain ok t where wr: "write_owned fs s dev kept = (ok, t)" by fastforce
  note W = write_owned_spec [OF conjunct1 [OF s] finite_macs wr]
  show "sound_note s' dev" using s' s coherent_remove_note gone W(1,6) wr by (auto simp: tidy_def)
  show "kept \<subseteq> note_of s' dev" if "settled fs s dev"
    using s' that kept W(3) note_of_cong [OF W(4)] wr by (cases ok) auto
qed

lemma swept:
  assumes K: "card_laws (e_kernel E) held" and ord: "honest_order E" and s0: "sound_note s dev"
    and ld: "load_owned (e_fs E) (locked (e_fs E) s dev) dev = (owned, s1)"
    and cl: "cleared E t owned w = ((n, kept), w')"
    and s': "s' = remove_note s1 dev \<and> kept = {} \<and> note_is_readable s1 dev
       \<or> s' = snd (write_owned (e_fs E) s1 dev kept) \<or> s' = s1 \<and> \<not> note_is_readable s1 dev"
  shows "sound_note s' dev" "t \<noteq> Some j \<Longrightarrow> held w' j = held w j"
    "t = Some i \<Longrightarrow> held w' i \<subseteq> held w i \<and> held w i - held w' i \<subseteq> note_of s dev"
    "t = Some i \<Longrightarrow> held w' i \<inter> note_of s dev \<subseteq> note_of s' dev"
proof -
  have "coherent (locked (e_fs E) s dev)" using s0 by simp
  note L = load_owned_spec [OF this ld]
  have same: "text_at s1 dev = text_at s dev" "note_of s1 dev = note_of s dev"
    using text_at_cong [OF L(1)] note_of_cong [OF L(1)] by simp_all
  have s1: "sound_note s1 dev" using s0 L(2) same by simp
  note C = cleared_card [OF K ord cl]
  have owned: "owned \<subseteq> note_of s1 dev" "note_is_readable s1 dev \<Longrightarrow> owned = note_of s dev"
    using L(3,4) same by auto
  have kept: "kept \<subseteq> note_of s1 dev" using C(1) owned(1) by blast
  have cases: "s' = remove_note s1 dev \<and> kept = {} \<or> s' = snd (write_owned (e_fs E) s1 dev kept) \<or> s' = s1"
    using s' by blast
  show "sound_note s' dev" using note_rewritten(1) [OF s1 kept cases] .
  show "t \<noteq> Some j \<Longrightarrow> held w' j = held w j" by (rule C(2))
  show "held w' i \<subseteq> held w i \<and> held w i - held w' i \<subseteq> note_of s dev" if "t = Some i"
    using C(3) [OF that] owned(1) same(2) by auto
  show "held w' i \<inter> note_of s dev \<subseteq> note_of s' dev" if t: "t = Some i"
  proof (cases "note_is_readable s1 dev")
    case True
    then have "kept \<subseteq> note_of s' dev"
      using note_rewritten(2) [OF s1 kept cases] load_owned_settled [OF ld] by blast
    then show ?thesis using C(3) [OF t] owned(2) [OF True] by blast
  next
    case False
    then have "write_owned (e_fs E) s1 dev kept = (False, s1)" by (simp add: write_owned_def)
    then have "s' = s1" using s' False by auto
    then show ?thesis using same(2) by auto
  qed
qed

definition sweep_orphan :: "'w env \<Rightarrow> topology \<Rightarrow> name \<Rightarrow> store \<Rightarrow> 'w \<Rightarrow> bool \<times> store \<times> 'w" where
  "sweep_orphan E T dev s w = (case drop_orphan_locked E T dev s w of (gone, _, s, w) \<Rightarrow> (gone, s, w))"

lemma cleared_nothing:
  assumes "honest_order E"
  shows "cleared E t {} w = ((0, {}), w)"
proof -
  have "e_order E {} = []" using honest_orderD(3) [OF assms, of "{}"] by simp
  then show ?thesis by (cases t) (simp_all add: cleared_def)
qed

lemma orphan_shape:
  assumes "sweep_orphan E T dev s w = (gone, s', w')" "honest_order E"
  obtains owned s1 n kept where
    "load_owned (e_fs E) (locked (e_fs E) s dev) dev = (owned, s1)"
    "cleared E (orphan_target E T dev s) owned w = ((n, kept), w')"
    "gone \<and> s' = remove_note s1 dev \<and> kept = {} \<and> note_is_readable s1 dev
       \<or> \<not> gone \<and> (s' = snd (write_owned (e_fs E) s1 dev kept) \<or> s' = s1 \<and> \<not> note_is_readable s1 dev)"
proof -
  obtain owned s1 where ld: "load_owned (e_fs E) (locked (e_fs E) s dev) dev = (owned, s1)" by fastforce
  have t: "orphan_target E T dev s = map_option l_index (noted_link (e_fs E) T dev s1)"
    by (simp add: orphan_target_def ld)
  obtain n kept w1 where cl: "cleared E (orphan_target E T dev s) owned w = ((n, kept), w1)"
    by (cases "cleared E (orphan_target E T dev s) owned w") auto
  show ?thesis
  proof (cases "owned = {}")
    case True
    then have "kept = {}" "w1 = w" using cl cleared_nothing [OF assms(2)] by simp_all
    then show ?thesis
      using assms(1) ld cl True
      by (intro that [OF ld, of n kept]) (auto simp: sweep_orphan_def drop_orphan_locked_def split: if_splits)
  next
    case False
    have un: "(case noted_link (e_fs E) T dev s1 of
              Some l \<Rightarrow> unregister_all (e_kernel E) (l_index l) (e_order E owned) w
            | None \<Rightarrow> ((card owned, {}), w)) = ((n, kept), w1)"
      using cl by (cases "noted_link (e_fs E) T dev s1") (simp_all add: cleared_def t)
    obtain ok s2 where wr: "write_owned (e_fs E) s1 dev kept = (ok, s2)" by fastforce
    have "sweep_orphan E T dev s w = (if kept = {} \<and> note_is_readable s1 dev then (True, remove_note s1 dev, w1)
        else (False, s2, w1))"
      using False by (simp add: sweep_orphan_def drop_orphan_locked_def Let_def ld un wr)
    then show ?thesis
      using assms(1) cl wr by (intro that [OF ld, of n kept]) (auto split: if_splits)
  qed
qed

lemma flush_shape:
  assumes "flush_device E T dev s w = (gone, s', w')"
  obtains owned s1 n kept where
    "load_owned (e_fs E) (locked (e_fs E) s dev) dev = (owned, s1)"
    "cleared E (flush_target E T dev s) owned w = ((n, kept), w')"
    "gone \<and> s' = remove_note s1 dev \<and> kept = {} \<and> note_is_readable s1 dev
       \<or> \<not> gone \<and> (s' = snd (write_owned (e_fs E) s1 dev kept) \<or> s' = s1 \<and> \<not> note_is_readable s1 dev)"
proof -
  obtain owned s1 where ld: "load_owned (e_fs E) (locked (e_fs E) s dev) dev = (owned, s1)" by fastforce
  have t: "flush_target E T dev s = (case noted_link (e_fs E) T dev s1 of Some l \<Rightarrow> Some (l_index l)
      | None \<Rightarrow> map_option fst (renamed_target (e_fs E) T dev s1))"
    by (simp add: flush_target_def ld)
  obtain n kept w1 where cl: "cleared E (flush_target E T dev s) owned w = ((n, kept), w1)"
    by (cases "cleared E (flush_target E T dev s) owned w") auto
  show ?thesis
    using assms ld cl
    by (intro that [OF ld, of n kept]) (auto simp: flush_device_def cleared_def t Let_def split: if_splits)
qed

lemma removed_file: "file_at (st_disk (remove_note s dev)) (OwnedP dev) = None"
  by (simp add: remove_note_def)

interpretation orphan: sweep_op E "sweep_orphan E T dev" dev "orphan_target E T dev" for E T dev
proof
  fix held s w gone s' w'
  assume K: "card_laws (e_kernel E) held" and ord: "honest_order E" and s: "sound_note s dev"
    and run: "sweep_orphan E T dev s w = (gone, s', w')"
  obtain owned s1 n kept where
    ld: "load_owned (e_fs E) (locked (e_fs E) s dev) dev = (owned, s1)"
    and cl: "cleared E (orphan_target E T dev s) owned w = ((n, kept), w')"
    and sh: "s' = remove_note s1 dev \<and> kept = {} \<and> note_is_readable s1 dev
       \<or> s' = snd (write_owned (e_fs E) s1 dev kept) \<or> s' = s1 \<and> \<not> note_is_readable s1 dev"
    using orphan_shape [OF run ord] by metis
  note W = swept [OF K ord s ld cl sh]
  show "sound_note s' dev" by (rule W(1))
  show "held w' j = held w j" if "orphan_target E T dev s \<noteq> Some j" for j using W(2) that .
  show "held w' i \<subseteq> held w i \<and> held w i - held w' i \<subseteq> note_of s dev" if "orphan_target E T dev s = Some i" for i
    using W(3) that .
  show "held w' i \<inter> note_of s dev \<subseteq> note_of s' dev" if "orphan_target E T dev s = Some i" for i using W(4) that .
next
  fix s w s' w'
  assume "sweep_orphan E T dev s w = (True, s', w')"
  then show "file_at (st_disk s') (OwnedP dev) = None"
    by (auto simp: sweep_orphan_def drop_orphan_locked_def Let_def case_prod_beta removed_file split: if_splits)
qed

interpretation flushed: sweep_op E "flush_device E T dev" dev "flush_target E T dev" for E T dev
proof
  fix held s w gone s' w'
  assume K: "card_laws (e_kernel E) held" and ord: "honest_order E" and s: "sound_note s dev"
    and run: "flush_device E T dev s w = (gone, s', w')"
  obtain owned s1 n kept where
    ld: "load_owned (e_fs E) (locked (e_fs E) s dev) dev = (owned, s1)"
    and cl: "cleared E (flush_target E T dev s) owned w = ((n, kept), w')"
    and sh: "s' = remove_note s1 dev \<and> kept = {} \<and> note_is_readable s1 dev
       \<or> s' = snd (write_owned (e_fs E) s1 dev kept) \<or> s' = s1 \<and> \<not> note_is_readable s1 dev"
    using flush_shape [OF run] by metis
  note W = swept [OF K ord s ld cl sh]
  show "sound_note s' dev" by (rule W(1))
  show "held w' j = held w j" if "flush_target E T dev s \<noteq> Some j" for j using W(2) that .
  show "held w' i \<subseteq> held w i \<and> held w i - held w' i \<subseteq> note_of s dev" if "flush_target E T dev s = Some i" for i
    using W(3) that .
  show "held w' i \<inter> note_of s dev \<subseteq> note_of s' dev" if "flush_target E T dev s = Some i" for i using W(4) that .
next
  fix s w s' w'
  assume "flush_device E T dev s w = (True, s', w')"
  then show "file_at (st_disk s') (OwnedP dev) = None"
    by (auto simp: flush_device_def Let_def case_prod_beta removed_file split: if_splits)
qed

text \<open>No other note is touched.\<close>

lemma swept_frame:
  assumes "coherent s" "load_owned (e_fs E) (locked (e_fs E) s dev) dev = (owned, s1)"
    and s': "s' = remove_note s1 dev \<or> s' = snd (write_owned (e_fs E) s1 dev kept) \<or> s' = s1"
  shows "coherent s'" "d \<noteq> dev \<Longrightarrow> file_at (st_disk s') (OwnedP d) = file_at (st_disk s) (OwnedP d)"
proof -
  have "coherent (locked (e_fs E) s dev)" using assms(1) by simp
  note L = load_owned_spec [OF this assms(2)]
  obtain ok t where wr: "write_owned (e_fs E) s1 dev kept = (ok, t)" by fastforce
  note W = write_owned_spec(1,2) [OF L(2) finite_macs wr]
  show "coherent s'" using s' L(2) W(1) coherent_remove_note wr by auto
  show "file_at (st_disk s') (OwnedP d) = file_at (st_disk s) (OwnedP d)" if "d \<noteq> dev"
    using s' L(1) W(2) wr that by (auto simp: touches_only_def remove_note_def)
qed

section \<open>A whole flush\<close>

lemma flush_device_frame:
  assumes "coherent s" "flush_device E T dev s w = (gone, s', w')"
  shows "coherent s'" "d \<noteq> dev \<Longrightarrow> file_at (st_disk s') (OwnedP d) = file_at (st_disk s) (OwnedP d)"
    "gone \<Longrightarrow> file_at (st_disk s') (OwnedP dev) = None"
proof -
  obtain owned s1 n kept where
    ld: "load_owned (e_fs E) (locked (e_fs E) s dev) dev = (owned, s1)"
    and sh: "gone \<and> s' = remove_note s1 dev
       \<or> \<not> gone \<and> (s' = snd (write_owned (e_fs E) s1 dev kept) \<or> s' = s1)"
    using flush_shape [OF assms(2)] by metis
  have "s' = remove_note s1 dev \<or> s' = snd (write_owned (e_fs E) s1 dev kept) \<or> s' = s1" using sh by blast
  note F = swept_frame [OF assms(1) ld this]
  show "coherent s'" by (rule F(1))
  show "d \<noteq> dev \<Longrightarrow> file_at (st_disk s') (OwnedP d) = file_at (st_disk s) (OwnedP d)" by (rule F(2))
  show "gone \<Longrightarrow> file_at (st_disk s') (OwnedP dev) = None" using sh removed_file by auto
qed

lemma flush_list_notes:
  "flush_list E T False devs s w = (ok, s', w') \<Longrightarrow> coherent s \<Longrightarrow> distinct devs
    \<Longrightarrow> (\<forall>d. d \<notin> set devs \<longrightarrow> file_at (st_disk s') (OwnedP d) = file_at (st_disk s) (OwnedP d))
      \<and> (ok \<longrightarrow> (\<forall>d \<in> set devs. file_at (st_disk s') (OwnedP d) = None))"
proof (induction devs arbitrary: s w ok)
  case (Cons dev devs)
  obtain g s1 w1 where one: "flush_device E T dev s w = (g, s1, w1)" by (cases "flush_device E T dev s w") auto
  obtain oks s2 w2 where rest: "flush_list E T False devs s1 w1 = (oks, s2, w2)"
    by (cases "flush_list E T False devs s1 w1") auto
  note F = flush_device_frame [OF Cons.prems(2) one]
  have eq: "ok = (g \<and> oks)" "s' = s2" "w' = w2" using Cons.prems(1) one rest by auto
  note IH = Cons.IH [OF rest [folded eq(2,3)] F(1)]
  show ?case using IH Cons.prems(3) F(2,3) unfolding eq by auto
qed simp

lemma noted_names_set: "set (noted_names d) = {n. file_at d (OwnedP n) \<noteq> None}"
  by (force simp: noted_names_def set_map_filter_eq file_at_def map_of_eq_None_iff split: path.splits)

section \<open>Properties\<close>

text \<open>C23: An orphan's note ends only with its card clean. When \<open>drop_orphans\<close> takes the note of a device
  away whose interface is still there under it, none of the addresses the note named is in that
  interface's list any more; only such addresses were taken, and no other interface was touched.\<close>

theorem orphans_end_clean:
  assumes "card_laws (e_kernel E) held" and "honest_order E" and "coherent s" and "tidy (text_at s dev)"
    and "drop_orphan_locked E T dev s w = (True, fails, s', w')" and "orphan_target E T dev s = Some i"
  shows "held w' i \<inter> note_of s dev = {} \<and> held w i - note_of s dev \<subseteq> held w' i \<and> held w' i \<subseteq> held w i
    \<and> (\<forall>j. j \<noteq> i \<longrightarrow> held w' j = held w j)"
proof -
  have s: "sound_note s dev" using assms(3,4) by blast
  have run: "sweep_orphan E T dev s w = (True, s', w')" using assms(5) by (simp add: sweep_orphan_def)
  show ?thesis
    using orphan.gone_is_clean [OF assms(1,2) s run assms(6)] orphan.takes [OF assms(1,2) s run assms(6)]
      orphan.others [OF assms(1,2) s run] assms(6) by auto
qed

lemma orphans_end_clean_witness:
  "\<exists>fails s'. drop_orphan_locked cards_env card_graph ''eth0''
       (new_store (disk_with ''eth0'' (line_of guest))) [(2, outsider), (2, guest)] = (True, fails, s', [(2, outsider)])
     \<and> guest \<notin> cards_held [(2, outsider)] 2"
proof -
  let ?s = "new_store (disk_with ''eth0'' (line_of guest))"
  let ?run = "drop_orphan_locked cards_env card_graph ''eth0'' ?s [(2, outsider), (2, guest)]"
  have "fst ?run \<and> snd (snd (snd ?run)) = [(2, outsider)]" by code_simp
  then obtain fails s' where run: "?run = (True, fails, s', [(2, outsider)])" by (cases ?run) auto
  have t: "tidy (text_at ?s ''eth0'')" by (simp add: tidy_def line_of_def)
  have target: "orphan_target cards_env card_graph ''eth0'' ?s = Some 2" by code_simp
  have "guest \<in> note_of ?s ''eth0''" using parse_owned_lines [of "[guest]"] by (simp add: note_of_def)
  moreover have "card_laws (e_kernel cards_env) cards_held" by (simp add: cards_laws)
  note orphans_end_clean [OF this cards_honest coherent_new_store t run target]
  ultimately show ?thesis using run by blast
qed

text \<open>C24: Flushing one device accounts for everything it leaves. \<open>flush\<close> takes out of the interface the
  note is about, found by its name or under its new one, nothing but what the note names; what the card
  would not let go stays noted; and a device reported settled has none of it in the card.\<close>

theorem flushing_accounts:
  assumes "card_laws (e_kernel E) held" and "honest_order E" and "coherent s" and "tidy (text_at s dev)"
    and "flush_device E T dev s w = (gone, s', w')" and "flush_target E T dev s = Some i"
  shows "held w' i \<inter> note_of s dev \<subseteq> note_of s' dev \<and> held w i - note_of s dev \<subseteq> held w' i
    \<and> held w' i \<subseteq> held w i \<and> (\<forall>j. j \<noteq> i \<longrightarrow> held w' j = held w j)
    \<and> (if gone then held w' i \<inter> note_of s dev = {} else True)"
proof -
  have s: "sound_note s dev" using assms(3,4) by blast
  have "held w' i \<inter> note_of s dev = {}" if gone
    using flushed.gone_is_clean [OF assms(1,2) s _ assms(6)] assms(5) that by simp
  then show ?thesis
    using flushed.noted [OF assms(1,2) s assms(5,6)] flushed.takes [OF assms(1,2) s assms(5,6)]
      flushed.others [OF assms(1,2) s assms(5)] assms(6)
    by auto
qed

lemma flushing_accounts_witness:
  "\<exists>s'. flush_device cards_env card_graph ''eth0''
       (new_store (disk_with ''eth0'' (line_of guest))) [(2, outsider), (2, guest)] = (True, s', [(2, outsider)])
     \<and> guest \<notin> cards_held [(2, outsider)] 2"
proof -
  let ?s = "new_store (disk_with ''eth0'' (line_of guest))"
  let ?run = "flush_device cards_env card_graph ''eth0'' ?s [(2, outsider), (2, guest)]"
  have "fst ?run \<and> snd (snd ?run) = [(2, outsider)]" by code_simp
  then obtain s' where run: "?run = (True, s', [(2, outsider)])" by (cases ?run) auto
  have t: "tidy (text_at ?s ''eth0'')" by (simp add: tidy_def line_of_def)
  have target: "flush_target cards_env card_graph ''eth0'' ?s = Some 2" by code_simp
  have "guest \<in> note_of ?s ''eth0''" using parse_owned_lines [of "[guest]"] by (simp add: note_of_def)
  moreover have "card_laws (e_kernel cards_env) cards_held" by (simp add: cards_laws)
  note flushing_accounts [OF this cards_honest coherent_new_store t run target]
  ultimately show ?thesis using run by auto
qed



end
