(* ===== verification/Fast_Laws.thy ===== *)
theory Fast_Laws
  imports Fast_Path Pass_Laws
begin

text \<open>
  Laws of the event path: which notifications become registrations, that they are ones the pass would
  make, and that the batch keeps the same books as the pass.
\<close>

section \<open>Candidates\<close>

text \<open>What is queued for one uplink.\<close>

definition queued :: "candidates \<Rightarrow> name \<Rightarrow> (mac \<times> ifindex) set" where
  "queued reg dev = (case map_of reg dev of None \<Rightarrow> {} | Some xs \<Rightarrow> set xs)"

lemma queued_push [simp]:
  "queued (push_candidate d x reg) dev = (if d = dev then insert x (queued reg dev) else queued reg dev)"
  by (auto simp: queued_def push_candidate_def update_conv' split: option.splits)

lemma queued_Nil [simp]: "queued [] dev = {}"
  by (simp add: queued_def)

text \<open>The questions the event path asks of one learnt address, for one uplink.\<close>

definition admits :: "syncer \<Rightarrow> fast_pair \<Rightarrow> fdb_entry \<Rightarrow> bool" where
  "admits S fp e \<longleftrightarrow>
     (\<exists>master. fe_master e = Some master \<and> fe_ifindex e \<notin> set (a_siblings (fp_anat fp))
        \<and> fe_mac e \<notin> fp_skip fp \<and> \<not> on_carried_wire S (fp_dev fp) (fe_mac e)
        \<and> classify (fp_reach fp) (fe_ifindex e) master (a_port (fp_anat fp)) = Behind
        \<and> fe_mac e \<notin> fp_reflected fp)"

definition fresh_learn :: "topology \<Rightarrow> u16 \<times> fdb_entry \<Rightarrow> bool" where
  "fresh_learn T ev \<longleftrightarrow>
     fst ev = RTM_NEWNEIGH \<and> is_learned (snd ev) \<and> is_registerable (fe_mac (snd ev))
     \<and> at T (fe_ifindex (snd ev)) \<noteq> None"

lemma fast_add_pair_queue:
  assumes "fe_master e = Some master"
  shows "queued (snd (fast_add_pair S Commit e master fp (ours, reg))) dev
    = queued reg dev \<union> (if fp_dev fp = dev \<and> admits S fp e then {(fe_mac e, fe_ifindex e)} else {})"
  using assms by (auto simp: fast_add_pair_def admits_def)

lemma fast_add_pairs_queue:
  assumes "fe_master e = Some master"
  shows "queued (snd (fold (fast_add_pair S Commit e master) fps acc)) dev
    = queued (snd acc) dev \<union> {(fe_mac e, fe_ifindex e) | fp. fp \<in> set fps \<and> fp_dev fp = dev \<and> admits S fp e}"
proof (induction fps arbitrary: acc)
  case (Cons fp fps)
  then show ?case
    using fast_add_pair_queue [OF assms, of S fp "fst acc" "snd acc" dev] by (auto split: if_splits)
qed simp

lemma fast_add_event_queue:
  "queued (snd (fast_add_event S T Commit fps ev acc)) dev
    = queued (snd acc) dev
      \<union> {(fe_mac (snd ev), fe_ifindex (snd ev)) | fp. fresh_learn T ev \<and> fp \<in> set fps \<and> fp_dev fp = dev
           \<and> admits S fp (snd ev)}"
proof (cases "fresh_learn T ev \<and> fe_master (snd ev) \<noteq> None")
  case True
  then obtain master where "fe_master (snd ev) = Some master" by blast
  from fast_add_pairs_queue [OF this, of S fps "(False, snd acc)" dev] show ?thesis
    using True \<open>fe_master (snd ev) = Some master\<close>
    by (cases ev; cases acc) (auto simp: fast_add_event_def fast_add_def fresh_learn_def case_prod_beta)
next
  case False
  then show ?thesis
    by (cases ev; cases acc)
      (auto simp: fast_add_event_def fast_add_def fresh_learn_def admits_def case_prod_beta split: option.splits)
qed

lemma fast_candidates_queue:
  "queued (snd (fold (fast_add_event S T Commit fps) evs acc)) dev
    = queued (snd acc) dev
      \<union> (\<Union>ev \<in> set evs. {(fe_mac (snd ev), fe_ifindex (snd ev)) | fp. fresh_learn T ev \<and> fp \<in> set fps
           \<and> fp_dev fp = dev \<and> admits S fp (snd ev)})"
proof (induction evs arbitrary: acc)
  case (Cons ev evs)
  show ?case unfolding fold_Cons comp_apply Cons.IH fast_add_event_queue by auto
qed simp

section \<open>The books of a batch\<close>

text \<open>Reading a card's list changes no card either.\<close>

definition reading_is_harmless :: "'w writer \<Rightarrow> ('w \<Rightarrow> ifindex \<Rightarrow> mac set) \<Rightarrow> bool" where
  "reading_is_harmless K held \<longleftrightarrow> (\<forall>i w. held (snd (k_dump_fdb_of K i w)) = held w)"

lemma read_back_world:
  assumes "reading_is_harmless K held" "read_back K i cache w = (r, cache', w')"
  shows "held w' = held w"
  using assms unfolding reading_is_harmless_def read_back_def
  by (auto split: option.splits prod.splits sum.splits dest: sym) (metis snd_conv)+

lemma fast_memory_store [simp]:
  "sy_store (no_longer_kept S dev ms) = sy_store S" "sy_store (shrink_occupancy dev n S) = sy_store S"
  "sy_store (remember_wire dev ms S) = sy_store S" "sy_store (stamp_learns dev ms lo t S) = sy_store S"
  by (auto simp: no_longer_kept_def shrink_occupancy_def remember_wire_def stamp_learns_def Let_def split: option.split)

text \<open>
  One uplink's turn in a batch is made of these steps, all on one device and one interface. A relation of
  note and world that holds of each holds of the three things a batch does to an uplink.
\<close>

locale turn_law =
  fixes E :: "'w env" and dev :: name and i :: ifindex and Q :: "store \<times> 'w \<Rightarrow> store \<times> 'w \<Rightarrow> bool"
  assumes refl: "Q x x"
    and trans: "Q x y \<Longrightarrow> Q y z \<Longrightarrow> Q x z"
    and loads: "Q (s, w) (snd (load_owned (e_fs E) s dev), w)"
    and saves: "Q (sy_store S, w) (sy_store (save_ports (e_fs E) T dev t S), w)"
    and says: "Q (sy_store S, w) (sy_store (map_said f S), w)"
    and times: "k_boot_millis (e_kernel E) w = (now, w') \<Longrightarrow> Q (s, w) (s, w')"
    and reads: "read_back (e_kernel E) j cache w = (q, cache', w') \<Longrightarrow> Q (s, w) (s, w')"
    and retires: "Q (s, w) (snd (retire E dev i ms s w))"
    and registers: "distinct ms \<Longrightarrow> Q (s, w) (snd (register_batch_locked E dev i ms (note_index (e_fs E) s dev i) w))"
begin

lemma then_saves: "Q x (s, w) \<Longrightarrow> sy_store X = s \<Longrightarrow> Q x (sy_store (save_ports (e_fs E) T dev t X), w)"
  using trans saves by blast

lemma reflect:
  assumes "reflect_pair E T ms fp u S w = (u', S', w')" "fp_dev fp = dev" "a_dev (fp_anat fp) = i"
  shows "Q (sy_store S, w) (sy_store S', w')"
proof -
  obtain o1 s1 where l1: "load_owned (e_fs E) (sy_store S) dev = (o1, s1)" by fastforce
  obtain owned s2 where l2: "load_owned (e_fs E) s1 dev = (owned, s2)" by fastforce
  let ?ours = "filter (\<lambda>m. m \<in> owned) (e_order E ms)"
  obtain out s3 w3 where rt: "retire E dev i ?ours s2 w = (out, s3, w3)" by (cases "retire E dev i ?ours s2 w") auto
  have k1: "Q (sy_store S, w) (s1, w)" using loads [of "sy_store S" w] l1 by simp
  have k: "Q (sy_store S, w) (s3, w3)"
    using trans [OF k1 trans [OF loads [of s1 w] retires [of "snd (load_owned (e_fs E) s1 dev)" w ?ours]]] l2 rt by simp
  let ?X = "shrink_occupancy dev (length (rt_removed out))
      (no_longer_kept (drop_ports (with_store S s3) dev ?ours) dev ?ours)"
  let ?t = "case carried_of ?X dev of None \<Rightarrow> 0 | Some c \<Rightarrow> c_passed_at c"
  have "Q (sy_store S, w) (sy_store (save_ports (e_fs E) T dev ?t ?X), w3)" by (rule then_saves [OF k]) simp
  moreover have "(sy_store S', w') \<in> {(sy_store S, w), (s1, w), (s3, w3), (sy_store (save_ports (e_fs E) T dev ?t ?X), w3)}"
    using assms l1 l2 rt by (auto simp: reflect_pair_def Let_def split: if_splits)
  ultimately show ?thesis using refl k k1 by auto
qed

lemma shed:
  assumes "shed_keeps E T dev i need on_card S w = (freed, S', w')"
  shows "Q (sy_store S, w) (sy_store S', w')"
proof -
  obtain o1 s1 where l1: "load_owned (e_fs E) (sy_store S) dev = (o1, s1)" by fastforce
  have k1: "Q (sy_store S, w) (s1, w)" using loads [of "sy_store S" w] l1 by simp
  show ?thesis
  proof (cases "\<exists>c ps. note_is_readable s1 dev \<and> carried_of S dev = Some c \<and> sy_carried_ports S dev = Some ps
      \<and> shed_candidates c ps need \<noteq> []")
    case False
    then have "sy_store S' = s1" "w' = w"
      using assms l1 by (auto simp: shed_keeps_def carried_of_def Let_def split: if_splits option.splits)
    then show ?thesis using k1 by simp
  next
    case True
    then obtain c ps where c: "note_is_readable s1 dev" "carried_of S dev = Some c" "sy_carried_ports S dev = Some ps"
      and ne: "shed_candidates c ps need \<noteq> []" by blast
    obtain out s2 w2 where rt: "retire E dev i (shed_candidates c ps need) s1 w = (out, s2, w2)"
      by (cases "retire E dev i (shed_candidates c ps need) s1 w") auto
    have k: "Q (sy_store S, w) (s2, w2)" using trans [OF k1 retires [of s1 w "shed_candidates c ps need"]] rt by simp
    let ?X = "drop_ports (with_store S s2) dev (rt_dropped out)"
    have run: "(freed, S', w') = (if rt_dropped out = [] then (0, with_store S s2, w2)
        else (length (filter (\<lambda>m. m \<in> on_card) (rt_dropped out)),
              no_longer_kept (save_ports (e_fs E) T dev (c_passed_at c) ?X) dev (rt_dropped out), w2))"
      using assms l1 c ne rt by (auto simp: shed_keeps_def carried_of_def Let_def)
    have "Q (sy_store S, w) (sy_store (save_ports (e_fs E) T dev (c_passed_at c) ?X), w2)"
      by (rule then_saves [OF k]) simp
    then show ?thesis using run k by (cases "rt_dropped out = []") simp_all
  qed
qed

lemma learns:
  assumes "register_learns E T fp learns cache S w = (r, cache', S', w')" "fp_dev fp = dev" "a_dev (fp_anat fp) = i"
  shows "Q (sy_store S, w) (sy_store S', w')"
proof -
  let ?K = "e_kernel E" and ?macs = "sorted_list_of_set (set (map fst learns))"
  let ?crd = "case name_of T (a_card (fp_anat fp)) of Some n \<Rightarrow> n | None \<Rightarrow> dev"
  obtain now w1 where clk: "k_boot_millis ?K w = (now, w1)" by fastforce
  define S1 where "S1 = stamp_learns dev ?macs (map_of (rev learns)) now S"
  obtain q c2 w2 where rb: "read_back ?K (a_card (fp_anat fp)) cache w1 = (q, c2, w2)"
    by (cases "read_back ?K (a_card (fp_anat fp)) cache w1") auto
  have k1: "Q (sy_store S, w) (sy_store S1, w2)" using trans [OF times [OF clk] reads [OF rb]] by (simp add: S1_def)
  show ?thesis
  proof (cases q)
    case (Inl e)
    then have "S' = S1" "w' = w2" using assms clk rb by (simp_all add: register_learns_def Let_def S1_def)
    then show ?thesis using k1 by simp
  next
    case (Inr on_card)
    define over where "over = (card on_card + length (filter (\<lambda>m. m \<notin> on_card) ?macs))
        - (limit_of S1 ?crd - headroom (limit_of S1 ?crd))"
    obtain freed S3 w3 where sh:
      "(if 0 < over then shed_keeps E T dev i over on_card S1 w2 else (0, S1, w2)) = (freed, S3, w3)"
      by (cases "if 0 < over then shed_keeps E T dev i over on_card S1 w2 else (0, S1, w2)") auto
    have k3: "Q (sy_store S1, w2) (sy_store S3, w3)"
      using sh shed [of T over on_card S1 w2 freed S3 w3] refl by (auto split: if_splits)
    define S4 where "S4 = (if 0 < over \<and> freed < over
        then map_said (\<lambda>sd. sd\<lparr>sd_tight := insert dev (sd_tight sd)\<rparr>) S3 else S3)"
    have k4: "Q (sy_store S3, w3) (sy_store S4, w3)" using says [of S3 w3] refl by (simp add: S4_def)
    let ?s5 = "note_index (e_fs E) (sy_store S4) dev i"
    obtain rg s6 w6 where reg: "register_batch_locked E dev i ?macs ?s5 w3 = (rg, s6, w6)"
      by (cases "register_batch_locked E dev i ?macs ?s5 w3") auto
    have k5: "Q (sy_store S4, w3) (s6, w6)" using registers [of ?macs "sy_store S4" w3] reg by simp
    have kept: "sy_store (with_store S4 (note_index (e_fs E) (sy_store S4) d j)) = note_index (e_fs E) (sy_store S4) d j"
      for d j by simp
    have "register_learns E T fp learns cache S w = (Inr (), c2,
        (let S = with_store (with_store S4 ?s5) s6 in
         S\<lparr>sy_carried := AList.update dev
             ((carried_or_default S dev)\<lparr>c_card := ?crd, c_occupancy := (card on_card - freed)
                + (case rg of Some r \<Rightarrow> length (rg_put r) | None \<Rightarrow> 0)\<rparr>) (sy_carried S)\<rparr>), w6)"
      unfolding register_learns_def Let_def assms(2,3) clk rb Inr prod.case sum.case S1_def [symmetric]
        over_def [symmetric] sh S4_def [symmetric] kept reg ..
    then have "sy_store S' = s6 \<and> w' = w6" using assms(1) by (simp add: Let_def)
    then show ?thesis using trans [OF trans [OF trans [OF k1 k3] k4] k5] by simp
  qed
qed

end

text \<open>
  The first such relation: the uplink's books kept and nothing else touched, on a card and a kernel that
  keep the laws.
\<close>

definition lawful :: "'w env \<Rightarrow> ('w \<Rightarrow> ifindex \<Rightarrow> mac set) \<Rightarrow> bool" where
  "lawful E held \<longleftrightarrow> card_laws (e_kernel E) held \<and> asking_is_harmless (e_kernel E) held
     \<and> reading_is_harmless (e_kernel E) held \<and> whole_appends (e_fs E)"

definition turn_kept ::
    "'w env \<Rightarrow> ('w \<Rightarrow> ifindex \<Rightarrow> mac set) \<Rightarrow> mac set \<Rightarrow> name \<Rightarrow> ifindex \<Rightarrow> store \<times> 'w \<Rightarrow> store \<times> 'w \<Rightarrow> bool" where
  "turn_kept E held base dev i x y \<longleftrightarrow>
     (lawful E held \<longrightarrow> accounted held base dev i x \<longrightarrow> accounted held base dev i y \<and> only_here held dev i x y)"

lemma turn_kept_trans:
  "turn_kept E held base dev i x y \<Longrightarrow> turn_kept E held base dev i y z \<Longrightarrow> turn_kept E held base dev i x z"
  unfolding turn_kept_def using only_here_trans by blast

lemma turn_kept_undisturbed:
  "(coherent s \<Longrightarrow> undisturbed s s') \<Longrightarrow> turn_kept E held base dev i (s, w) (s', w)"
  unfolding turn_kept_def by (auto simp: accounted_def only_here_def undisturbedD)

lemma turn_kept_world: "(lawful E held \<Longrightarrow> held w' = held w) \<Longrightarrow> turn_kept E held base dev i (s, w) (s, w')"
  by (simp add: turn_kept_def accounted_def only_here_def)

lemma turn_kept_retire: "turn_kept E held base dev i (s, w) (snd (retire E dev i ms s w))"
  unfolding turn_kept_def
proof (intro impI)
  assume law: "lawful E held" and acc: "accounted held base dev i (s, w)"
  obtain out s' w' where run: "retire E dev i ms s w = (out, s', w')" by (cases "retire E dev i ms s w") auto
  have K: "card_laws (e_kernel E) held" and s: "sound_note s dev" using law acc by (simp_all add: lawful_def accounted_def)
  note R = retire_spec [OF K s run]
  have "accounted held base dev i (s', w')"
    using acc R(1,3,6,7) by (auto simp: accounted_def set_eq_iff subset_iff)
  moreover have "only_here held dev i (s, w) (s', w')"
    using R(3) only_here_touches_only [OF R(2), of held i w] by (simp add: only_here_def)
  ultimately show "accounted held base dev i (snd (retire E dev i ms s w))
      \<and> only_here held dev i (s, w) (snd (retire E dev i ms s w))" using run by simp
qed

lemma turn_kept_register:
  assumes "distinct ms"
  shows "turn_kept E held base dev i (s, w) (snd (register_batch_locked E dev i ms s w))"
  unfolding turn_kept_def
proof (intro impI)
  assume law: "lawful E held" and acc: "accounted held base dev i (s, w)"
  obtain r s' w' where run: "register_batch_locked E dev i ms s w = (r, s', w')"
    by (cases "register_batch_locked E dev i ms s w") auto
  have K: "card_laws (e_kernel E) held" "whole_appends (e_fs E)" and s: "sound_note s dev"
    using law acc by (simp_all add: lawful_def accounted_def)
  note R = register_batch_spec [OF K(1) s assms run]
  have "accounted held base dev i (s', w')" using acc R(1,5,6,9) K(2) by (auto simp: accounted_def)
  moreover have "only_here held dev i (s, w) (s', w')"
    using R(4) only_here_touches_only [OF R(2), of held i w] by (simp add: only_here_def)
  ultimately show "accounted held base dev i (snd (register_batch_locked E dev i ms s w))
      \<and> only_here held dev i (s, w) (snd (register_batch_locked E dev i ms s w))" using run by simp
qed

interpretation kept: turn_law E dev i "turn_kept E held base dev i" for E dev i held base
proof
  fix s w w' S T t f now j cache q cache' ms
  show "turn_kept E held base dev i (s, w) (snd (load_owned (e_fs E) s dev), w)"
    by (rule turn_kept_undisturbed) (rule undisturbed_load)
  show "turn_kept E held base dev i (sy_store S, w) (sy_store (save_ports (e_fs E) T dev t S), w)"
    "turn_kept E held base dev i (sy_store S, w) (sy_store (map_said f S), w)"
    by (rule turn_kept_undisturbed; simp)+
  show "turn_kept E held base dev i (s, w) (s, w')" if "k_boot_millis (e_kernel E) w = (now, w')"
    using that asking_is_harmlessD(1) by (intro turn_kept_world) (auto simp: lawful_def)
  show "turn_kept E held base dev i (s, w) (s, w')" if "read_back (e_kernel E) j cache w = (q, cache', w')"
    using that read_back_world by (intro turn_kept_world) (auto simp: lawful_def)
  show "turn_kept E held base dev i (s, w) (snd (retire E dev i ms s w))" by (rule turn_kept_retire)
  have "turn_kept E held base dev i (s, w) (note_index (e_fs E) s dev i, w)" by (rule turn_kept_undisturbed) simp
  then show "turn_kept E held base dev i (s, w) (snd (register_batch_locked E dev i ms (note_index (e_fs E) s dev i) w))"
    if "distinct ms" by (rule turn_kept_trans [OF _ turn_kept_register [OF that]])
qed (auto simp: turn_kept_def intro: only_here_trans)

text \<open>All the uplinks of a batch, by name and interface; a batch changes what is known of them, not these.\<close>

definition key :: "fast_pair \<Rightarrow> name \<times> ifindex" where
  "key fp = (fp_dev fp, a_dev (fp_anat fp))"

lemma find_pair_key: "find_pair fps dev = Some fp \<Longrightarrow> fp \<in> set fps \<and> fp_dev fp = dev"
  by (auto simp: find_pair_def find_Some_iff)

lemma vf_stale_store [simp]: "sy_store (S\<lparr>sy_vf_stale := x\<rparr>) = sy_store S" "sy_store (remember_vf S pfs ms) = sy_store S"
  by (simp_all add: remember_vf_def)

text \<open>The uplinks a batch is about.\<close>

definition uplinks :: "syncer \<Rightarrow> topology \<Rightarrow> (name \<times> ifindex) list" where
  "uplinks S T = map key (fast_pairs S T ([], False))"

lemma fast_pairs_uplinks: "sy_pairs S' = sy_pairs S \<Longrightarrow> map key (fast_pairs S' T vf) = uplinks S T"
proof -
  have one: "map_option key (fast_pair_of S' T vf p) = map_option key (fast_pair_of S T ([], False) p)" for p
    by (auto simp: fast_pair_of_def key_def option.map_comp comp_def split: option.splits)
  have "map key (List.map_filter (fast_pair_of S' T vf) ps) = map key (List.map_filter (fast_pair_of S T ([], False)) ps)"
    for ps
  proof (induction ps)
    case (Cons p ps)
    then show ?case using one [of p]
      by (cases "fast_pair_of S' T vf p"; cases "fast_pair_of S T ([], False) p") (auto simp: List.map_filter_simps)
  qed (simp add: List.map_filter_simps)
  then show "sy_pairs S' = sy_pairs S \<Longrightarrow> ?thesis" by (simp add: uplinks_def fast_pairs_def)
qed

lemma date_the_silence_store [simp]:
  "sy_store (date_the_silence T now evs S) = sy_store S" "sy_pairs (date_the_silence T now evs S) = sy_pairs S"
proof -
  have one: "sy_store (date_event T now ev S) = sy_store S \<and> sy_pairs (date_event T now ev S) = sy_pairs S" for ev S
    by (auto simp: date_event_def split: option.split prod.split)
  have "sy_store (fold (date_event T now) evs S) = sy_store S \<and> sy_pairs (fold (date_event T now) evs S) = sy_pairs S"
    by (induction evs arbitrary: S) (simp_all add: one)
  then show "sy_store (date_the_silence T now evs S) = sy_store S" "sy_pairs (date_the_silence T now evs S) = sy_pairs S"
    by (simp_all add: date_the_silence_def)
qed

text \<open>
  What a whole batch keeps: anything that the turns of the uplinks named in \<open>ks\<close> keep, that re-reading a
  note keeps, and that survives the questions a batch asks.
\<close>

locale batch_law =
  fixes E :: "'w env" and T :: topology and ks :: "(name \<times> ifindex) set" and Inv :: "store \<times> 'w \<Rightarrow> bool"
  assumes reflects: "reflect_pair E T ms fp u S w = (u', S', w') \<Longrightarrow> key fp \<in> ks
      \<Longrightarrow> Inv (sy_store S, w) \<Longrightarrow> Inv (sy_store S', w')"
    and learns: "register_learns E T fp ls cache S w = (r, cache', S', w') \<Longrightarrow> key fp \<in> ks
      \<Longrightarrow> Inv (sy_store S, w) \<Longrightarrow> Inv (sy_store S', w')"
    and loads: "Inv (s, w) \<Longrightarrow> Inv (snd (load_owned (e_fs E) s dev), w)"
    and times: "k_boot_millis (e_kernel E) w = (now, w') \<Longrightarrow> Inv (s, w) \<Longrightarrow> Inv (s, w')"
    and reads: "read_back (e_kernel E) j cache w = (q, cache', w') \<Longrightarrow> Inv (s, w) \<Longrightarrow> Inv (s, w')"
    and asks: "k_vf_macs_of (e_kernel E) pfs w = (a, w') \<Longrightarrow> Inv (s, w) \<Longrightarrow> Inv (s, w')"
begin

lemma reflected:
  "reflect_pairs E T rf fps u S w = (fps', u', S', w') \<Longrightarrow> key ` set fps \<subseteq> ks
    \<Longrightarrow> map key fps' = map key fps \<and> (Inv (sy_store S, w) \<longrightarrow> Inv (sy_store S', w'))"
proof (induction fps arbitrary: u S w fps')
  case (Cons fp fps)
  obtain u1 S1 w1 where one: "reflect_pair E T (rf (fp_dev fp)) fp u S w = (u1, S1, w1)"
    by (cases "reflect_pair E T (rf (fp_dev fp)) fp u S w") auto
  obtain fps2 u2 S2 w2 where rest: "reflect_pairs E T rf fps u1 S1 w1 = (fps2, u2, S2, w2)"
    by (cases "reflect_pairs E T rf fps u1 S1 w1") auto
  have eq: "fps' = fp\<lparr>fp_reflected := fp_reflected fp \<union> rf (fp_dev fp)\<rparr> # fps2" "u' = u2" "S' = S2" "w' = w2"
    using Cons.prems(1) one rest by auto
  show ?case
    using Cons.IH [OF rest [folded eq(2-4)]] reflects [OF one] Cons.prems(2) unfolding eq by (simp add: key_def)
qed simp

lemma grown:
  "growing E fps cs cache S w = (r, cache', S', w') \<Longrightarrow> Inv (sy_store S, w) \<Longrightarrow> Inv (sy_store S', w')"
proof (induction cs arbitrary: cache S w r)
  case (Cons c cs)
  obtain dev ms where c: "c = (dev, ms)" by (cases c)
  show ?case
  proof (cases "find_pair fps dev")
    case None
    obtain r1 c1 S1 w1 where rest: "growing E fps cs cache S w = (r1, c1, S1, w1)"
      by (cases "growing E fps cs cache S w") auto
    then have eq: "cache' = c1" "S' = S1" "w' = w1" using Cons.prems(1) None c by (auto split: sum.splits)
    show ?thesis using Cons.IH [OF rest [folded eq]] Cons.prems(2) .
  next
    case (Some fp)
    obtain q c1 w1 where rb: "read_back (e_kernel E) (a_dev (fp_anat fp)) cache w = (q, c1, w1)"
      by (cases "read_back (e_kernel E) (a_dev (fp_anat fp)) cache w") auto
    have inv: "Inv (sy_store S, w1)" by (rule reads [OF rb Cons.prems(2)])
    show ?thesis
    proof (cases q)
      case (Inl e)
      then show ?thesis using Cons.prems(1) Some c rb inv by auto
    next
      case (Inr present)
      obtain owned s2 where ld: "load_owned (e_fs E) (sy_store S) dev = (owned, s2)" by fastforce
      obtain r3 c3 S3 w3 where rest: "growing E fps cs c1 (with_store S s2) w1 = (r3, c3, S3, w3)"
        by (cases "growing E fps cs c1 (with_store S s2) w1") auto
      have eq: "cache' = c3" "S' = S3" "w' = w3"
        using Cons.prems(1) Some c rb Inr ld rest by (auto split: sum.splits)
      show ?thesis using Cons.IH [OF rest [folded eq]] loads [OF inv, of dev] ld by simp
    qed
  qed
qed simp

lemma refreshed:
  assumes run: "grow_refresh E T pfs vf fps evs S w = (r, cache, S', w')" and inv: "Inv (sy_store S, w)"
  shows "Inv (sy_store S', w') \<and> (case r of Inr fps' \<Rightarrow> map key fps' = map key fps | _ \<Rightarrow> True)"
proof (cases "snd vf")
  case False
  then show ?thesis using run inv by (auto simp: grow_refresh_def)
next
  case carried: True
  obtain q c1 S1 w1 where gr: "growing E fps (snd (fast_candidates S T Decide fps evs)) Map.empty S w = (q, c1, S1, w1)"
    by (cases "growing E fps (snd (fast_candidates S T Decide fps evs)) Map.empty S w") auto
  note G = grown [OF gr inv]
  show ?thesis
  proof (cases q)
    case (Inl e)
    then show ?thesis using run carried gr G by (auto simp: grow_refresh_def)
  next
    case (Inr would)
    let ?ws = "filter (\<lambda>(_, macs). macs \<noteq> []) would"
    show ?thesis
    proof (cases "?ws = []")
      case True
      then show ?thesis using run carried gr G Inr by (auto simp: grow_refresh_def)
    next
      case False
      obtain a w2 where vf2: "k_vf_macs_of (e_kernel E) (live_pfs T (map fst ?ws)) w1 = (a, w2)" by fastforce
      have "sy_store S' = sy_store S1" "w' = w2"
        "case r of Inr fps' \<Rightarrow> map key fps' = map key fps | _ \<Rightarrow> True"
        using run carried gr Inr False vf2
        by (auto simp: grow_refresh_def Let_def refresh_pairs_def key_def simp del: filter_empty_conv split: sum.splits)
      then show ?thesis using asks [OF vf2 G] by simp
    qed
  qed
qed

lemma registered:
  assumes "key ` set fps \<subseteq> ks"
  shows "register_all E T fps cs cache S w = (r, S', w') \<Longrightarrow> Inv (sy_store S, w) \<Longrightarrow> Inv (sy_store S', w')"
proof (induction cs arbitrary: cache S w r)
  case (Cons c cs)
  obtain dev ls where c: "c = (dev, ls)" by (cases c)
  show ?case
  proof (cases "find_pair fps dev")
    case None
    then show ?thesis using Cons c by simp
  next
    case (Some fp)
    obtain q c1 S1 w1 where one: "register_learns E T fp ls cache S w = (q, c1, S1, w1)"
      by (cases "register_learns E T fp ls cache S w") auto
    have "key fp \<in> ks" using find_pair_key [OF Some] assms by blast
    note inv = learns [OF one this Cons.prems(2)]
    show ?thesis
    proof (cases q)
      case (Inl e)
      then show ?thesis using Cons.prems(1) c Some one inv by simp
    next
      case (Inr x)
      then have "register_all E T fps cs c1 S1 w1 = (r, S', w')" using Cons.prems(1) c Some one by simp
      then show ?thesis using Cons.IH inv by blast
    qed
  qed
qed simp

lemma learned:
  assumes ks: "set (uplinks S T) \<subseteq> ks" and inv: "Inv (sy_store S, w)"
    and run: "fast_learn E T evs u S w = (r, S', w')"
  shows "Inv (sy_store S', w')"
proof -
  let ?pfs = "live_pfs T (map p_dev (sy_pairs S))"
  obtain q S1 w1 where av: "ask_vfs E ?pfs S w = (q, S1, w1)" by (cases "ask_vfs E ?pfs S w") auto
  have same: "sy_pairs S1 = sy_pairs S" "sy_store S1 = sy_store S"
    and b1: "Inv (sy_store S1, w1)"
    using av asks [OF _ inv] inv
    by (auto simp: ask_vfs_def remember_vf_def split: option.splits sum.splits prod.splits)
  show ?thesis
  proof (cases q)
    case (Inl e)
    then show ?thesis using run av b1 by (simp add: fast_learn_def Let_def)
  next
    case (Inr vf)
    let ?fps = "fast_pairs S1 T vf"
    have keys: "map key ?fps = uplinks S T" using fast_pairs_uplinks [OF same(1)] .
    then have sub: "key ` set ?fps \<subseteq> ks" using ks by (metis list.set_map)
    obtain fps2 u2 S2 w2 where rf: "reflect_pairs E T (reflected_macs ?fps evs) ?fps u S1 w1 = (fps2, u2, S2, w2)"
      by (cases "reflect_pairs E T (reflected_macs ?fps evs) ?fps u S1 w1") auto
    note R = reflected [OF rf sub]
    then have b2: "Inv (sy_store S2, w2)" using b1 by blast
    obtain g cache S3 w3 where gr: "grow_refresh E T ?pfs vf fps2 evs S2 w2 = (g, cache, S3, w3)"
      by (cases "grow_refresh E T ?pfs vf fps2 evs S2 w2") auto
    note G = refreshed [OF gr b2]
    show ?thesis
    proof (cases g)
      case (Inl e)
      then show ?thesis using run av Inr rf gr G by (simp add: fast_learn_def Let_def)
    next
      case fps3: (Inr fps3)
      obtain ours reg where fc: "fast_candidates S3 T Commit fps3 evs = (ours, reg)" by fastforce
      obtain x S4 w4 where ra: "register_all E T fps3 reg cache S3 w3 = (x, S4, w4)"
        by (cases "register_all E T fps3 reg cache S3 w3") auto
      have "map key fps3 = uplinks S T" using G R keys fps3 by simp
      then have "key ` set fps3 \<subseteq> ks" using ks by (metis list.set_map)
      from registered [OF this ra] have "Inv (sy_store S4, w4)" using G by blast
      moreover have "S' = S4" "w' = w4"
        using run av Inr rf gr fps3 fc ra by (auto simp: fast_learn_def Let_def split: sum.splits)
      ultimately show ?thesis by simp
    qed
  qed
qed

lemma applied:
  assumes ks: "set (uplinks S T) \<subseteq> ks" and inv: "Inv (sy_store S, w)"
    and run: "fast_apply E T evs S w = (r, S', w')"
  shows "Inv (sy_store S', w')"
proof -
  have same: "uplinks (date_the_silence T now evs S) T = uplinks S T" for now
    using fast_pairs_uplinks [of "date_the_silence T now evs S" S T "([], False)"] by (simp add: uplinks_def)
  obtain now w1 where clk: "k_boot_millis (e_kernel E) w = (now, w1)" by fastforce
  have b1: "Inv (sy_store S, w1)" by (rule times [OF clk inv])
  consider "sy_store S' = sy_store S" "w' = w" | "sy_store S' = sy_store S" "w' = w1"
    | u where "fast_learn E T evs u S w = (r, S', w')"
    | u where "fast_learn E T evs u (date_the_silence T now evs S) w1 = (r, S', w')"
    using run clk by (auto simp: fast_apply_def Let_def split: if_splits)
  then show ?thesis
  proof cases
    case (4 u)
    show ?thesis using learned [OF _ _ 4] ks b1 by (simp add: same)
  qed (use inv b1 learned [OF ks inv] in simp_all)
qed

end

text \<open>The first such invariant: every uplink's card accounted for by its own note.\<close>

definition apart_keys :: "(name \<times> ifindex) list \<Rightarrow> bool" where
  "apart_keys ks \<longleftrightarrow> inj_on fst (set ks) \<and> inj_on snd (set ks)"

definition key_books ::
    "('w \<Rightarrow> ifindex \<Rightarrow> mac set) \<Rightarrow> (ifindex \<Rightarrow> mac set) \<Rightarrow> (name \<times> ifindex) list \<Rightarrow> store \<times> 'w \<Rightarrow> bool" where
  "key_books held base ks x \<longleftrightarrow>
     coherent (fst x) \<and> (\<forall>k \<in> set ks. accounted held (base (snd k)) (fst k) (snd k) x)"

lemma key_books_turn:
  assumes "key_books held base ks (s, w)" "apart_keys ks" "(dev, i) \<in> set ks" "lawful E held"
    and "turn_kept E held (base i) dev i (s, w) (s', w')"
  shows "key_books held base ks (s', w')"
  unfolding key_books_def
proof (intro conjI ballI)
  have "accounted held (base i) dev i (s, w)" using assms(1,3) by (auto simp: key_books_def)
  then have here: "accounted held (base i) dev i (s', w')" "only_here held dev i (s, w) (s', w')"
    using assms(4,5) by (simp_all add: turn_kept_def)
  then show "coherent (fst (s', w'))" by (simp add: accounted_def)
  fix k assume k: "k \<in> set ks"
  show "accounted held (base (snd k)) (fst k) (snd k) (s', w')"
  proof (cases "k = (dev, i)")
    case True
    then show ?thesis using here(1) by simp
  next
    case False
    then have "fst k \<noteq> dev" "snd k \<noteq> i"
      using assms(2,3) k by (force simp: apart_keys_def inj_on_def)+
    moreover have "coherent s'" using here(1) by (simp add: accounted_def)
    moreover have "accounted held (base (snd k)) (fst k) (snd k) (s, w)" using assms(1) k by (simp add: key_books_def)
    ultimately show ?thesis using here(2) by (blast intro: accounted_elsewhere)
  qed
qed

lemma key_books_undisturbed:
  "(coherent s \<Longrightarrow> undisturbed s s') \<Longrightarrow> held w' = held w \<Longrightarrow> key_books held base ks (s, w) \<Longrightarrow> key_books held base ks (s', w')"
  unfolding key_books_def by (auto simp: accounted_def undisturbedD)

abbreviation batch_books ::
    "'w env \<Rightarrow> ('w \<Rightarrow> ifindex \<Rightarrow> mac set) \<Rightarrow> (ifindex \<Rightarrow> mac set) \<Rightarrow> (name \<times> ifindex) list \<Rightarrow> store \<times> 'w \<Rightarrow> bool" where
  "batch_books E held base ks x \<equiv> lawful E held \<longrightarrow> apart_keys ks \<longrightarrow> key_books held base ks x"

interpretation books: batch_law E T "set ks" "batch_books E held base ks" for E T ks held base
proof
  fix ms fp u S w u' S' w' ls cache r cache' s dev now j q pfs a
  show "batch_books E held base ks (sy_store S', w')"
    if "reflect_pair E T ms fp u S w = (u', S', w')" "key fp \<in> set ks" "batch_books E held base ks (sy_store S, w)"
    using that(3) kept.reflect [OF that(1) HOL.refl HOL.refl, of held "base (a_dev (fp_anat fp))"]
    by (auto intro: key_books_turn [OF _ _ that(2) [unfolded key_def]])
  show "batch_books E held base ks (sy_store S', w')"
    if "register_learns E T fp ls cache S w = (r, cache', S', w')" "key fp \<in> set ks"
      "batch_books E held base ks (sy_store S, w)"
    using that(3) kept.learns [OF that(1) HOL.refl HOL.refl, of held "base (a_dev (fp_anat fp))"]
    by (auto intro: key_books_turn [OF _ _ that(2) [unfolded key_def]])
  show "batch_books E held base ks (snd (load_owned (e_fs E) s dev), w)" if "batch_books E held base ks (s, w)"
    using that by (auto intro: key_books_undisturbed [OF undisturbed_load])
  show "batch_books E held base ks (s, w')" if "k_boot_millis (e_kernel E) w = (now, w')" "batch_books E held base ks (s, w)"
    using that(2) asking_is_harmlessD(1) [OF _ that(1), of held] by (auto simp: lawful_def intro: key_books_undisturbed [of s s])
  show "batch_books E held base ks (s, w')"
    if "read_back (e_kernel E) j cache w = (q, cache', w')" "batch_books E held base ks (s, w)"
    using that(2) read_back_world [OF _ that(1), of held] by (auto simp: lawful_def intro: key_books_undisturbed [of s s])
  show "batch_books E held base ks (s, w')"
    if "k_vf_macs_of (e_kernel E) pfs w = (a, w')" "batch_books E held base ks (s, w)"
    using that(2) asking_is_harmlessD(2) [OF _ that(1), of held] by (auto simp: lawful_def intro: key_books_undisturbed [of s s])
qed

section \<open>Properties\<close>

text \<open>C26: What a batch queues, exactly. For one uplink it is the addresses and ports of the batch's new
  forwarding entries that are learnt, registerable and on a known interface, are not on a sibling of the
  card, not excluded, not remembered or just seen on the wire, and hang behind the uplink's bridge.\<close>

theorem candidates_exactly:
  "queued (snd (fast_candidates S T Commit fps evs)) dev
   = {(fe_mac e, fe_ifindex e) | e fp. (RTM_NEWNEIGH, e) \<in> set evs \<and> is_learned e \<and> is_registerable (fe_mac e)
        \<and> at T (fe_ifindex e) \<noteq> None \<and> fp \<in> set fps \<and> fp_dev fp = dev \<and> admits S fp e}"
  unfolding fast_candidates_def fast_candidates_queue by (force simp: fresh_learn_def)

text \<open>C27: The event path does not disagree with the pass. An address that a batch queues for an uplink is
  wanted there by the next pass over a dump that still has the entry and has not seen the address on the
  wire side, judged by the same topology and driver answer.\<close>

theorem queued_is_wanted:
  assumes "fast_pair_of S T vf p = Some fp" and "admits S fp e" and "is_learned e" and "is_registerable (fe_mac e)"
    and "e \<in> set fdb" and "fe_mac e \<notin> seen_as Wire (fp_anat fp) (fp_reach fp) fdb"
  shows "fe_mac e \<in> w_want (wanted_with_keeps S T (fp_anat fp) fdb (fst vf) owned)"
proof -
  obtain dev br where dev: "index_of T (p_dev p) = Some dev" "index_of T (p_bridge p) = Some br"
    and an: "anatomy_of T dev br = Some (fp_anat fp)"
    and fp: "fp_reach fp = reach_of T br" "fp_skip fp = exclusions S T (fp_anat fp) (fst vf)"
    using assms(1) by (auto simp: fast_pair_of_def split: option.splits)
  obtain bl where bl: "at T br = Some bl" "a_bridge (fp_anat fp) = br" using anatomy_bridge_here [OF an] .
  have "is_unicast e" using assms(4)
    by (cases "fe_mac e") (simp add: is_registerable_def is_unicast_def)
  then have "e \<in> counted fdb" "sight_of (fp_anat fp) (fp_reach fp) e = Behind"
    using assms(2,3,5) by (auto simp: counted_def admits_def sight_of_def)
  then have "fe_mac e \<in> seen_as Behind (fp_anat fp) (reach_of T br) fdb" using fp(1) by (auto simp: seen_as_def)
  moreover have "fe_mac e \<notin> exclusions S T (fp_anat fp) (fst vf)" using assms(2) fp(2) by (auto simp: admits_def)
  moreover have "at T (a_bridge (fp_anat fp)) = Some bl" using bl by simp
  note wanted_unfold(2) [OF this refl, of S fdb "fst vf" owned]
  ultimately show ?thesis using assms(4,6) bl(2) fp(1) by simp
qed

lemma queued_is_wanted_witness:
  "\<exists>fp. fast_pair_of card_syncer card_graph ([], False) \<lparr>p_dev = ''eth0'', p_bridge = ''br0''\<rparr> = Some fp
     \<and> guest \<in> w_want (wanted_with_keeps card_syncer card_graph (fp_anat fp) card_fdb [] {})"
proof -
  let ?fp = "fast_pair_of card_syncer card_graph ([], False) \<lparr>p_dev = ''eth0'', p_bridge = ''br0''\<rparr>"
  have "(case ?fp of None \<Rightarrow> False | Some fp \<Rightarrow>
      3 \<notin> set (a_siblings (fp_anat fp)) \<and> guest \<notin> fp_skip fp \<and> \<not> on_carried_wire card_syncer (fp_dev fp) guest
      \<and> classify (fp_reach fp) 3 1 (a_port (fp_anat fp)) = Behind \<and> guest \<notin> fp_reflected fp
      \<and> guest \<notin> s_wire (sightings (fp_anat fp) (fp_reach fp) card_fdb))"
    by code_simp
  then obtain fp where fp: "?fp = Some fp" and q: "3 \<notin> set (a_siblings (fp_anat fp))" "guest \<notin> fp_skip fp"
    "\<not> on_carried_wire card_syncer (fp_dev fp) guest" "classify (fp_reach fp) 3 1 (a_port (fp_anat fp)) = Behind"
    "guest \<notin> fp_reflected fp" "guest \<notin> s_wire (sightings (fp_anat fp) (fp_reach fp) card_fdb)"
    by (auto split: option.splits)
  have "admits card_syncer fp (learnt_on 3 guest)" using q by (simp add: admits_def learnt_on_def)
  moreover have "is_learned (learnt_on 3 guest)" "is_registerable guest" by code_simp+
  moreover have "learnt_on 3 guest \<in> set card_fdb" by (simp add: card_fdb_def)
  ultimately have "guest \<in> w_want (wanted_with_keeps card_syncer card_graph (fp_anat fp) card_fdb (fst ([], False)) {})"
    using queued_is_wanted [OF fp, of "learnt_on 3 guest" card_fdb "{}"] q(6)
    unfolding sightings_sets by (simp add: learnt_on_def)
  with fp show ?thesis by simp
qed



end
