(* ===== verification/Daemon_Laws.thy ===== *)
theory Daemon_Laws
  imports Daemon
begin

text \<open>
  Laws of the loop: when a pass is owed, how far apart bought passes are, how long the wait is, and
  how the loop ends. The world is a parameter; what is relied on is a clock that does not run backwards
  over the calls between two readings of it (\<open>clock_law\<close>).
\<close>

section \<open>The clock\<close>

definition clock_law :: "'w world \<Rightarrow> ('w \<Rightarrow> nat) \<Rightarrow> bool" where
  "clock_law W clock \<longleftrightarrow>
     (\<forall>w. clock w \<le> fst (wd_now W w) \<and> fst (wd_now W w) \<le> clock (snd (wd_now W w)))
     \<and> (\<forall>w. clock w \<le> clock (snd (wd_stopping W w)))
     \<and> (\<forall>w. clock w \<le> clock (snd (wd_resync_wanted W w)))"

lemma clock_lawD:
  assumes "clock_law W clock"
  shows "wd_now W w = (t, w') \<Longrightarrow> clock w \<le> t \<and> t \<le> clock w'"
    "wd_stopping W w = (b, w') \<Longrightarrow> clock w \<le> clock w'"
    "wd_resync_wanted W w = (b, w') \<Longrightarrow> clock w \<le> clock w'"
  using assms unfolding clock_law_def by (metis fst_conv snd_conv)+

section \<open>What a turn does to the schedule\<close>

text \<open>A turn up to the question whether the pass is due, and that question.\<close>

definition turned :: "'w world \<Rightarrow> 'w loop \<Rightarrow> 'w loop" where
  "turned W L = take_resync W (L\<lparr>lp_world := snd (wd_stopping W (lp_world L))\<rparr>)"

definition passes :: "'w world \<Rightarrow> 'w loop \<Rightarrow> bool" where
  "passes W L \<longleftrightarrow> pass_due (lp_schedule (turned W L)) (fst (wd_now W (lp_world (turned W L))))"

lemma loop_step_turned:
  "loop_step W opts L =
     (if fst (wd_stopping W (lp_world L)) then None
      else case take_pass W opts (turned W L) of Inl L \<Rightarrow> Some L | Inr L \<Rightarrow> Some (take_wait W L))"
  by (simp add: loop_step_def turned_def case_prod_beta)

lemma turned_schedule:
  assumes "clock_law W clock"
  shows "clock (lp_world L) \<le> clock (lp_world (turned W L))"
    "lp_schedule (turned W L) = lp_schedule L \<or>
     (\<exists>t. lp_schedule (turned W L) = at_once (lp_schedule L) t Operator \<and> t \<le> clock (lp_world (turned W L)))"
proof -
  obtain b w1 where st: "wd_stopping W (lp_world L) = (b, w1)" by fastforce
  obtain c w2 where rs: "wd_resync_wanted W w1 = (c, w2)" by fastforce
  obtain t w3 where nw: "wd_now W w2 = (t, w3)" by fastforce
  note order = clock_lawD(2) [OF assms st] clock_lawD(3) [OF assms rs] clock_lawD(1) [OF assms nw]
  then show "clock (lp_world L) \<le> clock (lp_world (turned W L))"
    "lp_schedule (turned W L) = lp_schedule L \<or>
     (\<exists>t. lp_schedule (turned W L) = at_once (lp_schedule L) t Operator \<and> t \<le> clock (lp_world (turned W L)))"
    using st rs nw by (auto simp: turned_def take_resync_def)
qed

lemma take_pass_due:
  assumes "passes W L"
  shows "(\<exists>L' t. take_pass W opts (turned W L) = Inr L' \<and> lp_schedule L' = completed (lp_schedule (turned W L)) t)
       \<or> (\<exists>L' t. take_pass W opts (turned W L) = Inl L' \<and> lp_schedule L' = retry_soon (lp_schedule (turned W L)) t)"
  using assms by (auto simp: passes_def take_pass_def Let_def case_prod_beta)

lemma take_pass_not_due:
  assumes "\<not> passes W L"
  obtains w where "take_pass W opts (turned W L) = Inr ((turned W L)\<lparr>lp_world := w\<rparr>)"
  using assms by (auto simp: passes_def take_pass_def Let_def case_prod_beta)

text \<open>What the wait may do: nothing, a pass at once, or a batch that buys one.\<close>

definition bought :: "schedule \<Rightarrow> nat \<Rightarrow> bool" where
  "bought c d \<longleftrightarrow> sc_last_pass c + PASS_FLOOR \<le> d"

lemma handle_batch_due:
  assumes "handle_batch W S latest evs last_pass w = (Some (due, t), S', latest', w')"
  shows "last_pass + PASS_FLOOR \<le> due" "t = batch_trigger evs"
  using assms
  by (auto simp: handle_batch_def Let_def case_prod_beta batch_wait_def split: if_splits)

lemma take_wait_schedule:
  assumes "clock_law W clock"
  shows "lp_schedule (take_wait W L) = lp_schedule L
    \<or> (\<exists>t x. lp_schedule (take_wait W L) = at_once (lp_schedule L) t x \<and> t \<le> clock (lp_world (take_wait W L)))
    \<or> (\<exists>d x. lp_schedule (take_wait W L) = bring_forward (lp_schedule L) d x \<and> bought (lp_schedule L) d)"
proof -
  obtain now w1 where n: "wd_now W (lp_world L) = (now, w1)" by fastforce
  obtain r w2 where wt: "wd_wait W (poll_millis (wait_for (lp_schedule L) now)) w1 = (r, w2)" by fastforce
  have now: "fst (wd_now W w) \<le> clock (snd (wd_now W w))" for w
    using clock_lawD(1) [OF assms prod.collapse [symmetric]] by blast
  show ?thesis
  proof (cases r)
    case (Inl e)
    then show ?thesis using n wt now by (auto simp: take_wait_def Let_def case_prod_beta)
  next
    case woken: (Inr b)
    show ?thesis
    proof (cases b)
      case False
      then show ?thesis using n wt woken by (simp add: take_wait_def)
    next
      case True
      obtain q w3 where rv: "wd_recv_events W w2 = (q, w3)" by fastforce
      show ?thesis
      proof (cases q)
        case (Inl e)
        then show ?thesis using n wt woken True rv now by (auto simp: take_wait_def Let_def case_prod_beta)
      next
        case (Inr evs)
        obtain bt S' l' w4 where
          hb: "handle_batch W (lp_syncer L) (lp_latest L) evs (sc_last_pass (lp_schedule L)) w3 = (bt, S', l', w4)"
          by (cases "handle_batch W (lp_syncer L) (lp_latest L) evs (sc_last_pass (lp_schedule L)) w3") auto
        have eq: "lp_schedule (take_wait W L) = (case bt of None \<Rightarrow> lp_schedule L
            | Some (due, t) \<Rightarrow> bring_forward (lp_schedule L) due t)"
          using n wt woken True rv Inr hb by (cases bt) (simp_all add: take_wait_def Let_def case_prod_beta)
        show ?thesis
        proof (cases bt)
          case (Some x)
          then obtain d t where x: "bt = Some (d, t)" by (cases x) auto
          have "bought (lp_schedule L) d" using handle_batch_due(1) [OF hb [unfolded x]] by (simp add: bought_def)
          then show ?thesis using eq x by auto
        qed (use eq in simp)
      qed
    qed
  qed
qed

section \<open>Pacing\<close>

text \<open>
  At the top of the loop a pass is owed at once (the start, the operator, a failed wait, lost events),
  or not before the floor after the last one.
\<close>

definition paced :: "schedule \<Rightarrow> nat \<Rightarrow> bool" where
  "paced c now \<longleftrightarrow> (case sc_due c of None \<Rightarrow> True | Some d \<Rightarrow> d \<le> now \<or> bought c d)"

inductive turns :: "'w world \<Rightarrow> options \<Rightarrow> 'w loop \<Rightarrow> 'w loop \<Rightarrow> bool" for W opts where
  here: "turns W opts L L"
| turn: "turns W opts L M \<Longrightarrow> loop_step W opts M = Some N \<Longrightarrow> turns W opts L N"

inductive_cases turnsE: "turns W opts L M"

lemma overdue_passes:
  assumes "clock_law W clock" "sc_due (lp_schedule L) = Some d" "d \<le> clock (lp_world L)"
  shows "passes W L"
proof -
  let ?w = "lp_world (turned W L)"
  have "clock ?w \<le> fst (wd_now W ?w)" using assms(1) by (simp add: clock_law_def)
  then show ?thesis
    using turned_schedule [OF assms(1), of L] assms(2,3) by (auto simp: passes_def pass_due_def at_once_def)
qed

lemma not_passing_turn:
  assumes "clock_law W clock" "\<not> passes W L"
  shows "lp_schedule (turned W L) = lp_schedule L"
proof -
  have "lp_schedule (turned W L) \<noteq> at_once (lp_schedule L) t Operator" if "t \<le> clock (lp_world (turned W L))" for t
  proof -
    have "clock (lp_world (turned W L)) \<le> fst (wd_now W (lp_world (turned W L)))"
      using assms(1) by (simp add: clock_law_def)
    then show ?thesis using assms(2) that by (auto simp: passes_def pass_due_def at_once_def)
  qed
  then show ?thesis using turned_schedule(2) [OF assms(1)] by blast
qed

lemma paced_wait:
  assumes "clock_law W clock" "sc_due (lp_schedule L) = None \<or> (\<exists>d. sc_due (lp_schedule L) = Some d \<and> bought (lp_schedule L) d)"
  shows "paced (lp_schedule (take_wait W L)) (clock (lp_world (take_wait W L)))"
  using take_wait_schedule [OF assms(1), of L] assms(2)
  by (auto simp: paced_def bought_def at_once_def bring_forward_def)

lemma step_paced:
  assumes law: "clock_law W clock" and step: "loop_step W opts L = Some L'"
    and before: "paced (lp_schedule L) (clock (lp_world L))"
  shows "paced (lp_schedule L') (clock (lp_world L'))"
proof (cases "passes W L")
  case True
  then consider (done_it) M where "take_pass W opts (turned W L) = Inr M" "sc_due (lp_schedule M) = None"
    | (again) M t where "take_pass W opts (turned W L) = Inl M" "lp_schedule M = retry_soon (lp_schedule (turned W L)) t"
    using take_pass_due by (force simp: completed_def)
  then show ?thesis
  proof cases
    case done_it
    then show ?thesis using step paced_wait [OF law] by (auto simp: loop_step_turned split: if_splits)
  next
    case again
    then have "L' = M" using step by (auto simp: loop_step_turned split: if_splits)
    then show ?thesis using again by (simp add: paced_def bought_def retry_soon_def)
  qed
next
  case False
  obtain w where tp: "take_pass W opts (turned W L) = Inr ((turned W L)\<lparr>lp_world := w\<rparr>)"
    using take_pass_not_due [OF False] .
  have "L' = take_wait W ((turned W L)\<lparr>lp_world := w\<rparr>)"
    using step tp by (auto simp: loop_step_turned split: if_splits)
  moreover have "sc_due (lp_schedule L) = None \<or> (\<exists>d. sc_due (lp_schedule L) = Some d \<and> bought (lp_schedule L) d)"
    using before overdue_passes [OF law] False by (auto simp: paced_def split: option.splits)
  ultimately show ?thesis using paced_wait [OF law] not_passing_turn [OF law False] by simp
qed

lemma turns_paced:
  "turns W opts L M \<Longrightarrow> clock_law W clock \<Longrightarrow> paced (lp_schedule L) (clock (lp_world L))
     \<Longrightarrow> paced (lp_schedule M) (clock (lp_world M))"
  by (induction rule: turns.induct) (auto intro: step_paced)

lemma start_paced: "clock_law W clock \<Longrightarrow> paced (lp_schedule (start_loop W S w)) (clock (lp_world (start_loop W S w)))"
  using clock_lawD(1) [of W clock w "fst (wd_now W w)" "snd (wd_now W w)"]
  by (simp add: start_loop_def paced_def new_schedule_def case_prod_beta)

section \<open>The end of the loop\<close>

lemma daemon_loop_stop: "loop_step W opts L = None \<Longrightarrow> daemon_loop W opts L = Some L"
  by (subst daemon_loop.simps) simp

lemma daemon_loop_turn: "loop_step W opts L = Some M \<Longrightarrow> daemon_loop W opts L = daemon_loop W opts M"
  by (subst daemon_loop.simps) simp

lemma turns_first:
  "turns W opts M N \<Longrightarrow> loop_step W opts L = Some M \<Longrightarrow> turns W opts L N"
  by (induction rule: turns.induct) (blast intro: turns.intros)+

lemma daemon_loop_ends:
  "daemon_loop W opts L = Some M \<Longrightarrow> turns W opts L M \<and> loop_step W opts M = None"
proof (induction rule: daemon_loop.raw_induct [rotated, consumes 1, case_names 1])
  case (1 loop W opts L M)
  show ?case
  proof (cases "loop_step W opts L")
    case None
    then show ?thesis using 1 by (auto intro: turns.here)
  next
    case (Some L')
    then show ?thesis using 1 turns_first by fastforce
  qed
qed

lemma turns_loop:
  "turns W opts L M \<Longrightarrow> daemon_loop W opts L = daemon_loop W opts M"
  by (induction rule: turns.induct) (simp_all add: daemon_loop_turn)

lemma loop_step_None: "loop_step W opts L = None \<longleftrightarrow> fst (wd_stopping W (lp_world L))"
  by (auto simp: loop_step_turned split: sum.split)

section \<open>What the whole loop keeps\<close>

text \<open>A stretch of the loop, seen as what it does to the syncer and the world.\<close>

abbreviation loop_state :: "'w loop \<Rightarrow> syncer \<times> 'w" where
  "loop_state L \<equiv> (lp_syncer L, lp_world L)"

text \<open>
  What the calls of the world, a pass and a batch keep, the loop keeps for as long as it runs.
\<close>

locale loop_law =
  fixes W :: "'w world" and opts :: options and J :: "syncer \<times> 'w \<Rightarrow> bool"
  assumes now: "wd_now W w = (t, v) \<Longrightarrow> J (S, w) \<Longrightarrow> J (S, v)"
    and stopping: "wd_stopping W w = (b, v) \<Longrightarrow> J (S, w) \<Longrightarrow> J (S, v)"
    and resync_wanted: "wd_resync_wanted W w = (b, v) \<Longrightarrow> J (S, w) \<Longrightarrow> J (S, v)"
    and waiting: "wd_wait W ms w = (r, v) \<Longrightarrow> J (S, w) \<Longrightarrow> J (S, v)"
    and events: "wd_recv_events W w = (evs, v) \<Longrightarrow> J (S, w) \<Longrightarrow> J (S, v)"
    and pause: "J (S, w) \<Longrightarrow> J (S, wd_pause W n w)"
    and distrusted: "J (S, w) \<Longrightarrow> J (distrust S, w)"
    and pass: "run_pass W opts S latest marks w = (ok, S', latest', marks', w') \<Longrightarrow> J (S, w) \<Longrightarrow> J (S', w')"
    and batch: "handle_batch W S latest batch last_pass w = (buys, S', latest', w') \<Longrightarrow> J (S, w) \<Longrightarrow> J (S', w')"
begin

lemma resynced: "J (loop_state L) \<Longrightarrow> J (loop_state (take_resync W L))"
  using resync_wanted now distrusted by (auto simp: take_resync_def split: prod.splits)

lemma passed:
  assumes "take_pass W opts L = x" "J (loop_state L)"
  shows "J (loop_state (case x of Inl M \<Rightarrow> M | Inr M \<Rightarrow> M))"
proof -
  obtain t w1 where n: "wd_now W (lp_world L) = (t, w1)" by fastforce
  obtain r S2 lt mk w2 where p: "run_pass W opts (lp_syncer L) (lp_latest L) (lp_marks L) w1 = (r, S2, lt, mk, w2)"
    by (metis prod_cases5)
  obtain t3 w3 where n3: "wd_now W w2 = (t3, w3)" by fastforce
  have "J (lp_syncer L, w1)" "J (S2, w3)"
    using now [OF n assms(2)] pass [OF p] now [OF n3] by blast+
  then show ?thesis
    using assms(1) by (auto simp: take_pass_def n p n3 Let_def split: if_splits)
qed

lemma waited:
  assumes "J (loop_state L)"
  shows "J (loop_state (take_wait W L))"
proof -
  obtain t w1 where n: "wd_now W (lp_world L) = (t, w1)" by fastforce
  obtain r w2 where v: "wd_wait W (poll_millis (wait_for (lp_schedule L) t)) w1 = (r, w2)" by fastforce
  have w2: "J (lp_syncer L, w2)" by (rule waiting [OF v now [OF n assms]])
  show ?thesis
  proof (cases r)
    case (Inl e)
    define w3 where "w3 = (if 0 < lp_wait_failures L then wd_pause W RETRY_AFTER w2 else w2)"
    obtain t4 w4 where n4: "wd_now W w3 = (t4, w4)" by fastforce
    have "J (lp_syncer L, w3)" using w2 pause by (simp add: w3_def)
    then have "J (distrust (lp_syncer L), w4)" using now [OF n4] distrusted by blast
    then show ?thesis using n4 by (simp add: take_wait_def n v Inl w3_def [symmetric])
  next
    case (Inr woken)
    show ?thesis
    proof (cases woken)
      case False
      then show ?thesis using w2 by (simp add: take_wait_def n v Inr)
    next
      case True
      obtain x w3 where e: "wd_recv_events W w2 = (x, w3)" by fastforce
      have w3: "J (lp_syncer L, w3)" by (rule events [OF e w2])
      show ?thesis
      proof (cases x)
        case (Inl err)
        obtain t4 w4 where n4: "wd_now W w3 = (t4, w4)" by fastforce
        then show ?thesis using distrusted [OF now [OF n4 w3]] True Inr by (simp add: take_wait_def n v e Inl)
      next
        case (Inr evs)
        obtain b S4 lt w4 where h: "handle_batch W (lp_syncer L) (lp_latest L) evs (sc_last_pass (lp_schedule L)) w3
            = (b, S4, lt, w4)" by (metis prod_cases4)
        show ?thesis using batch [OF h w3] True \<open>r = Inr woken\<close> by (simp add: take_wait_def n v e Inr h Let_def)
      qed
    qed
  qed
qed

lemma stepped:
  assumes "loop_step W opts L = Some M" "J (loop_state L)"
  shows "J (loop_state M)"
proof -
  have "J (lp_syncer L, snd (wd_stopping W (lp_world L)))" using stopping [OF prod.collapse [symmetric] assms(2)] .
  then have "J (loop_state (turned W L))" unfolding turned_def by (intro resynced) simp
  from passed [OF HOL.refl this, of] show ?thesis
    using assms(1) waited by (auto simp: loop_step_turned split: if_splits sum.splits)
qed

lemma turning: "turns W opts L M \<Longrightarrow> J (loop_state L) \<Longrightarrow> J (loop_state M)"
  by (induction rule: turns.induct) (blast intro: stepped)+

lemma looping: "daemon_loop W opts L = Some M \<Longrightarrow> J (loop_state L) \<Longrightarrow> J (loop_state M)"
  using daemon_loop_ends turning by blast

end

section \<open>A world to look at\<close>

text \<open>
  A machine whose clock moves by a second with every reading and which is told to stop after three
  looks at the flag: nothing arrives, the interfaces are those of \<open>card_graph\<close>.
\<close>

type_synonym quiet = "nat \<times> nat"

definition quiet_kernel :: "quiet writer" where
  "quiet_kernel =
     \<lparr>k_dump_fdb = (\<lambda>w. (Inr [], w)), k_dump_fdb_of = (\<lambda>i w. (Inr [], w)), k_dump_links = (\<lambda>w. (Inr [], w)),
      k_vf_macs_of = (\<lambda>pfs w. (Inr [], w)), k_vf_info_of = (\<lambda>i w. (Inr [], w)),
      k_set_self_fdb = (\<lambda>i m on w. (None, w)), k_boot_millis = (\<lambda>w. (fst w div 1000000, w)),
      k_instant = (\<lambda>(t, n). (t, (t + SECOND, n)))\<rparr>"

definition quiet_world :: "quiet world" where
  "quiet_world =
     \<lparr>wd_env = \<lparr>e_kernel = quiet_kernel,
                e_fs = \<lparr>fs_read = (\<lambda>_. True), fs_put = (\<lambda>_. True), fs_append = (\<lambda>_. AppendOk),
                        fs_lock = (\<lambda>_. True), fs_list = True\<rparr>,
                e_order = sorted_list_of_set\<rparr>,
      wd_stopping = (\<lambda>(t, n). (n = 0, (t, n - 1))), wd_resync_wanted = (\<lambda>w. (False, w)),
      wd_wait = (\<lambda>ms w. (Inr False, w)), wd_recv_events = (\<lambda>w. (Inr no_events, w)),
      wd_pause = (\<lambda>d w. w), wd_read_topology = (\<lambda>w. (Inl Custom, w))\<rparr>"

lemma quiet_clock: "clock_law quiet_world fst"
  by (auto simp: clock_law_def quiet_world_def quiet_kernel_def)

definition quiet_start :: "quiet loop" where
  "quiet_start = start_loop quiet_world (new_syncer [] \<lparr>dk_files = [], dk_next_ino = 1, dk_clock = 0, dk_now = 1\<rparr>) (0, 1)"

lemma quiet_turn:
  obtains M where "loop_step quiet_world default_options quiet_start = Some M" "loop_step quiet_world default_options M = None"
    "sc_due (lp_schedule M) \<noteq> None"
proof -
  have "(case loop_step quiet_world default_options quiet_start of None \<Rightarrow> False
      | Some M \<Rightarrow> fst (wd_stopping quiet_world (lp_world M)) \<and> sc_due (lp_schedule M) \<noteq> None)"
    by (simp add: loop_step_def quiet_start_def start_loop_def quiet_world_def quiet_kernel_def take_resync_def
        take_pass_def pass_due_def new_schedule_def run_pass_def retry_soon_def)
  then obtain M where M: "loop_step quiet_world default_options quiet_start = Some M"
    "fst (wd_stopping quiet_world (lp_world M))" "sc_due (lp_schedule M) \<noteq> None"
    by (auto split: option.splits)
  have "loop_step quiet_world default_options M = None" using loop_step_None M(2) by blast
  with M show ?thesis using that by blast
qed

section \<open>Properties\<close>





text \<open>C18: The loop runs until it is stopped, and no longer. It returns exactly when some number of turns
  leads to a state in which the stop is seen, and what it returns is that state.\<close>

theorem loop_runs_until_stopped:
  "daemon_loop W opts L = Some M \<longleftrightarrow> turns W opts L M \<and> fst (wd_stopping W (lp_world M))"
proof
  assume "daemon_loop W opts L = Some M"
  from daemon_loop_ends [OF this] show "turns W opts L M \<and> fst (wd_stopping W (lp_world M))"
    using loop_step_None [of W opts M] by simp
next
  assume M: "turns W opts L M \<and> fst (wd_stopping W (lp_world M))"
  then have "loop_step W opts M = None" using loop_step_None [of W opts M] by simp
  then show "daemon_loop W opts L = Some M" using turns_loop [OF conjunct1 [OF M]] daemon_loop_stop by simp
qed

text \<open>The wait fits what is owed. With nothing owed it is without end; otherwise the milliseconds given
  to \<open>poll\<close> fit its \<open>int\<close>, are at least what is left (so the loop does not spin before the deadline) up to
  the largest it can say, and exceed it by less than one.\<close>

lemma poll_fits_the_wait:
  "poll_millis None = -1
   \<and> 0 \<le> poll_millis (Some ns) \<and> poll_millis (Some ns) < 2 ^ 31
   \<and> min (int ns) ((2 ^ 31 - 1) * 1000000) \<le> poll_millis (Some ns) * 1000000
   \<and> poll_millis (Some ns) * 1000000 < int ns + 1000000"
proof -
  define q where "q = (ns + 999999) div 1000000"
  have "q * 1000000 + (ns + 999999) mod 1000000 = ns + 999999" unfolding q_def by (rule div_mult_mod_eq)
  moreover have "(ns + 999999) mod 1000000 < 1000000" by (rule mod_less_divisor) simp
  ultimately have q: "ns \<le> q * 1000000" "q * 1000000 < ns + 1000000" by linarith+
  have p: "poll_millis (Some ns) = min (int q) (2147483647)" by (simp add: poll_millis_def q_def min_def)
  have "min (int ns) (2147483647 * 1000000) \<le> min (int q) 2147483647 * 1000000"
    "min (int q) 2147483647 * 1000000 < int ns + 1000000" "0 \<le> min (int q) 2147483647" "min (int q) 2147483647 < 2147483648"
    using q by linarith+
  moreover have "(2 :: int) ^ 31 = 2147483648" "poll_millis None = -1" by (simp_all add: poll_millis_def)
  ultimately show ?thesis unfolding p by (intro conjI) simp_all
qed

end
