(* ===== verification/Live.thy ===== *)
theory Live
  imports Socket Noise_Filter Program Sysfs
begin

text \<open>
  The program as it is started: the sockets opened by \<open>open_on\<close> of \<^verbatim>\<open>src/netlink.rs\<close>, the
  signal handler and its stop pipe and the composition \<open>run\<close> of \<^verbatim>\<open>src/main.rs\<close>, and
  \<open>impl World for Live\<close> of \<^verbatim>\<open>src/daemon.rs\<close>, which hands the loop of \<open>Daemon\<close> the sockets of
  \<open>Socket\<close>. System calls are arguments, functions over \<open>'w\<close>. A call that never returns leaves
  no world at all: the state of a \<open>Live\<close> world is an option, and what has hung stays hung.
\<close>

section \<open>Opening a socket\<close>

datatype socket_option =
    RcvBufForce nat
  | RcvBuf nat
  | RcvTimeo nat
  | AttachFilter "sock_filter list"

record 'w sys =
  ys_socket :: "nat \<Rightarrow> 'w \<Rightarrow> (io_error + nat) \<times> 'w"
  ys_setsockopt :: "nat \<Rightarrow> socket_option \<Rightarrow> 'w \<Rightarrow> io_error option \<times> 'w"
  ys_bind :: "nat \<Rightarrow> u32 \<Rightarrow> 'w \<Rightarrow> io_error option \<times> 'w"
  ys_close :: "nat \<Rightarrow> 'w \<Rightarrow> 'w"
  ys_little_endian :: bool

abbreviation NETLINK_ROUTE :: nat where "NETLINK_ROUTE \<equiv> 0"
abbreviation RTNLGRP_LINK :: nat where "RTNLGRP_LINK \<equiv> 1"
abbreviation RTNLGRP_NEIGH :: nat where "RTNLGRP_NEIGH \<equiv> 3"

text \<open>The receive buffer: past the ceiling where allowed, up to it otherwise, or as it is.\<close>

definition enlarge_buffer :: "'w sys \<Rightarrow> nat \<Rightarrow> 'w \<Rightarrow> 'w" where
  "enlarge_buffer Y fd w =
     (case ys_setsockopt Y fd (RcvBufForce (2 ^ 20)) w of
        (None, w) \<Rightarrow> w
      | (Some _, w) \<Rightarrow> snd (ys_setsockopt Y fd (RcvBuf (2 ^ 20)) w))"

text \<open>The noise filter goes on a subscription only, before it is bound; a refusal is only said.\<close>

definition attach_filter :: "'w sys \<Rightarrow> u32 \<Rightarrow> nat \<Rightarrow> 'w \<Rightarrow> 'w" where
  "attach_filter Y groups fd w =
     (if groups \<noteq> 0 \<and> ys_little_endian Y
      then snd (ys_setsockopt Y fd (AttachFilter noise_filter) w) else w)"

text \<open>\<open>open_on\<close>: the descriptor and the socket around it; what fails on the way closes it again.\<close>

definition open_on :: "'w sys \<Rightarrow> u32 \<Rightarrow> nat \<Rightarrow> 'w \<Rightarrow> (io_error + nat \<times> sock) \<times> 'w" where
  "open_on Y groups protocol w =
     (case ys_socket Y protocol w of
        (Inl e, w) \<Rightarrow> (Inl e, w)
      | (Inr fd, w) \<Rightarrow>
          (case ys_setsockopt Y fd (RcvTimeo (READ_TIMEOUT div SECOND)) (enlarge_buffer Y fd w) of
             (Some e, w) \<Rightarrow> (Inl e, ys_close Y fd w)
           | (None, w) \<Rightarrow>
               (case ys_bind Y fd groups (attach_filter Y groups fd w) of
                  (Some e, w) \<Rightarrow> (Inl e, ys_close Y fd w)
                | (None, w) \<Rightarrow> (Inr (fd, new_sock), w))))"

definition new_socket :: "'w sys \<Rightarrow> 'w \<Rightarrow> (io_error + nat \<times> sock) \<times> 'w" where
  "new_socket Y w = open_on Y 0 NETLINK_ROUTE w"

definition subscribed :: "'w sys \<Rightarrow> 'w \<Rightarrow> (io_error + nat \<times> sock) \<times> 'w" where
  "subscribed Y w =
     open_on Y (push_bit (RTNLGRP_NEIGH - 1) 1 OR push_bit (RTNLGRP_LINK - 1) 1) NETLINK_ROUTE w"

section \<open>Signals\<close>

datatype signal = SIGTERM | SIGINT | SIGHUP

text \<open>
  The two flags, the signals that are caught, and the stop pipe: \<open>None\<close> where there is none,
  otherwise whether a byte is in it. A write into a full pipe fails and is not looked at.
\<close>

record flags =
  fl_stopping :: bool
  fl_resync :: bool
  fl_pipe :: "bool option"
  fl_caught :: "signal list"

definition no_flags :: flags where
  "no_flags = \<lparr>fl_stopping = False, fl_resync = False, fl_pipe = None, fl_caught = []\<rparr>"

definition note_signal :: "signal \<Rightarrow> flags \<Rightarrow> flags" where
  "note_signal sg f =
     (let f = (if sg = SIGHUP then f\<lparr>fl_resync := True\<rparr> else f\<lparr>fl_stopping := True\<rparr>)
      in f\<lparr>fl_pipe := map_option (\<lambda>_. True) (fl_pipe f)\<rparr>)"

text \<open>The signals that arrived, in their order, each through the handler.\<close>

definition deliver :: "signal list \<Rightarrow> flags \<Rightarrow> flags" where
  "deliver sgs f = fold note_signal sgs f"

text \<open>\<open>catch_signals\<close>: the pipe first, then the handlers; \<open>ok\<close> is what \<open>sigaction\<close> says of each.\<close>

definition catch_signals :: "bool \<Rightarrow> (signal \<Rightarrow> bool) \<Rightarrow> flags \<Rightarrow> flags" where
  "catch_signals pipe_made ok f =
     f\<lparr>fl_pipe := (if pipe_made then Some False else None),
       fl_caught := filter ok [SIGTERM, SIGINT, SIGHUP]\<rparr>"

section \<open>The outside\<close>

text \<open>
  What lies behind a \<open>Live\<close> world: the operating system behind either socket, the caught signals that
  have arrived since it was last asked (one that is not caught ends the process), \<open>poll\<close> with or without the stop pipe beside the
  subscription (a time limit, whether the pipe is readable as it begins; whether the subscription
  is ready, and the signals that arrived meanwhile), \<open>poll\<close> on the pipe alone, sleeping, the boot
  clock, and one reading of \<open>/sys\<close>.
\<close>

record 'w outside =
  ox_cmd :: "'w os"
  ox_mon :: "'w os"
  ox_signals :: "'w \<Rightarrow> signal list \<times> 'w"
  ox_poll :: "int \<Rightarrow> bool option \<Rightarrow> 'w \<Rightarrow> (io_error + bool) \<times> signal list \<times> 'w"
  ox_poll_stop :: "nat \<Rightarrow> bool \<Rightarrow> 'w \<Rightarrow> io_error option \<times> signal list \<times> 'w"
  ox_sleep :: "nat \<Rightarrow> 'w \<Rightarrow> 'w"
  ox_boot_millis :: "'w \<Rightarrow> nat \<times> 'w"
  ox_sysfs :: "'w \<Rightarrow> sysfs \<times> 'w"

record 'w live =
  lv_sock :: sock
  lv_mon :: sock
  lv_flags :: flags
  lv_facts :: "ifindex \<rightharpoonup> device_facts"
  lv_out :: 'w

type_synonym 'w life = "'w live option"

text \<open>A call in a world that may have hung; \<open>d\<close> is an answer nobody gets to use.\<close>

definition on_live :: "'a \<Rightarrow> ('w live \<Rightarrow> ('a \<times> 'w live) option) \<Rightarrow> 'w life \<Rightarrow> 'a \<times> 'w life" where
  "on_live d f L =
     (case L of
        None \<Rightarrow> (d, None)
      | Some l \<Rightarrow> (case f l of None \<Rightarrow> (d, None) | Some (a, l) \<Rightarrow> (a, Some l)))"

text \<open>The command socket's calls and the subscription's.\<close>

definition on_sock ::
    "(sock \<Rightarrow> 'w \<Rightarrow> ('a \<times> sock \<times> 'w) option) \<Rightarrow> 'w live \<Rightarrow> ('a \<times> 'w live) option" where
  "on_sock f l =
     map_option (\<lambda>(a, S, w). (a, l\<lparr>lv_sock := S, lv_out := w\<rparr>)) (f (lv_sock l) (lv_out l))"

definition on_mon ::
    "(sock \<Rightarrow> 'w \<Rightarrow> ('a \<times> sock \<times> 'w) option) \<Rightarrow> 'w live \<Rightarrow> ('a \<times> 'w live) option" where
  "on_mon f l =
     map_option (\<lambda>(a, S, w). (a, l\<lparr>lv_mon := S, lv_out := w\<rparr>)) (f (lv_mon l) (lv_out l))"

definition on_out :: "('w \<Rightarrow> 'a \<times> 'w) \<Rightarrow> 'w live \<Rightarrow> ('a \<times> 'w live) option" where
  "on_out f l = (case f (lv_out l) of (a, w) \<Rightarrow> Some (a, l\<lparr>lv_out := w\<rparr>))"

text \<open>Signals run through the handler between any two instructions; here, before a flag is read.\<close>

definition hear :: "'w outside \<Rightarrow> 'w live \<Rightarrow> 'w live" where
  "hear X l =
     (case ox_signals X (lv_out l) of
        (sgs, w) \<Rightarrow> l\<lparr>lv_flags := deliver sgs (lv_flags l), lv_out := w\<rparr>)"

section \<open>The World of the loop\<close>

text \<open>\<open>impl FdbWriter for Live\<close>.\<close>

definition live_writer :: "'w outside \<Rightarrow> 'w life writer" where
  "live_writer X =
     \<lparr>k_dump_fdb = on_live (Inl Custom) (on_sock (sock_dump_fdb (ox_cmd X))),
      k_dump_fdb_of = (\<lambda>i. on_live (Inl Custom) (on_sock (sock_dump_fdb_of (ox_cmd X) i))),
      k_dump_links = on_live (Inl Custom) (on_sock (sock_dump_links (ox_cmd X))),
      k_vf_macs_of = (\<lambda>is. on_live (Inl Custom) (on_sock (sock_vf_macs_of (ox_cmd X) is))),
      k_vf_info_of = (\<lambda>i. on_live (Inl Custom) (on_sock (sock_vf_info_of (ox_cmd X) i))),
      k_set_self_fdb = (\<lambda>i m add. on_live (Some Custom) (on_sock (sock_set_self_fdb (ox_cmd X) i m add))),
      k_boot_millis = on_live 0 (on_out (ox_boot_millis X)),
      k_instant = on_live 0 (on_out (os_now (ox_cmd X)))\<rparr>"

definition live_stopping :: "'w outside \<Rightarrow> 'w live \<Rightarrow> bool \<times> 'w live" where
  "live_stopping X l = (let l = hear X l in (fl_stopping (lv_flags l), l))"

text \<open>\<open>resync_wanted\<close>: read and put back in one.\<close>

definition live_resync_wanted :: "'w outside \<Rightarrow> 'w live \<Rightarrow> bool \<times> 'w live" where
  "live_resync_wanted X l =
     (let l = hear X l; f = lv_flags l in (fl_resync f, l\<lparr>lv_flags := f\<lparr>fl_resync := False\<rparr>\<rparr>))"

text \<open>\<open>Socket::wait\<close> and the wait of \<open>Live\<close>, which drains the stop pipe and calls that nothing.\<close>

definition interrupted :: "io_error \<Rightarrow> io_error + bool" where
  "interrupted e = (if e = EINTR then Inr False else Inl e)"

definition sock_wait :: "'w outside \<Rightarrow> int \<Rightarrow> 'w live \<Rightarrow> (io_error + bool) \<times> 'w live" where
  "sock_wait X millis l =
     (case ox_poll X (max millis (-1)) None (lv_out l) of
        (r, sgs, w) \<Rightarrow>
          (case r of Inl e \<Rightarrow> interrupted e | Inr ready \<Rightarrow> Inr ready,
           l\<lparr>lv_flags := deliver sgs (lv_flags l), lv_out := w\<rparr>))"

definition live_wait :: "'w outside \<Rightarrow> int \<Rightarrow> 'w live \<Rightarrow> (io_error + bool) \<times> 'w live" where
  "live_wait X millis l =
     (let l = hear X l in
      case fl_pipe (lv_flags l) of
        None \<Rightarrow> sock_wait X millis l
      | Some readable \<Rightarrow>
          (case ox_poll X (max millis (-1)) (Some readable) (lv_out l) of
             (r, sgs, w) \<Rightarrow>
               let f = deliver sgs (lv_flags l); l = l\<lparr>lv_flags := f, lv_out := w\<rparr> in
               (case r of
                  Inl e \<Rightarrow> (interrupted e, l)
                | Inr ready \<Rightarrow>
                    if fl_pipe f = Some True
                    then (Inr False, l\<lparr>lv_flags := f\<lparr>fl_pipe := Some False\<rparr>\<rparr>)
                    else (Inr ready, l))))"

text \<open>\<open>pause\<close>: until the deadline, or a stop; anything else in the pipe is drained and waited past.\<close>

partial_function (option) live_pause :: "'w outside \<Rightarrow> nat \<Rightarrow> 'w live \<Rightarrow> 'w live option" where
  "live_pause X deadline l =
     (case os_now (ox_cmd X) (lv_out l) of (now, w) \<Rightarrow>
        let l = hear X (l\<lparr>lv_out := w\<rparr>); left = deadline - now in
        if left = 0 then Some l
        else case fl_pipe (lv_flags l) of
          None \<Rightarrow> Some (l\<lparr>lv_out := ox_sleep X left (lv_out l)\<rparr>)
        | Some readable \<Rightarrow>
            (case ox_poll_stop X (min (left div 1000000) (2 ^ 31 - 1)) readable (lv_out l) of
               (Some e, sgs, w) \<Rightarrow>
                 let l = l\<lparr>lv_flags := deliver sgs (lv_flags l), lv_out := w\<rparr> in
                 if e = EINTR then live_pause X deadline l
                 else Some (l\<lparr>lv_out := ox_sleep X left (lv_out l)\<rparr>)
             | (None, sgs, w) \<Rightarrow>
                 let f = deliver sgs (lv_flags l) in
                 if fl_pipe f = Some True then
                   (let l = l\<lparr>lv_flags := f\<lparr>fl_pipe := Some False\<rparr>, lv_out := w\<rparr> in
                    if fl_stopping f then Some l else live_pause X deadline l)
                 else live_pause X deadline (l\<lparr>lv_flags := f, lv_out := w\<rparr>)))"

definition start_pause :: "'w outside \<Rightarrow> nat \<Rightarrow> 'w live \<Rightarrow> 'w live option" where
  "start_pause X wait l =
     (case os_now (ox_cmd X) (lv_out l) of (now, w) \<Rightarrow> live_pause X (now + wait) (l\<lparr>lv_out := w\<rparr>))"

text \<open>\<open>read_topology\<close>: one dump, and what \<open>/sys\<close> adds; the facts are kept by index.\<close>

definition live_read_topology ::
    "'w outside \<Rightarrow> 'w live \<Rightarrow> ((io_error + topology) \<times> 'w live) option" where
  "live_read_topology X l =
     do {
       (r, l) \<leftarrow> on_sock (sock_dump_links (ox_cmd X)) l;
       case r of
         Inl e \<Rightarrow> Some (Inl e, l)
       | Inr infos \<Rightarrow>
           (case ox_sysfs X (lv_out l) of (sy, w) \<Rightarrow>
              (case from_links sy infos (lv_facts l) of (T, facts) \<Rightarrow>
                 Some (Inr T, l\<lparr>lv_facts := facts, lv_out := w\<rparr>)))
     }"

definition live_env :: "'w outside \<Rightarrow> fs \<Rightarrow> (mac set \<Rightarrow> mac list) \<Rightarrow> 'w life env" where
  "live_env X F order = \<lparr>e_kernel = live_writer X, e_fs = F, e_order = order\<rparr>"

definition live_world :: "'w outside \<Rightarrow> fs \<Rightarrow> (mac set \<Rightarrow> mac list) \<Rightarrow> 'w life world" where
  "live_world X F order =
     \<lparr>wd_env = live_env X F order,
      wd_stopping = on_live False (\<lambda>l. Some (live_stopping X l)),
      wd_resync_wanted = on_live False (\<lambda>l. Some (live_resync_wanted X l)),
      wd_wait = (\<lambda>millis. on_live (Inl Custom) (\<lambda>l. Some (live_wait X millis l))),
      wd_recv_events = on_live (Inl Custom) (on_mon (recv_events (ox_mon X))),
      wd_pause = (\<lambda>wait L. case L of None \<Rightarrow> None | Some l \<Rightarrow> start_pause X wait l),
      wd_read_topology = on_live (Inl Custom) (live_read_topology X)\<rparr>"

section \<open>Processes and plain files\<close>

text \<open>
  What \<open>main\<close> asks of the system by path: whether a directory is there, a file's text, a file put
  or removed, a directory made with mode 700 where it is missing, a directory's mode and changing it
  to 700, a signal sent to a process, and this process's number.
\<close>

record 'w procs =
  pr_is_dir :: "string \<Rightarrow> 'w \<Rightarrow> bool \<times> 'w"
  pr_read :: "string \<Rightarrow> 'w \<Rightarrow> (io_error + string) \<times> 'w"
  pr_write :: "string \<Rightarrow> string \<Rightarrow> 'w \<Rightarrow> io_error option \<times> 'w"
  pr_remove :: "string \<Rightarrow> 'w \<Rightarrow> io_error option \<times> 'w"
  pr_make_dir :: "string \<Rightarrow> 'w \<Rightarrow> io_error option \<times> 'w"
  pr_mode :: "string \<Rightarrow> 'w \<Rightarrow> (io_error + u32) \<times> 'w"
  pr_narrow :: "string \<Rightarrow> 'w \<Rightarrow> io_error option \<times> 'w"
  pr_kill :: "int \<Rightarrow> signal \<Rightarrow> 'w \<Rightarrow> io_error option \<times> 'w"
  pr_pid :: nat

definition CONF :: string where "CONF = ''/etc/sriov-mac-sync.conf''"

definition state_dir :: "'w procs \<Rightarrow> 'w \<Rightarrow> string \<times> 'w" where
  "state_dir P w =
     (case pr_is_dir P ''/run'' w of
        (there, w) \<Rightarrow> (if there then ''/run/sriov-mac-sync'' else ''/var/run/sriov-mac-sync'', w))"

text \<open>\<open>ensure_state_dir\<close>: only a directory others may write is narrowed.\<close>

definition others_may_write :: "u32 \<Rightarrow> bool" where
  "others_may_write mode \<longleftrightarrow> (mode AND 0x1ff) AND 0x12 \<noteq> 0"

definition ensure_state_dir :: "'w procs \<Rightarrow> string \<Rightarrow> 'w \<Rightarrow> io_error option \<times> 'w" where
  "ensure_state_dir P dir w =
     (case pr_make_dir P dir w of
        (Some e, w) \<Rightarrow> (Some e, w)
      | (None, w) \<Rightarrow>
          (case pr_mode P dir w of
             (Inl e, w) \<Rightarrow> (Some e, w)
           | (Inr mode, w) \<Rightarrow>
               (None, if others_may_write mode then snd (pr_narrow P dir w) else w)))"

text \<open>\<open>str::parse::<i32>\<close> and \<open>format!\<close> of one.\<close>

definition parse_i32 :: "string \<Rightarrow> int option" where
  "parse_i32 s =
     (case s of
        [] \<Rightarrow> None
      | c # cs \<Rightarrow>
          if c = CHR ''-'' then
            (if cs = [] then None
             else case digits_val 0 cs of
                    None \<Rightarrow> None
                  | Some n \<Rightarrow> if n \<le> 2 ^ 31 then Some (- int n) else None)
          else map_option int (parse_uint 31 s))"

definition show_int :: "int \<Rightarrow> string" where
  "show_int i = (if i < 0 then CHR ''-'' # show_nat (nat (- i)) else show_nat (nat i))"

section \<open>Asking the daemon\<close>

datatype resync_error =
    NoDaemon io_error
  | NotAPid string
  | StalePid int
  | CannotSignal int io_error

definition comm_path :: "int \<Rightarrow> string" where
  "comm_path pid = ''/proc/'' @ show_int pid @ ''/comm''"

text \<open>\<open>resync\<close>: the pid file is believed only where the process of that number is ours.\<close>

definition resync :: "'w procs \<Rightarrow> 'w \<Rightarrow> (resync_error + bool) \<times> 'w" where
  "resync P w =
     (let (dir, w) = state_dir P w in
      case pr_read P (dir @ ''/pid'') w of
        (Inl e, w) \<Rightarrow> (Inl (NoDaemon e), w)
      | (Inr text, w) \<Rightarrow>
          (case parse_i32 (trim text) of
             None \<Rightarrow> (Inl (NotAPid text), w)
           | Some pid \<Rightarrow>
               (case pr_read P (comm_path pid) w of
                  (r, w) \<Rightarrow>
                    if trim (case r of Inl _ \<Rightarrow> [] | Inr c \<Rightarrow> c) \<noteq> ''sriov-mac-sync''
                    then (Inl (StalePid pid), w)
                    else (case pr_kill P pid SIGHUP w of
                            (Some e, w) \<Rightarrow> (Inl (CannotSignal pid e), w)
                          | (None, w) \<Rightarrow> (Inr True, w)))))"

section \<open>The daemon's own mode\<close>

record 'w machine =
  mc_sys :: "'w sys"
  mc_outside :: "'w outside"
  mc_procs :: "'w procs"
  mc_pipe :: bool
  mc_sigaction :: "signal \<Rightarrow> bool"
  mc_fs :: fs
  mc_order :: "mac set \<Rightarrow> mac list"

abbreviation mc_world :: "'w machine \<Rightarrow> 'w life world" where
  "mc_world M \<equiv> live_world (mc_outside M) (mc_fs M) (mc_order M)"

text \<open>
  \<open>run_daemon\<close>: signals, the pid for \<open>--resync\<close>, the loop, and the pid gone again; how many addresses
  are left registered, on purpose. \<open>None\<close> where the loop never ends or a call in it hangs.
\<close>

definition leave_pid :: "'w machine \<Rightarrow> 'w \<Rightarrow> string \<times> 'w" where
  "leave_pid M w =
     (let (dir, w) = state_dir (mc_procs M) w;
          (_, w) = ensure_state_dir (mc_procs M) dir w;
          (_, w) = pr_write (mc_procs M) (dir @ ''/pid'') (show_nat (pr_pid (mc_procs M)) @ [NL]) w
      in (dir @ ''/pid'', w))"

definition run_daemon ::
    "'w machine \<Rightarrow> options \<Rightarrow> syncer \<Rightarrow> 'w live \<Rightarrow> (nat \<times> store \<times> 'w) option" where
  "run_daemon M opts S l =
     (let l = l\<lparr>lv_flags := catch_signals (mc_pipe M) (mc_sigaction M) (lv_flags l)\<rparr>;
          (pid_path, w) = leave_pid M (lv_out l);
          S = S\<lparr>sy_orphan_grace := 60 * SECOND\<rparr>
      in do {
        L \<leftarrow> daemon_loop (mc_world M) opts (start_loop (mc_world M) S (Some (l\<lparr>lv_out := w\<rparr>)));
        l \<leftarrow> lp_world L;
        let s = sy_store (lp_syncer L);
            (_, w) = pr_remove (mc_procs M) pid_path (lv_out l);
            (held, s) = registered (mc_fs M) s (noted_devices_or_none (mc_fs M) s)
        in Some (held, s, w)
      })"

section \<open>The whole program\<close>

datatype failure_reason =
    UsageRefused usage_error
  | ResyncRefused resync_error
  | NoSocket io_error
  | NoSubscription io_error
  | NoTopology io_error
  | ModeRefused refusal

text \<open>Once the sockets are open: the picture, and the mode it is read for.\<close>

definition run_on ::
    "'w machine \<Rightarrow> options \<Rightarrow> disk \<Rightarrow> 'w live \<Rightarrow> ((failure_reason + bool) \<times> store option \<times> 'w) option" where
  "run_on M opts d l =
     do {
       (r, l) \<leftarrow> live_read_topology (mc_outside M) l;
       case r of
         Inl e \<Rightarrow> Some (Inl (NoTopology e), None, lv_out l)
       | Inr T \<Rightarrow>
           if o_mode opts = Daemon_Mode then
             (case resolve_pairs T opts of
                Inl e \<Rightarrow> Some (Inl (UsageRefused e), None, lv_out l)
              | Inr pairs \<Rightarrow>
                  map_option (\<lambda>(held, s, w). (Inr True, Some s, w))
                    (run_daemon M opts (with_lists opts (prepared opts pairs d)) l))
           else
             (case ox_sysfs (mc_outside M) (lv_out l) of (sy, w) \<Rightarrow>
                case run_modes (live_env (mc_outside M) (mc_fs M) (mc_order M)) sy (lv_facts l) T opts d
                       (Some (l\<lparr>lv_out := w\<rparr>)) of
                  (r, s, L) \<Rightarrow>
                    do { l \<leftarrow> L; Some (case r of Inl e \<Rightarrow> Inl (ModeRefused e) | Inr ok \<Rightarrow> Inr ok, s, lv_out l) })
     }"

text \<open>
  \<open>run\<close>: the configuration, the command line, \<open>--resync\<close> before any socket is opened, and for the
  daemon the subscription before the interfaces are read.
\<close>

definition run ::
    "'w machine \<Rightarrow> string list \<Rightarrow> disk \<Rightarrow> 'w \<Rightarrow> ((failure_reason + bool) \<times> store option \<times> 'w) option" where
  "run M args d w =
     (case pr_read (mc_procs M) CONF w of (conf, w) \<Rightarrow>
        case parse_args_from False (load_conf conf default_options) args of
          Refused e \<Rightarrow> Some (Inl (UsageRefused e), None, w)
        | Shown \<Rightarrow> Some (Inr True, None, w)
        | Parsed opts \<Rightarrow>
            if o_mode opts = Resync_Mode then
              (case resync (mc_procs M) w of
                 (r, w) \<Rightarrow> Some (case r of Inl e \<Rightarrow> Inl (ResyncRefused e) | Inr ok \<Rightarrow> Inr ok, None, w))
            else
              (case new_socket (mc_sys M) w of
                 (Inl e, w) \<Rightarrow> Some (Inl (NoSocket e), None, w)
               | (Inr (_, cmd), w) \<Rightarrow>
                   (case (if o_mode opts = Daemon_Mode then subscribed (mc_sys M) w else (Inr (0, new_sock), w)) of
                      (Inl e, w) \<Rightarrow> Some (Inl (NoSubscription e), None, w)
                    | (Inr (_, mon), w) \<Rightarrow>
                        run_on M opts d
                          \<lparr>lv_sock = cmd, lv_mon = mon, lv_flags = no_flags, lv_facts = Map.empty, lv_out = w\<rparr>)))"

text \<open>\<open>main\<close>: success is a run that ended well.\<close>

definition exit_code :: "failure_reason + bool \<Rightarrow> nat" where
  "exit_code r = (if r = Inr True then 0 else 1)"

end
