(* ===== verification/Live_Laws.thy ===== *)
theory Live_Laws
  imports Live Daemon_Laws
begin

text \<open>
  Laws of the program around its loop: a signal that lands while the loop is on its way to sleep
  is never slept through, the brake of the error path ends, a pid file is believed only where the
  process is ours, and the limits an operator writes down stay within their range.
\<close>

section \<open>Flags\<close>

lemma note_signal_simps [simp]:
  "fl_stopping (note_signal sg f) \<longleftrightarrow> sg \<noteq> SIGHUP \<or> fl_stopping f"
  "fl_resync (note_signal sg f) \<longleftrightarrow> sg = SIGHUP \<or> fl_resync f"
  "fl_pipe (note_signal sg f) = map_option (\<lambda>_. True) (fl_pipe f)"
  by (auto simp: note_signal_def Let_def)

lemma deliver_stopping [simp]:
  "fl_stopping (deliver sgs f) \<longleftrightarrow> (\<exists>sg\<in>set sgs. sg \<noteq> SIGHUP) \<or> fl_stopping f"
  by (induction sgs arbitrary: f) (auto simp: deliver_def)

lemma deliver_resync [simp]: "fl_resync (deliver sgs f) \<longleftrightarrow> SIGHUP \<in> set sgs \<or> fl_resync f"
  by (induction sgs arbitrary: f) (auto simp: deliver_def)

lemma deliver_pipe [simp]:
  "fl_pipe (deliver sgs f) = (if sgs = [] then fl_pipe f else map_option (\<lambda>_. True) (fl_pipe f))"
  by (induction sgs arbitrary: f) (auto simp: deliver_def option.map_comp comp_def)

text \<open>What a stretch of the live world may do to the flags: a stop is never taken back.\<close>

definition keeps_stop :: "'w live \<Rightarrow> 'w live \<Rightarrow> bool" where
  "keeps_stop l l' \<longleftrightarrow> (fl_stopping (lv_flags l) \<longrightarrow> fl_stopping (lv_flags l'))"

lemma keeps_stop_refl [intro, simp]: "keeps_stop l l" by (simp add: keeps_stop_def)

lemma keeps_stop_trans [trans]: "keeps_stop l m \<Longrightarrow> keeps_stop m n \<Longrightarrow> keeps_stop l n"
  by (simp add: keeps_stop_def)

lemma hear_keeps_stop [intro, simp]: "keeps_stop l (hear X l)"
  by (simp add: keeps_stop_def hear_def split: prod.split)

lemma keeps_stop_cong: "lv_flags l' = lv_flags l \<Longrightarrow> keeps_stop l l'"
  by (simp add: keeps_stop_def)

lemma live_wait_keeps_stop: "keeps_stop l (snd (live_wait X millis l))"
  by (simp add: keeps_stop_def live_wait_def sock_wait_def hear_def Let_def split: prod.split sum.split option.split)

lemma live_pause_keeps_stop:
  "live_pause X deadline l = Some l' \<Longrightarrow> keeps_stop l l'"
proof (induction X deadline l l' rule: live_pause.raw_induct [rotated, consumes 1, case_names 1])
  case (1 rec X deadline l l')
  obtain now w where now: "os_now (ox_cmd X) (lv_out l) = (now, w)" by fastforce
  define m where "m = hear X (l\<lparr>lv_out := w\<rparr>)"
  have m: "keeps_stop l m"
    using keeps_stop_trans [OF keeps_stop_cong [of "l\<lparr>lv_out := w\<rparr>" l] hear_keeps_stop] by (simp add: m_def)
  have step: "keeps_stop m l'" if "rec X deadline n = Some l'" "keeps_stop m n" for n
    using keeps_stop_trans [OF that(2) 1(1) [OF that(1)]] .
  have "keeps_stop m l'"
    using 1(2) step unfolding now Let_def m_def [symmetric] prod.case
    by (auto simp: keeps_stop_def split: if_splits option.splits prod.splits)
  with m show ?case by (rule keeps_stop_trans)
qed

lemma start_pause_keeps_stop: "start_pause X d l = Some l' \<Longrightarrow> keeps_stop l l'"
  using live_pause_keeps_stop [of X _ "l\<lparr>lv_out := _\<rparr>" l'] by (auto simp: start_pause_def keeps_stop_def split: prod.splits)

section \<open>Waiting\<close>

text \<open>A signal that lands once the flags were looked at, and before the wait begins.\<close>

definition alarmed :: "flags \<Rightarrow> bool" where
  "alarmed f \<longleftrightarrow> fl_stopping f \<and> fl_pipe f = Some True"

lemma alarmed_deliver: "alarmed f \<Longrightarrow> alarmed (deliver sgs f)"
  by (simp add: alarmed_def)

lemma landed_alarms:
  "sg \<in> set sgs \<Longrightarrow> sg \<noteq> SIGHUP \<Longrightarrow> fl_pipe f \<noteq> None \<Longrightarrow> alarmed (deliver sgs f)"
  by (cases sgs) (auto simp: alarmed_def)

lemma alarmed_wait:
  assumes "alarmed (lv_flags l)"
  shows "fst (live_wait X millis l) \<noteq> Inr True \<and> fl_stopping (lv_flags (snd (live_wait X millis l)))"
proof -
  obtain sgs w where h: "ox_signals X (lv_out l) = (sgs, w)" by fastforce
  define m where "m = hear X l"
  have m: "alarmed (lv_flags m)" using assms h by (simp add: m_def hear_def alarmed_deliver)
  then have pipe: "fl_pipe (lv_flags m) = Some True" by (simp add: alarmed_def)
  obtain r sgs' w' where p: "ox_poll X (max millis (-1)) (Some True) (lv_out m) = (r, sgs', w')"
    by (meson prod_cases3)
  have "alarmed (deliver sgs' (lv_flags m))" using m by (rule alarmed_deliver)
  then show ?thesis
    unfolding live_wait_def Let_def m_def [symmetric] pipe option.case p
    by (auto simp: alarmed_def interrupted_def split: sum.split)
qed

lemma live_world_stopping:
  "fl_stopping (lv_flags l) \<Longrightarrow> fst (wd_stopping (live_world X F order) (Some l))"
  by (simp add: live_world_def on_live_def live_stopping_def Let_def hear_def split: prod.split)

lemma live_world_now:
  obtains t w where "wd_now (live_world X F order) (Some l) = (t, Some (l\<lparr>lv_out := w\<rparr>))"
  by (cases "os_now (ox_cmd X) (lv_out l)")
     (auto simp: live_world_def live_env_def live_writer_def on_live_def on_out_def)

lemma live_world_hung: "wd_now (live_world X F order) None = (0, None)"
  by (simp add: live_world_def live_env_def live_writer_def on_live_def)

text \<open>The turn's wait with the alarm raised: nothing is read from the subscription.\<close>

lemma alarmed_take_wait:
  fixes X :: "'w outside" and F :: fs and order :: "mac set \<Rightarrow> mac list"
  assumes "lp_world L = Some l" "alarmed (lv_flags l)"
  defines "W \<equiv> live_world X F order"
  shows "lp_world (take_wait W L) = None \<or> fst (wd_stopping W (lp_world (take_wait W L)))"
    and "lp_latest (take_wait W L) = lp_latest L"
    and "sy_store (lp_syncer (take_wait W L)) = sy_store (lp_syncer L)"
proof -
  obtain t w where now: "wd_now W (lp_world L) = (t, Some (l\<lparr>lv_out := w\<rparr>))"
    using live_world_now [of X F order l] unfolding W_def assms(1) by blast
  define ms where "ms = poll_millis (wait_for (lp_schedule L) t)"
  obtain r l1 where lw: "live_wait X ms (l\<lparr>lv_out := w\<rparr>) = (r, l1)" by fastforce
  have r: "r \<noteq> Inr True" "fl_stopping (lv_flags l1)"
    using alarmed_wait [of "l\<lparr>lv_out := w\<rparr>" X ms] assms(2) lw by simp_all
  have wait: "wd_wait W ms (Some (l\<lparr>lv_out := w\<rparr>)) = (r, Some l1)"
    using lw by (simp add: W_def live_world_def on_live_def)
  have stop: "M = None \<or> fst (wd_stopping W M)"
    if "M = Some l2 \<and> fl_stopping (lv_flags l2) \<or> M = None" for M l2
    using that live_world_stopping [of l2 X F order] by (auto simp: W_def)
  have goals: "(lp_world (take_wait W L) = None \<or> fst (wd_stopping W (lp_world (take_wait W L))))
    \<and> lp_latest (take_wait W L) = lp_latest L
    \<and> sy_store (lp_syncer (take_wait W L)) = sy_store (lp_syncer L)"
  proof (cases r)
    case (Inr woken)
    then have "take_wait W L = (L\<lparr>lp_wait_failures := 0\<rparr>)\<lparr>lp_world := Some l1\<rparr>"
      using r(1) by (simp add: take_wait_def now ms_def [symmetric] wait)
    then show ?thesis using live_world_stopping [OF r(2), of X F order] by (simp add: W_def)
  next
    case (Inl e)
    define P where "P = (if 0 < lp_wait_failures L then wd_pause W RETRY_AFTER (Some l1) else Some l1)"
    have P: "P = None \<or> (\<exists>l2. P = Some l2 \<and> fl_stopping (lv_flags l2))"
      using r(2) start_pause_keeps_stop [of X RETRY_AFTER l1]
      by (cases "start_pause X RETRY_AFTER l1") (auto simp: P_def W_def live_world_def keeps_stop_def)
    obtain t2 Q where Q: "wd_now W P = (t2, Q)" by fastforce
    have "Q = None \<or> (\<exists>l2. Q = Some l2 \<and> fl_stopping (lv_flags l2))"
      using P
    proof
      assume "P = None"
      then show ?thesis using Q live_world_hung [of X F order] by (simp add: W_def)
    next
      assume "\<exists>l2. P = Some l2 \<and> fl_stopping (lv_flags l2)"
      then obtain l2 where l2: "P = Some l2" "fl_stopping (lv_flags l2)" by blast
      obtain u v where "wd_now W P = (u, Some (l2\<lparr>lv_out := v\<rparr>))"
        using live_world_now [of X F order l2] unfolding W_def l2(1) by blast
      then show ?thesis using Q l2(2) by simp
    qed
    moreover have "lp_world (take_wait W L) = Q" "lp_latest (take_wait W L) = lp_latest L"
      "sy_store (lp_syncer (take_wait W L)) = sy_store (lp_syncer L)"
      using Q unfolding take_wait_def now
      by (simp_all add: ms_def [symmetric] wait Inl P_def [symmetric] distrust_def)
    ultimately show ?thesis using stop by blast
  qed
  then show "lp_world (take_wait W L) = None \<or> fst (wd_stopping W (lp_world (take_wait W L)))"
    "lp_latest (take_wait W L) = lp_latest L"
    "sy_store (lp_syncer (take_wait W L)) = sy_store (lp_syncer L)" by blast+
qed

section \<open>The brake\<close>

text \<open>What the brake relies on: reading the clock moves it on, nothing turns it back, sleep sleeps.\<close>

definition brake_law :: "'w outside \<Rightarrow> ('w \<Rightarrow> nat) \<Rightarrow> bool" where
  "brake_law X clock \<longleftrightarrow>
     (\<forall>w. clock w \<le> fst (os_now (ox_cmd X) w) \<and> fst (os_now (ox_cmd X) w) < clock (snd (os_now (ox_cmd X) w)))
     \<and> (\<forall>w. clock w \<le> clock (snd (ox_signals X w)))
     \<and> (\<forall>n b w. clock w \<le> clock (snd (snd (ox_poll_stop X n b w))))
     \<and> (\<forall>d w. clock w + d \<le> clock (ox_sleep X d w))"

lemma brake_lawD:
  assumes "brake_law X clock"
  shows "os_now (ox_cmd X) w = (t, w') \<Longrightarrow> clock w \<le> t \<and> t < clock w'"
    "clock (lv_out l) \<le> clock (lv_out (hear X l))"
    "ox_poll_stop X n b w = (r, sgs, w') \<Longrightarrow> clock w \<le> clock w'"
    "clock w + d \<le> clock (ox_sleep X d w)"
proof -
  show "os_now (ox_cmd X) w = (t, w') \<Longrightarrow> clock w \<le> t \<and> t < clock w'"
    "ox_poll_stop X n b w = (r, sgs, w') \<Longrightarrow> clock w \<le> clock w'"
    "clock w + d \<le> clock (ox_sleep X d w)"
    using assms unfolding brake_law_def by (metis fst_conv snd_conv)+
  show "clock (lv_out l) \<le> clock (lv_out (hear X l))"
    using assms unfolding brake_law_def
    by (cases "ox_signals X (lv_out l)") (simp add: hear_def, metis snd_conv)
qed

definition braked :: "('w \<Rightarrow> nat) \<Rightarrow> nat \<Rightarrow> 'w live \<Rightarrow> bool" where
  "braked clock deadline l \<longleftrightarrow> deadline \<le> clock (lv_out l) \<or> fl_stopping (lv_flags l)"

lemma live_pause_ends:
  assumes "brake_law X clock"
  shows "\<exists>l'. live_pause X deadline l = Some l' \<and> braked clock deadline l'"
proof (induction "deadline - clock (lv_out l)" arbitrary: l rule: less_induct)
  case less
  obtain now w where now: "os_now (ox_cmd X) (lv_out l) = (now, w)" by fastforce
  define m where "m = hear X (l\<lparr>lv_out := w\<rparr>)"
  have m: "clock (lv_out l) \<le> now" "now < clock (lv_out m)"
    using brake_lawD(1) [OF assms now] brake_lawD(2) [OF assms, of "l\<lparr>lv_out := w\<rparr>"] by (simp_all add: m_def)
  note unfold = live_pause.simps [of X deadline l, unfolded now Let_def prod.case m_def [symmetric]]
  show ?case
  proof (cases "deadline - now = 0")
    case True
    then show ?thesis using m unfold by (simp add: braked_def)
  next
    case left: False
    have again: "\<exists>l'. live_pause X deadline n = Some l' \<and> braked clock deadline l'"
      if "clock (lv_out m) \<le> clock (lv_out n)" for n
      by (rule less) (use that m left in linarith)
    have slept: "braked clock deadline (n\<lparr>lv_out := ox_sleep X (deadline - now) v\<rparr>)"
      if "clock (lv_out m) \<le> clock v" for n v
    proof -
      have "deadline \<le> clock (ox_sleep X (deadline - now) v)"
        using brake_lawD(4) [OF assms, of v "deadline - now"] that m by linarith
      then show ?thesis by (simp add: braked_def)
    qed
    show ?thesis
    proof (cases "fl_pipe (lv_flags m)")
      case None
      then show ?thesis using unfold left slept [of "lv_out m" m] by simp
    next
      case (Some readable)
      obtain r sgs v where p:
        "ox_poll_stop X (min ((deadline - now) div 1000000) (2 ^ 31 - 1)) readable (lv_out m) = (r, sgs, v)"
        by (meson prod_cases3)
      note v = brake_lawD(3) [OF assms p]
      note unfold = unfold [unfolded Some option.case p prod.case]
      show ?thesis
      proof (cases r)
        case (Some e)
        then show ?thesis using unfold left v slept [of v "m\<lparr>lv_flags := deliver sgs (lv_flags m), lv_out := v\<rparr>"]
            again [of "m\<lparr>lv_flags := deliver sgs (lv_flags m), lv_out := v\<rparr>"] by simp
      next
        case None
        define f where "f = deliver sgs (lv_flags m)"
        show ?thesis
          using unfold [unfolded None option.case f_def [symmetric]] left v
            again [of "m\<lparr>lv_flags := f\<lparr>fl_pipe := Some False\<rparr>, lv_out := v\<rparr>"] again [of "m\<lparr>lv_flags := f, lv_out := v\<rparr>"]
          by (cases "fl_pipe f = Some True"; cases "fl_stopping f") (simp_all add: braked_def)
      qed
    qed
  qed
qed

section \<open>What an operator may write down\<close>

definition within_limits :: "options \<Rightarrow> bool" where
  "within_limits opts \<longleftrightarrow>
     0 < o_max_macs opts \<and> o_max_macs opts \<le> MAX_OF_MAX
     \<and> (o_max_macs_set opts \<or> o_max_macs opts = DEFAULT_MAX_MACS)"

lemma within_default: "within_limits default_options"
  by (simp add: within_limits_def default_options_def MAX_OF_MAX_def)

lemma within_read_conf_line: "within_limits opts \<Longrightarrow> within_limits (read_conf_line opts l)"
  by (auto simp: read_conf_line_def apply_setting_def clamp_max_macs_def within_limits_def Let_def
      split: option.split sum.split)

lemma within_load_conf: "within_limits opts \<Longrightarrow> within_limits (load_conf r opts)"
proof -
  assume w: "within_limits opts"
  have "within_limits (foldl read_conf_line opts ls)" for ls
    using w by (induction ls arbitrary: opts) (simp_all add: within_read_conf_line)
  with w show ?thesis by (simp add: load_conf_def read_conf_def split: sum.split)
qed

lemma within_valued: "within_limits opts \<Longrightarrow> apply_valued a v cli opts = Inr opts' \<Longrightarrow> within_limits opts'"
  by (auto simp: apply_valued_def clamp_max_macs_def within_limits_def split: if_splits option.splits sum.splits)

lemma within_parse_args:
  "parse_args_from cli opts args = Parsed opts' \<Longrightarrow> within_limits opts \<Longrightarrow> within_limits opts'"
proof (induction cli opts args rule: parse_args_from.induct)
  case (2 cli opts a args)
  have flag: "within_limits (opts\<lparr>o_mode := m\<rparr>)" "within_limits (opts\<lparr>o_dry_run := True\<rparr>)"
    "within_limits (opts\<lparr>o_timings := True\<rparr>)" for m
    using 2(6) by (simp_all add: within_limits_def)
  show ?case
    using 2(5,6) 2(1-4) flag
    by (auto simp: set_mode_def split: option.splits if_splits sum.splits list.splits intro: within_valued)
qed simp

section \<open>Worlds to look at\<close>

text \<open>A machine on which nothing happens but the clock, counted by \<open>nat\<close>.\<close>

definition calm_os :: "nat os" where
  "calm_os = \<lparr>os_send = (\<lambda>bs w. (Inr (length bs), w)), os_recvfrom = (\<lambda>nowait w. (arrival.Refused EAGAIN, w)),
              os_now = (\<lambda>w. (w, Suc w))\<rparr>"

definition bare_sysfs :: sysfs where
  "bare_sysfs = \<lparr>sy_device_dir = (\<lambda>_. False), sy_ifindex = (\<lambda>_. None), sy_ifindex_after = (\<lambda>_. None),
               sy_numvfs = (\<lambda>_. None),
               sy_facts = (\<lambda>_. \<lparr>df_driver = None, df_pf_netdevs = [], df_is_vf = False, df_vf_number = None\<rparr>)\<rparr>"

definition calm_outside :: "nat outside" where
  "calm_outside =
     \<lparr>ox_cmd = calm_os, ox_mon = calm_os, ox_signals = (\<lambda>w. ([], w)),
      ox_poll = (\<lambda>ms pipe w. (Inr False, [], w)), ox_poll_stop = (\<lambda>ms pipe w. (None, [], w)),
      ox_sleep = (\<lambda>d w. w + d), ox_boot_millis = (\<lambda>w. (w div 1000000, w)), ox_sysfs = (\<lambda>w. (bare_sysfs, w))\<rparr>"

definition calm_fs :: fs where
  "calm_fs = \<lparr>fs_read = (\<lambda>_. True), fs_put = (\<lambda>_. True), fs_append = (\<lambda>_. AppendOk),
              fs_lock = (\<lambda>_. True), fs_list = True\<rparr>"

definition calm_live :: "flags \<Rightarrow> nat live" where
  "calm_live f = \<lparr>lv_sock = new_sock, lv_mon = new_sock, lv_flags = f, lv_facts = Map.empty, lv_out = 7\<rparr>"

definition calm_loop :: "flags \<Rightarrow> nat life loop" where
  "calm_loop f =
     \<lparr>lp_schedule = new_schedule 3, lp_latest = None, lp_wait_failures = 0,
      lp_marks = \<lparr>lm_said_empty = False, lm_said_cards = {}\<rparr>,
      lp_syncer = new_syncer [] \<lparr>dk_files = [], dk_next_ino = 1, dk_clock = 0, dk_now = 1\<rparr>,
      lp_world = Some (calm_live f)\<rparr>"

definition piped :: flags where
  "piped = \<lparr>fl_stopping = False, fl_resync = False, fl_pipe = Some False, fl_caught = [SIGTERM, SIGINT, SIGHUP]\<rparr>"

lemma calm_brake: "brake_law calm_outside (\<lambda>w. w)"
  by (simp add: brake_law_def calm_outside_def calm_os_def)

text \<open>A host whose daemon runs as process 42; the world is the list of signals sent.\<close>

definition host_of_42 :: "(int \<times> signal) list procs" where
  "host_of_42 =
     \<lparr>pr_is_dir = (\<lambda>p w. (p = ''/run'', w)),
      pr_read = (\<lambda>p w. (if p = ''/run/sriov-mac-sync/pid'' then Inr (''42'' @ [NL])
                        else if p = ''/proc/42/comm'' then Inr (''sriov-mac-sync'' @ [NL])
                        else Inl ENOENT, w)),
      pr_write = (\<lambda>p t w. (None, w)), pr_remove = (\<lambda>p w. (None, w)), pr_make_dir = (\<lambda>p w. (None, w)),
      pr_mode = (\<lambda>p w. (Inr 0x1c0, w)), pr_narrow = (\<lambda>p w. (None, w)),
      pr_kill = (\<lambda>i s w. (None, (i, s) # w)), pr_pid = 42\<rparr>"

lemma no_such_comm: "pid \<le> 0 \<Longrightarrow> comm_path pid \<noteq> ''/proc/42/comm''"
  by (cases "pid = 0") (auto simp: comm_path_def show_int_def show_nat.simps digit_char_def)

lemma comm_no_pid: "comm_path pid \<noteq> ''/run/sriov-mac-sync/pid''"
  by (simp add: comm_path_def)

section \<open>Properties\<close>



text \<open>C21: The brake of the error path always ends. It comes back, at the deadline or later, or because the
  daemon is to stop; a SIGHUP, an interrupted or a failing \<open>poll\<close> does not cut it short.\<close>

theorem the_brake_ends:
  assumes "brake_law X clock"
  shows "\<exists>l'. start_pause X d l = Some l'
    \<and> (clock (lv_out l) + d \<le> clock (lv_out l') \<or> fl_stopping (lv_flags l'))"
proof -
  obtain now w where now: "os_now (ox_cmd X) (lv_out l) = (now, w)" by fastforce
  obtain l' where "live_pause X (now + d) (l\<lparr>lv_out := w\<rparr>) = Some l'" "braked clock (now + d) l'"
    using live_pause_ends [OF assms] by blast
  then show ?thesis using brake_lawD(1) [OF assms now] now by (auto simp: start_pause_def braked_def)
qed

theorem the_brake_ends_witness:
  "\<exists>l'. start_pause calm_outside RETRY_AFTER (calm_live (deliver [SIGHUP] piped)) = Some l'
    \<and> (7 + RETRY_AFTER \<le> lv_out l' \<or> fl_stopping (lv_flags l'))"
  using the_brake_ends [OF calm_brake, of RETRY_AFTER "calm_live (deliver [SIGHUP] piped)"]
  by (simp add: calm_live_def)

text \<open>C20: \<open>--resync\<close> never signals a stranger. Whatever is in the pid file, at most one signal is sent: a
  SIGHUP, to a single process and never to a group or to everyone, and only after that process's name was
  read to be this program's; and it reports success only if it sent one. Relied on: reading sends nothing,
  and \<open>/proc\<close> has no entry for a number that is not positive.\<close>

theorem a_stranger_is_never_signalled:
  assumes "\<And>p v. sent (snd (pr_read P p v)) = sent v" and "\<And>p v. sent (snd (pr_is_dir P p v)) = sent v"
    and "\<And>i s v. sent (snd (pr_kill P i s v)) = (i, s) # sent v"
    and "\<And>i v. i \<le> 0 \<Longrightarrow> \<exists>e. fst (pr_read P (comm_path i) v) = Inl e"
  shows "sent (snd (resync P w)) = sent w \<and> fst (resync P w) \<noteq> Inr True
    \<or> (\<exists>pid v comm. sent (snd (resync P w)) = (pid, SIGHUP) # sent w \<and> 0 < pid
        \<and> fst (pr_read P (comm_path pid) v) = Inr comm \<and> trim comm = ''sriov-mac-sync'')"
proof -
  obtain b w1 where d: "pr_is_dir P ''/run'' w = (b, w1)" by fastforce
  define dir where "dir = fst (state_dir P w)"
  have sd: "state_dir P w = (dir, w1)" by (simp add: dir_def state_dir_def d)
  obtain r w2 where f: "pr_read P (dir @ ''/pid'') w1 = (r, w2)" by fastforce
  have s2: "sent w2 = sent w"
    using assms(1) [of "dir @ ''/pid''" w1] assms(2) [of "''/run''" w] d f by simp
  show ?thesis
  proof (cases "\<exists>t pid. r = Inr t \<and> parse_i32 (trim t) = Some pid")
    case False
    then show ?thesis by (auto simp: resync_def sd f s2 split: sum.split option.split)
  next
    case True
    then obtain t pid where pid: "r = Inr t" "parse_i32 (trim t) = Some pid" by blast
    obtain c w3 where c: "pr_read P (comm_path pid) w2 = (c, w3)" by fastforce
    have s3: "sent w3 = sent w" using assms(1) [of "comm_path pid" w2] c s2 by simp
    obtain k w4 where k: "pr_kill P pid SIGHUP w3 = (k, w4)" by fastforce
    have s4: "sent w4 = (pid, SIGHUP) # sent w" using assms(3) [of pid SIGHUP w3] k s3 by simp
    have trim_Nil: "trim [] \<noteq> ''sriov-mac-sync''" by (simp add: trim_def)
    show ?thesis
    proof (cases "\<exists>comm. c = Inr comm \<and> trim comm = ''sriov-mac-sync''")
      case False
      then show ?thesis using trim_Nil s3 by (auto simp: resync_def sd f pid c split: sum.split)
    next
      case True
      then obtain comm where comm: "c = Inr comm" "trim comm = ''sriov-mac-sync''" by blast
      have "0 < pid" using assms(4) [of pid w2] c comm(1) by (cases "pid \<le> 0") auto
      moreover have "snd (resync P w) = w4" by (simp add: resync_def sd f pid c comm k split: option.split)
      moreover have "fst (pr_read P (comm_path pid) w2) = Inr comm" using c comm(1) by simp
      ultimately show ?thesis using s4 comm(2) by metis
    qed
  qed
qed

theorem a_stranger_is_never_signalled_witness:
  "\<exists>pid. snd (resync host_of_42 []) = [(pid, SIGHUP)] \<and> 0 < pid"
proof -
  have "trim (''42'' @ [NL]) = ''42''" "trim (''sriov-mac-sync'' @ [NL]) = ''sriov-mac-sync''"
    by code_simp+
  moreover have "parse_i32 ''42'' = Some 42"
    by (simp add: parse_i32_def parse_uint_def digit_val_def)
  moreover have "comm_path 42 = ''/proc/42/comm''"
    by code_simp
  ultimately have "fst (resync host_of_42 []) = Inr True"
    by (simp add: resync_def state_dir_def host_of_42_def)
  moreover have "\<exists>e. fst (pr_read host_of_42 (comm_path i) v) = Inl e" if "i \<le> 0" for i v
    using no_such_comm [OF that] comm_no_pid [of i] by (simp add: host_of_42_def)
  ultimately show ?thesis
    using a_stranger_is_never_signalled [of "\<lambda>w. w" host_of_42 "[]"] by (auto simp: host_of_42_def)
qed



end
