(* ===== verification/Look_Laws.thy ===== *)
theory Look_Laws
  imports Program Sysfs Pass_Laws
begin

text \<open>
  Looking changes nothing. A run that is not to write, because it is \<open>--status\<close> or because
  \<open>--dry-run\<close> was given, leaves every card and the whole state directory as they were: no operation
  on its way reaches the kernel's one call that writes, or a file. The lemmas follow the composition
  of the pass, the sweep and the flush, one operation at a time.
\<close>

section \<open>What is looked at\<close>

text \<open>The kernel's calls but the one that writes keep \<open>P\<close> of the world.\<close>

definition questions_keep :: "'w writer \<Rightarrow> ('w \<Rightarrow> bool) \<Rightarrow> bool" where
  "questions_keep K P \<longleftrightarrow>
     (\<forall>w. P w \<longrightarrow> P (snd (k_dump_fdb K w))) \<and> (\<forall>w. P w \<longrightarrow> P (snd (k_dump_links K w)))
     \<and> (\<forall>is w. P w \<longrightarrow> P (snd (k_vf_macs_of K is w))) \<and> (\<forall>i w. P w \<longrightarrow> P (snd (k_vf_info_of K i w)))
     \<and> (\<forall>w. P w \<longrightarrow> P (snd (k_boot_millis K w))) \<and> (\<forall>w. P w \<longrightarrow> P (snd (k_instant K w)))"

lemma questions_keepD:
  assumes "questions_keep K P"
  shows "k_dump_fdb K w = (a, w') \<Longrightarrow> P w \<Longrightarrow> P w'" "k_dump_links K w = (b, w') \<Longrightarrow> P w \<Longrightarrow> P w'"
    "k_vf_macs_of K is w = (c, w') \<Longrightarrow> P w \<Longrightarrow> P w'" "k_vf_info_of K i w = (d, w') \<Longrightarrow> P w \<Longrightarrow> P w'"
    "k_boot_millis K w = (n, w') \<Longrightarrow> P w \<Longrightarrow> P w'" "k_instant K w = (n, w') \<Longrightarrow> P w \<Longrightarrow> P w'"
  using assms unfolding questions_keep_def by (metis snd_conv)+

text \<open>They leave alone what \<open>held\<close> sees of the world.\<close>

definition reads_only :: "'w writer \<Rightarrow> ('w \<Rightarrow> 'a) \<Rightarrow> bool" where
  "reads_only K held \<longleftrightarrow>
     (\<forall>w. held (snd (k_dump_fdb K w)) = held w) \<and> (\<forall>w. held (snd (k_dump_links K w)) = held w)
     \<and> (\<forall>is w. held (snd (k_vf_macs_of K is w)) = held w) \<and> (\<forall>i w. held (snd (k_vf_info_of K i w)) = held w)
     \<and> (\<forall>w. held (snd (k_boot_millis K w)) = held w) \<and> (\<forall>w. held (snd (k_instant K w)) = held w)"

lemma reads_only_keep: "reads_only K held \<Longrightarrow> questions_keep K (\<lambda>w. held w = x)"
  by (simp add: reads_only_def questions_keep_def)

definition looked :: "('w \<Rightarrow> bool) \<Rightarrow> syncer \<times> 'w \<Rightarrow> syncer \<times> 'w \<Rightarrow> bool" where
  "looked P x y \<longleftrightarrow>
     st_disk (sy_store (fst y)) = st_disk (sy_store (fst x))
     \<and> sy_dry_run (fst y) = sy_dry_run (fst x) \<and> (P (snd x) \<longrightarrow> P (snd y))"

lemma looked_refl [simp]: "looked P x x"
  by (simp add: looked_def)

lemma looked_trans [trans]: "looked P x y \<Longrightarrow> looked P y z \<Longrightarrow> looked P x z"
  by (simp add: looked_def)

lemma looked_iff:
  "looked P (S, w) (S', w') \<longleftrightarrow>
     st_disk (sy_store S') = st_disk (sy_store S) \<and> sy_dry_run S' = sy_dry_run S \<and> (P w \<longrightarrow> P w')"
  by (simp add: looked_def)

text \<open>Whether an operation is to write at all.\<close>

abbreviation idle_run :: "bool \<Rightarrow> syncer \<Rightarrow> bool" where
  "idle_run apply_it S \<equiv> \<not> apply_it \<or> sy_dry_run S"

lemma looked_passive: "looked P (S, w) (S', w') \<Longrightarrow> idle_run apply_it S' = idle_run apply_it S"
  by (simp add: looked_iff)

section \<open>Notes that are only read\<close>

lemma disk_basic [simp]:
  "st_disk (locked fs s dev) = st_disk s" "st_disk (drop_cached s dev) = st_disk s"
  "st_disk (remember s dev ms m) = st_disk s" "st_disk (snd (read_owned fs s dev)) = st_disk s"
  by (auto simp: locked_def drop_cached_def remember_def read_owned_def Let_def split: option.split prod.split)

lemma disk_load [simp]: "st_disk (snd (load_owned fs s dev)) = st_disk s"
  by (auto simp: load_owned_def with_owned_between_def Let_def case_prod_beta split: option.split)

lemma looked_simps [simp]:
  "looked P (S, w) (map_said f S, w)" "looked P (S, w) (say_reused dev S, w)"
  "looked P (S, w) (leave_carried dev crd n kept wire readable pass_at S, w)"
  by (simp_all add: looked_iff map_said_def say_reused_def leave_carried_def Let_def)

section \<open>The pass\<close>

lemma looked_settle:
  assumes "idle_run apply_it S" "settle_identity E T apply_it dev i S w = (go, S', w')"
  shows "looked P (S, w) (S', w')"
  using assms by (auto simp: settle_identity_def split: if_splits)

lemma looked_load_ports:
  assumes "questions_keep (e_kernel E) P" "load_ports E T dev S w = (S', w')"
  shows "looked P (S, w) (S', w')"
  using assms(2) questions_keepD(5) [OF assms(1)]
  by (auto simp: looked_iff load_ports_def Let_def split: if_splits prod.splits)

lemma looked_decide:
  assumes "questions_keep (e_kernel E) P"
    and "decide_wanted E T dev an pfs fdb ob present vf S w = (r, S', w')"
  shows "looked P (S, w) (S', w')"
  using assms(2) questions_keepD(3) [OF assms(1)]
  by (auto simp: looked_iff decide_wanted_def remember_vf_def Let_def split: if_splits prod.splits sum.splits)

lemma looked_add:
  assumes "idle_run apply_it S" "add_wanted E apply_it dev i ob present want S w = (oc, S', w')"
  shows "S' = S \<and> w' = w"
  using assms by (auto simp: add_wanted_def Let_def)

lemma looked_stale:
  assumes "idle_run apply_it S" "remove_stale E apply_it dev i want oc S w = (oc', S', w')"
  shows "S' = S \<and> w' = w"
  using assms by (auto simp: remove_stale_def Let_def)

lemma looked_merge: "idle_run apply_it S \<Longrightarrow> merge_note E apply_it dev before after S = S"
  by (auto simp: merge_note_def save_owned_merged_def)

lemma looked_follow:
  "idle_run apply_it S \<Longrightarrow> looked P (S, w) (follow_pass E T apply_it dev readable learnt owned pass_at S, w)"
  by (auto simp: follow_pass_def save_ports_def looked_iff Let_def)

lemma looked_finish:
  assumes "idle_run apply_it S" "finish_pair E T apply_it p dl an fdb pass_at ob readable d vfs S w = (rep, fails, S', w')"
  shows "looked P (S, w) (S', w')"
proof -
  let ?S1 = "map_said (note_unpinned (p_dev p) (sy_extra S) (w_want d))
    (map_said (warn_about_unknowable_vfs T (p_dev p) an vfs) S)"
  have S1: "looked P (S, w) (?S1, w)" by (rule looked_trans [OF looked_simps(1) looked_simps(1)])
  then have p1: "idle_run apply_it ?S1" using looked_passive [OF S1] assms(1) by simp
  let ?pr = "press_pair T (p_dev p) an fdb ob d S"
  obtain oc S2 w2 where a: "add_wanted E apply_it (p_dev p) (l_index dl) ob (self_list fdb (l_index dl)) (pr_want ?pr) ?S1 w
      = (oc, S2, w2)" by (meson prod_cases3)
  obtain oc' S3 w3 where r: "remove_stale E apply_it (p_dev p) (l_index dl) (pr_want ?pr) oc S2 w2 = (oc', S3, w3)"
    by (meson prod_cases3)
  have 2: "S2 = ?S1" "w2 = w" using looked_add [OF p1 a] by simp_all
  with p1 have "idle_run apply_it S2" by simp
  from looked_stale [OF this r] have 3: "S3 = ?S1" "w3 = w" using 2 by simp_all
  have merge: "merge_note E apply_it (p_dev p) ob (oc_owned oc') ?S1 = ?S1" by (rule looked_merge [OF p1])
  have S4: "looked P (?S1, w)
      (follow_pass E T apply_it (p_dev p) readable (w_learnt_at d) (oc_owned oc') pass_at
         (merge_note E apply_it (p_dev p) ob (oc_owned oc') S3), w3)"
    unfolding 3 merge by (rule looked_follow [OF p1])
  have "looked P (?S1, w) (leave_carried dev crd n kept wire rd pt (if apply_it then map_said f F else F), w3)"
    if "looked P (?S1, w) (F, w3)" for dev crd n kept wire rd pt f F
    using looked_trans [OF that looked_simps(3)] looked_trans [OF looked_trans [OF that looked_simps(1)] looked_simps(3)]
    by simp
  note out = this [OF S4]
  have "looked P (?S1, w) (S', w')"
    using assms(2) out by (auto simp: finish_pair_def Let_def a r split del: if_split)
  then show ?thesis by (rule looked_trans [OF S1])
qed

lemma looked_pair:
  assumes "questions_keep (e_kernel E) P" "idle_run apply_it S"
    and "reconcile_pair E T apply_it pfs fdb pass_at p vf S w = (r, S', w')"
  shows "looked P (S, w) (S', w')"
proof (cases "\<exists>dl br an. get T (p_dev p) = Some dl \<and> index_of T (p_bridge p) = Some br
    \<and> anatomy_of T (l_index dl) br = Some an")
  case False
  then show ?thesis using assms(3) by (auto simp: reconcile_pair_def split: option.splits)
next
  case True
  then obtain dl br an where an: "get T (p_dev p) = Some dl" "index_of T (p_bridge p) = Some br"
    "anatomy_of T (l_index dl) br = Some an" by blast
  obtain go S1 w1 where g: "settle_identity E T apply_it (p_dev p) (l_index dl) S w = (go, S1, w1)"
    by (meson prod_cases3)
  note s1 = looked_settle [OF assms(2) g, of P]
  show ?thesis
  proof (cases go)
    case False
    then show ?thesis using assms(3) s1 by (simp add: reconcile_pair_def an g)
  next
    case True
    obtain S2 w2 where l: "load_ports E T (p_dev p) S1 w1 = (S2, w2)" by fastforce
    obtain ob s where o: "load_owned (e_fs E) (sy_store S2) (p_dev p) = (ob, s)" by fastforce
    have s3: "looked P (S2, w2) (with_store S2 s, w2)"
      using disk_load [of "e_fs E" "sy_store S2" "p_dev p"] by (simp add: looked_iff o)
    obtain x S4 w4 where d: "decide_wanted E T (p_dev p) an pfs fdb ob (self_list fdb (l_index dl)) vf (with_store S2 s) w2
        = (x, S4, w4)" by (meson prod_cases3)
    note to4 = looked_trans [OF looked_trans [OF looked_trans [OF s1 looked_load_ports [OF assms(1) l]] s3]
        looked_decide [OF assms(1) d]]
    show ?thesis
    proof (cases x)
      case (Inl e)
      then show ?thesis using assms(3) to4 True by (simp add: reconcile_pair_def an g l o d Let_def)
    next
      case (Inr y)
      obtain dw vfs carried where y: "y = (dw, vfs, carried)" by (cases y)
      obtain rep fails S5 w5 where f: "finish_pair E T apply_it p dl an fdb pass_at ob
          (note_is_readable s (p_dev p)) dw vfs S4 w4 = (rep, fails, S5, w5)"
        by (meson prod_cases4)
      have "idle_run apply_it S4" using looked_passive [OF to4] assms(2) by simp
      then have "looked P (S, w) (S5, w5)" using looked_trans [OF to4 looked_finish] f by blast
      moreover have "S' = S5 \<and> w' = w5"
        using assms(3) True by (simp add: reconcile_pair_def an g l o d Inr y f Let_def)
      ultimately show ?thesis by simp
    qed
  qed
qed

lemma looked_pairs:
  assumes "questions_keep (e_kernel E) P"
  shows "idle_run apply_it S \<Longrightarrow> reconcile_pairs E T apply_it pfs fdb pass_at ps vf S w = (r, S', w')
    \<Longrightarrow> looked P (S, w) (S', w')"
proof (induction ps arbitrary: vf S w r S' w')
  case (Cons p ps)
  obtain x S1 w1 where p: "reconcile_pair E T apply_it pfs fdb pass_at p vf S w = (x, S1, w1)"
    by (meson prod_cases3)
  note s1 = looked_pair [OF assms Cons.prems(1) p]
  show ?case
  proof (cases x)
    case (Inl e)
    then show ?thesis using Cons.prems(2) s1 by (simp add: p)
  next
    case (Inr y)
    obtain rep f1 vf' where y: "y = (rep, f1, vf')" by (cases y)
    obtain z S2 w2 where q: "reconcile_pairs E T apply_it pfs fdb pass_at ps vf' S1 w1 = (z, S2, w2)"
      by (meson prod_cases3)
    have "idle_run apply_it S1" using looked_passive [OF s1] Cons.prems(1) by simp
    note s2 = looked_trans [OF s1 Cons.IH [OF this q]]
    then show ?thesis using Cons.prems(2) by (cases z) (auto simp: p Inr y q)
  qed
qed simp

section \<open>The sweep\<close>

lemma looked_take_out:
  assumes "idle_run apply_it S" "take_out_orphan E T apply_it dev S w = (fails, S', w')"
  shows "looked P (S, w) (S', w')"
  using assms by (auto simp: take_out_orphan_def looked_iff)

lemma looked_drop_orphan:
  assumes "idle_run apply_it S" "drop_orphan E T apply_it dev S w = (fails, S', w')"
  shows "looked P (S, w) (S', w')"
proof -
  obtain owned s where o: "load_owned (e_fs E) (sy_store S) dev = (owned, s)" by fastforce
  have s: "st_disk s = st_disk (sy_store S)" using disk_load [of "e_fs E" "sy_store S" dev] by (simp add: o)
  then have go: "looked P (S, w) (with_store S s, w)" "looked P (S, w) (with_store S (say_index dev s), w)"
    by (simp_all add: looked_iff say_index_def)
  have idle: "idle_run apply_it (with_store S s)" using assms(1) by simp
  show ?thesis
    using assms looked_take_out [OF assms(1), of E T dev w fails S' w' P] go
      looked_trans [OF go(1) looked_take_out [OF idle, of E T dev w fails S' w' P]]
    by (auto simp: drop_orphan_def o Let_def split: if_splits option.splits prod.splits)
qed

lemma looked_drop_list:
  "idle_run apply_it S \<Longrightarrow> drop_orphan_list E T apply_it devs S w = (fails, S', w') \<Longrightarrow> looked P (S, w) (S', w')"
proof (induction devs arbitrary: S w fails S' w')
  case (Cons dev devs)
  obtain f1 S1 w1 where d: "drop_orphan E T apply_it dev S w = (f1, S1, w1)" by (meson prod_cases3)
  obtain f2 S2 w2 where r: "drop_orphan_list E T apply_it devs S1 w1 = (f2, S2, w2)" by (meson prod_cases3)
  note s1 = looked_drop_orphan [OF Cons.prems(1) d, of P]
  have "idle_run apply_it S1" using looked_passive [OF s1] Cons.prems(1) by simp
  then show ?case using looked_trans [OF s1 Cons.IH [OF _ r]] Cons.prems(2) by (simp add: d r)
qed simp

lemma looked_orphans:
  assumes "questions_keep (e_kernel E) P" "idle_run apply_it S" "drop_orphans E T apply_it S w = (fails, S', w')"
  shows "looked P (S, w) (S', w')"
proof -
  obtain devs S1 w1 where o: "orphaned E S w = (devs, S1, w1)" by (meson prod_cases3)
  have s1: "looked P (S, w) (S1, w1)"
    using o questions_keepD(6) [OF assms(1)] by (auto simp: orphaned_def looked_iff Let_def split: if_splits prod.splits)
  have "idle_run apply_it S1" using looked_passive [OF s1] assms(2) by simp
  then show ?thesis
    using looked_trans [OF s1 looked_drop_list] assms(3) by (simp add: drop_orphans_def o)
qed

section \<open>The whole pass\<close>

lemma looked_ask:
  assumes "questions_keep (e_kernel E) P" "ask_vfs E pfs S w = (r, S', w')"
  shows "looked P (S, w) (S', w')"
  using assms(2) questions_keepD(3) [OF assms(1)]
  by (auto simp: ask_vfs_def looked_iff remember_vf_def split: option.splits prod.splits sum.splits)

lemma looked_reconcile:
  assumes "questions_keep (e_kernel E) P" "idle_run apply_it S" "reconcile E T apply_it S w = (r, S', w')"
  shows "looked P (S, w) (S', w')"
proof (cases "sy_pairs S = []")
  case True
  obtain fails S1 w1 where "drop_orphans E T apply_it S w = (fails, S1, w1)" by (meson prod_cases3)
  then show ?thesis using looked_orphans [OF assms(1,2)] assms(3) True by (simp add: reconcile_def)
next
  case False
  obtain x w1 where f: "k_dump_fdb (e_kernel E) w = (x, w1)" by fastforce
  have s1: "looked P (S, w) (S, w1)" using questions_keepD(1) [OF assms(1) f] by (simp add: looked_iff)
  show ?thesis
  proof (cases x)
    case (Inl e)
    then show ?thesis using assms(3) False s1 by (simp add: reconcile_def f)
  next
    case (Inr fdb)
    define pfs where "pfs = live_pfs T (map p_dev (sy_pairs S))"
    obtain y S2 w2 where a: "ask_vfs E pfs S w1 = (y, S2, w2)" by (meson prod_cases3)
    note s2 = looked_trans [OF s1 looked_ask [OF assms(1) a]]
    show ?thesis
    proof (cases y)
      case (Inl e)
      then show ?thesis using assms(3) False s2 by (simp add: reconcile_def f Inr a pfs_def [symmetric])
    next
      case (Inr vf)
      obtain now w3 where n: "k_boot_millis (e_kernel E) w2 = (now, w3)" by fastforce
      define pass_at where "pass_at = max now (Suc (sy_last_pass_at S2))"
      define S3 where "S3 = S2\<lparr>sy_last_pass_at := pass_at\<rparr>"
      have s3: "looked P (S, w) (S3, w3)"
        using s2 questions_keepD(5) [OF assms(1) n] by (simp add: looked_iff S3_def)
      have i3: "idle_run apply_it S3" using looked_passive [OF s3] assms(2) by simp
      obtain fails S4 w4 where o: "drop_orphans E T apply_it S3 w3 = (fails, S4, w4)" by (meson prod_cases3)
      note s4 = looked_trans [OF s3 looked_orphans [OF assms(1) i3 o]]
      have i4: "idle_run apply_it S4" using looked_passive [OF s4] assms(2) by simp
      obtain z S5 w5 where p: "reconcile_pairs E T apply_it pfs fdb pass_at (sy_pairs S4) vf S4 w4 = (z, S5, w5)"
        by (meson prod_cases3)
      note s5 = looked_trans [OF s4 looked_pairs [OF assms(1) i4 p]]
      have "S' = S5 \<and> w' = w5"
        using assms(3) False unfolding reconcile_def Let_def
        by (cases z) (auto simp: f \<open>x = Inr fdb\<close> a pfs_def [symmetric] Inr n pass_at_def [symmetric] S3_def [symmetric] o p)
      with s5 show ?thesis by simp
    qed
  qed
qed

section \<open>Limits and flush\<close>

lemma judge_world:
  assumes "questions_keep K P" "judge K T l driver w = (r, w')"
  shows "P w \<longrightarrow> P w'"
  using assms(2) questions_keepD(4) [OF assms(1)]
  by (auto simp: judge_def Let_def split: if_splits option.splits prod.splits sum.splits)

lemma behind_loop_world:
  "questions_keep K P \<Longrightarrow> behind_loop K T stack seen best w = (r, w') \<Longrightarrow> P w \<longrightarrow> P w'"
proof (induction K T stack seen best w arbitrary: r w' rule: behind_loop.induct)
  case (2 K T i stack seen best w)
  show ?case
  proof (cases "i \<in> seen")
    case True
    then show ?thesis using 2(1) [OF True 2(6)] 2(7) by simp
  next
    case new: False
    show ?thesis
    proof (cases "at T i")
      case None
      then show ?thesis using 2(2) [OF new None 2(6)] 2(7) new by simp
    next
      case (Some l)
      show ?thesis
      proof (cases "l_driver l")
        case None
        then show ?thesis using 2(3) [OF new Some None 2(6)] 2(7) new Some by simp
      next
        case (Some d)
        obtain f st w1 where j: "judge K T l d w = ((f, st), w1)" by (metis prod.exhaust)
        note h = judge_world [OF 2(6) j]
        show ?thesis
        proof (cases f)
          case None
          note j = j [unfolded None]
          show ?thesis
            using 2(4) [OF new \<open>at T i = Some l\<close> Some j [symmetric] refl refl 2(6)] 2(7) new \<open>at T i = Some l\<close> Some h
            by (simp add: j)
        next
          case (Some g)
          note j = j [unfolded Some]
          show ?thesis
            using 2(5) [OF new \<open>at T i = Some l\<close> \<open>l_driver l = Some d\<close> j [symmetric] refl refl 2(6)] 2(7) new
              \<open>at T i = Some l\<close> \<open>l_driver l = Some d\<close> h
            by (simp add: j)
        qed
      qed
    qed
  qed
qed simp

lemma card_filter_world:
  assumes "questions_keep K P" "card_filter K T l w = (r, w')"
  shows "P w \<longrightarrow> P w'"
  using assms(2) judge_world [OF assms(1)] behind_loop_world [OF assms(1)]
  by (auto simp: card_filter_def split: if_splits option.splits prod.splits)

lemma collect_limits_world:
  "questions_keep K P \<Longrightarrow> collect_limits K T old cards limits sd w = (ls, sd', w') \<Longrightarrow> P w \<longrightarrow> P w'"
  by (induction K T old cards limits sd w arbitrary: ls sd' w' rule: collect_limits.induct)
    (auto split: option.splits prod.splits dest: card_filter_world)

lemma looked_limits:
  assumes "questions_keep (e_kernel E) P" "limited E T opts S w = (S', w')"
  shows "looked P (S, w) (S', w')"
proof -
  obtain ls sd w1 where c: "collect_limits (e_kernel E) T (sy_max_macs_per_card S)
      (filter_carriers (map p_dev (sy_pairs S)) T) [] {} w = (ls, sd, w1)" by (meson prod_cases3)
  show ?thesis using assms(2) collect_limits_world [OF assms(1) c]
    by (auto simp: limited_def apply_card_limits_def c looked_iff split: if_splits)
qed

lemma flush_list_dry:
  "flush_list E T True devs s w = (ok, s', w') \<Longrightarrow> st_disk s' = st_disk s \<and> w' = w"
proof (induction devs arbitrary: s ok s' w')
  case (Cons dev devs)
  obtain owned s1 where l: "load_owned (e_fs E) s dev = (owned, s1)" by fastforce
  obtain ok2 s2 w2 where r: "flush_list E T True devs s1 w = (ok2, s2, w2)" by (meson prod_cases3)
  show ?case using Cons.prems Cons.IH [OF r] disk_load [of "e_fs E" s dev] by (simp add: l r)
qed simp

lemma looked_flush:
  assumes "questions_keep (e_kernel E) P" "sy_dry_run S" "flush E sysfs facts S w = (r, S', w')"
  shows "looked P (S, w) (S', w')"
proof -
  obtain x w1 where x: "k_dump_links (e_kernel E) w = (x, w1)" by fastforce
  have h: "P w \<longrightarrow> P w1" using questions_keepD(2) [OF assms(1) x] by blast
  show ?thesis
    using assms(2,3) h
    by (auto simp: flush_def x looked_iff Let_def split: sum.splits prod.splits dest: flush_list_dry)
qed

text \<open>A machine without a \<open>/sys\<close> to read.\<close>

definition empty_tree :: tree where
  "empty_tree = \<lparr>tr_text = (\<lambda>_. None), tr_target = (\<lambda>_. None), tr_names = (\<lambda>_. None),
                 tr_is_dir = (\<lambda>_. False), tr_exists = (\<lambda>_. False)\<rparr>"

lemma cards_read_only: "reads_only cards_kernel cards_held"
  by (simp add: reads_only_def cards_kernel_def)

text \<open>The modes that end, when they are only to look.\<close>

lemma run_modes_looks:
  assumes "questions_keep (e_kernel E) P" and "o_dry_run opts \<or> o_mode opts = Status_Mode"
    and "run_modes E sysfs facts T opts d w = (r, s, w')"
  shows "(P w \<longrightarrow> P w') \<and> (case s of None \<Rightarrow> True | Some s \<Rightarrow> st_disk s = d)"
proof (cases "resolve_pairs T opts")
  case (Inl e)
  then show ?thesis using assms(3) by (simp add: run_modes_def)
next
  case (Inr pairs)
  let ?S = "prepared opts pairs d"
  obtain S1 w1 where l: "limited E T opts ?S w = (S1, w1)" by fastforce
  define S2 where "S2 = with_lists opts S1"
  have to2: "looked P (?S, w) (S2, w1)"
    using looked_limits [OF assms(1) l] by (simp add: looked_iff S2_def with_lists_def)
  have start: "st_disk (sy_store ?S) = d" "sy_dry_run ?S = o_dry_run opts"
    by (simp_all add: prepared_def new_syncer_def)
  have there: "(P w \<longrightarrow> P v) \<and> st_disk (sy_store S3) = d" if "looked P (S2, w1) (S3, v)" for S3 v
    using looked_trans [OF to2 that] start by (simp add: looked_iff)
  have dry: "sy_dry_run S2 = o_dry_run opts" using to2 start(2) by (simp add: looked_iff)
  note run = assms(3) [unfolded run_modes_def Inr sum.case l Let_def prod.case S2_def [symmetric]]
  show ?thesis
  proof (cases "o_mode opts")
    case Status_Mode
    obtain x S3 w3 where x: "reconcile E T False S2 w1 = (x, S3, w3)" by (meson prod_cases3)
    show ?thesis
      using run there [OF looked_reconcile [OF assms(1) _ x]] Status_Mode
      by (auto simp: print_status_def x split: sum.splits prod.splits)
  next
    case Once_Mode
    then have idle: "idle_run True S2" using assms(2) dry by simp
    obtain x S3 w3 where x: "reconcile E T True S2 w1 = (x, S3, w3)" by (meson prod_cases3)
    show ?thesis
      using run there [OF looked_reconcile [OF assms(1) idle x]] Once_Mode
      by (auto simp: run_once_def x split: sum.splits prod.splits)
  next
    case Flush_Mode
    then have "sy_dry_run S2" using assms(2) dry by simp
    obtain x S3 w3 where x: "flush E sysfs facts S2 w1 = (x, S3, w3)" by (meson prod_cases3)
    show ?thesis
      using run there [OF looked_flush [OF assms(1) \<open>sy_dry_run S2\<close> x]] Flush_Mode
      by (auto simp: x split: sum.splits)
  next
    case Check_Mode
    then show ?thesis using run assms(2) there [OF looked_refl] by auto
  qed (use run there [OF looked_refl] in auto)
qed

section \<open>Property\<close>

text \<open>C6: Looking changes nothing. A run of any of the modes that end, with \<open>--status\<close> or under
  \<open>--dry-run\<close>, leaves every card as the kernel had it and every file of the state directory as it
  was, whether it succeeds or not: the sweep of orphans, a rename it comes upon, the memory of ports, the
  note of a pair and a flush included. Relied on: only the kernel's write call changes a card.\<close>

theorem looking_changes_nothing:
  assumes "reads_only (e_kernel E) held" and "o_dry_run opts \<or> o_mode opts = Status_Mode"
    and "run_modes E sysfs facts T opts d w = (r, s, w')"
  shows "held w' = held w \<and> (case s of None \<Rightarrow> True | Some s \<Rightarrow> st_disk s = d)"
  using run_modes_looks [OF reads_only_keep [OF assms(1)] assms(2,3), of "held w"] by simp

theorem looking_changes_nothing_witness:
  "cards_held (snd (snd (run_modes cards_env (sysfs_between empty_tree empty_tree) Map.empty card_graph
      (default_options\<lparr>o_mode := Once_Mode, o_dry_run := True\<rparr>) (disk_with ''pf0'' []) [(1, Mac 2 0 0 0 0 9)])))
     = cards_held [(1, Mac 2 0 0 0 0 9)]"
proof -
  let ?o = "default_options\<lparr>o_mode := Once_Mode, o_dry_run := True\<rparr>"
  obtain r s w' where run: "run_modes cards_env (sysfs_between empty_tree empty_tree) Map.empty card_graph ?o
      (disk_with ''pf0'' []) [(1, Mac 2 0 0 0 0 9)] = (r, s, w')" by (meson prod_cases3)
  have "reads_only (e_kernel cards_env) cards_held" using cards_read_only by simp
  from looking_changes_nothing [OF this _ run] show ?thesis by (simp add: run)
qed

end
