(* ===== verification/Silent_Laws.thy ===== *)
theory Silent_Laws
  imports Look_Laws Live_Laws Socket_Laws
begin

text \<open>
  What a run that is only to look puts on the wire. The questions of \<open>Socket\<close> send requests that read;
  the world of \<open>Live\<close> is made of them; a pass, a batch and a turn of the loop that are not to write ask
  nothing else; hence the whole of \<open>run\<close>, from the command line to the exit, never hands the kernel a
  request that adds or removes an entry.
\<close>

section \<open>Requests that write\<close>

definition is_write :: "u8 list \<Rightarrow> bool" where
  "is_write m \<longleftrightarrow> u16_of (slice 4 2 m) = RTM_NEWNEIGH \<or> u16_of (slice 4 2 m) = RTM_DELNEIGH"

text \<open>What every call of a socket keeps, short of sending such a request.\<close>

definition asking_keeps :: "'w os \<Rightarrow> ('w \<Rightarrow> bool) \<Rightarrow> bool" where
  "asking_keeps os P \<longleftrightarrow>
     (\<forall>n w. P w \<longrightarrow> P (snd (os_recvfrom os n w))) \<and> (\<forall>w. P w \<longrightarrow> P (snd (os_now os w)))
     \<and> (\<forall>m w. \<not> is_write m \<longrightarrow> P w \<longrightarrow> P (snd (os_send os m w)))"

lemma asking_keepsD:
  assumes "asking_keeps os P" "P w"
  shows "os_recvfrom os n w = (a, v) \<Longrightarrow> P v" "os_now os w = (t, v) \<Longrightarrow> P v"
    "os_send os m w = (r, v) \<Longrightarrow> \<not> is_write m \<Longrightarrow> P v"
  using assms unfolding asking_keeps_def by (metis snd_conv)+

lemma request_type [simp]: "u16_of (slice 4 2 (put_nlmsghdr len kind fl seq @ rest)) = kind"
  by (simp add: put_nlmsghdr_def slice_def bytes32_def)

lemma request_type_alone [simp]: "u16_of (slice 4 2 (put_nlmsghdr len kind fl seq)) = kind"
  using request_type [of len kind fl seq "[]"] by simp

lemma type_with_seq [simp]: "6 \<le> length req \<Longrightarrow> slice 4 2 (with_seq req seq) = slice 4 2 req"
  by (simp add: with_seq_def slice_def take_drop min_def)

lemma is_write_with_seq [simp]: "6 \<le> length req \<Longrightarrow> is_write (with_seq req seq) = is_write req"
  by (simp add: is_write_def)

text \<open>A request the program reads with: long enough to have a type, and not one that writes.\<close>

definition is_question :: "u8 list \<Rightarrow> bool" where
  "is_question m \<longleftrightarrow> 6 \<le> length m \<and> \<not> is_write m"

lemma questions_are [simp]:
  "is_question fdb_request" "is_question (fdb_of_request i)"
  "link_dump_request = Some req \<Longrightarrow> is_question req" "vf_request i seq = Some req' \<Longrightarrow> is_question req'"
  by (auto simp: is_question_def is_write_def fdb_request_def fdb_of_request_def link_dump_request_def vf_request_def)

section \<open>The socket\<close>

lemma send_keeps:
  assumes "asking_keeps os P" "send_request os m w = (r, v)" "\<not> is_write m"
  shows "P w \<longrightarrow> P v"
  using assms(2,3) asking_keepsD(3) [OF assms(1)] by (auto simp: send_request_def split: prod.splits sum.splits)

lemma recv_flags_keeps:
  "recv_flags os nowait dropped S w = Some y \<Longrightarrow> asking_keeps os P \<longrightarrow> P w \<longrightarrow> P (snd (snd y))"
proof (induction os nowait dropped S w y rule: recv_flags.raw_induct [rotated, consumes 1, case_names 1])
  case (1 rec os nowait dropped S w y)
  obtain a v where a: "os_recvfrom os (nowait \<or> 0 < dropped) w = (a, v)" by fastforce
  show ?case
    using 1(2) a asking_keepsD(1) [of os P w "nowait \<or> 0 < dropped" a v] 1(1) [of os nowait dropped S v y]
      1(1) [of os nowait "Suc dropped" "S\<lparr>so_spoof_warned := True\<rparr>" v y]
    by (cases a) (auto split: if_splits)
qed

lemma recv_deadline_keeps:
  "recv_deadline os deadline S w = Some y \<Longrightarrow> asking_keeps os P \<longrightarrow> P w \<longrightarrow> P (snd (snd y))"
proof (induction os deadline S w y rule: recv_deadline.raw_induct [rotated, consumes 1, case_names 1])
  case (1 rec os deadline S w y)
  obtain now v where n: "os_now os w = (now, v)" by fastforce
  note v = asking_keepsD(2) [of os P w now v, OF _ _ n]
  show ?case
  proof (cases "deadline \<le> now")
    case True
    then show ?thesis using 1(2) n v by auto
  next
    case False
    then obtain r S1 v1 where r: "recv_flags os False 0 S v = Some (r, S1, v1)"
      using 1(2) n by (auto simp: bind_eq_Some_conv)
    then show ?thesis
      using 1(2) n v False recv_flags_keeps [OF r, of P] 1(1) [of os deadline S1 v1 y]
      by (cases r) auto
  qed
qed

lemma drain_keeps: "drain os w = Some v \<Longrightarrow> asking_keeps os P \<longrightarrow> P w \<longrightarrow> P v"
proof (induction os w v rule: drain.raw_induct [rotated, consumes 1, case_names 1])
  case (1 rec os w v)
  obtain a u where a: "os_recvfrom os True w = (a, u)" by fastforce
  show ?case
    using 1(2) a asking_keepsD(1) [of os P w True a u] 1(1) [of os u v]
    by (cases a) (auto split: if_splits)
qed

lemma sock_run_dump_keeps:
  "sock_run_dump os buflen want seq deadline acc S w = Some y \<Longrightarrow> asking_keeps os P \<longrightarrow> P w \<longrightarrow> P (snd (snd y))"
proof (induction os buflen want seq deadline acc S w y rule: sock_run_dump.raw_induct [rotated, consumes 1, case_names 1])
  case (1 rec os buflen want seq deadline acc S w y)
  then obtain r S1 v1 where r: "recv_deadline os deadline S w = Some (r, S1, v1)"
    by (auto simp: bind_eq_Some_conv)
  note R = recv_deadline_keeps [OF r, of P]
  show ?case
  proof (cases r)
    case (Inl e)
    then show ?thesis using 1(2) r R by auto
  next
    case (Inr d)
    obtain acc' res where m: "dump_messages want seq (messages d) acc = (acc', res)" by fastforce
    show ?thesis
      using 1(2) r Inr R m 1(1) [of os buflen want seq deadline acc' S1 v1 y]
      by (cases res) (auto split: if_splits)
  qed
qed

lemma one_loop_keeps:
  "one_loop os buflen seq want deadline S w = Some y \<Longrightarrow> asking_keeps os P \<longrightarrow> P w \<longrightarrow> P (snd (snd y))"
proof (induction os buflen seq want deadline S w y rule: one_loop.raw_induct [rotated, consumes 1, case_names 1])
  case (1 rec os buflen seq want deadline S w y)
  then obtain r S1 v1 where r: "recv_deadline os deadline S w = Some (r, S1, v1)"
    by (auto simp: bind_eq_Some_conv)
  note R = recv_deadline_keeps [OF r, of P]
  show ?case
  proof (cases r)
    case (Inl e)
    then show ?thesis using 1(2) r R by auto
  next
    case (Inr d)
    then show ?thesis
      using 1(2) r R 1(1) [of os buflen seq want deadline S1 v1 y] drain_keeps [of os v1 _ P]
      by (auto simp: bind_eq_Some_conv split: if_splits option.splits sum.splits)
  qed
qed

lemma sock_dump_into_keeps:
  assumes "asking_keeps os P" "is_question req"
  shows "sock_dump_into k os buflen req want S w = Some (r, b', S', v) \<Longrightarrow> P w \<longrightarrow> P v"
proof (induction k arbitrary: buflen S w)
  case (Suc k)
  let ?S = "S\<lparr>so_seq := so_seq S + 1\<rparr>"
  obtain e u where sent: "send_request os (with_seq req (so_seq ?S)) w = (e, u)" by fastforce
  have u: "P w \<longrightarrow> P u" using send_keeps [OF assms(1) sent] assms(2) by (simp add: is_question_def)
  show ?case
  proof (cases e)
    case (Some err)
    then show ?thesis using Suc.prems sent u by (simp add: Let_def)
  next
    case None
    obtain now u1 where n: "os_now os u = (now, u1)" by fastforce
    have u1: "P u \<longrightarrow> P u1" using asking_keepsD(2) [OF assms(1) _ n] by blast
    obtain out x S2 u2 where d: "sock_run_dump os buflen want (so_seq ?S) (now + READ_TIMEOUT) [] ?S u1 = Some ((out, x), S2, u2)"
      using Suc.prems sent None n by (auto simp: bind_eq_Some_conv Let_def)
    have u2: "P u1 \<longrightarrow> P u2" using sock_run_dump_keeps [OF d, of P] assms(1) by simp
    have dr: "drain os u2 = Some u3 \<Longrightarrow> P u2 \<longrightarrow> P u3" for u3 using drain_keeps [of os u2 u3 P] assms(1) by simp
    show ?thesis
      using Suc.prems sent None n d u u1 u2 dr Suc.IH
      by (fastforce simp: bind_eq_Some_conv Let_def split: sum.splits dump_end.splits if_splits)
  qed
qed simp

lemma sock_dump_keeps:
  assumes "asking_keeps os P" "is_question req" "sock_dump os req want S w = Some (r, S', v)"
  shows "P w \<longrightarrow> P v"
  using assms(3) sock_dump_into_keeps [OF assms(1,2)]
  by (fastforce simp: sock_dump_def sock_dump_from_def bind_eq_Some_conv)

lemma request_one_keeps:
  assumes "asking_keeps os P" "is_question req"
  shows "request_one_grown k os buflen req seq want S w = Some (r, b', S', v) \<Longrightarrow> P w \<longrightarrow> P v"
proof (induction k arbitrary: buflen S w)
  case (Suc k)
  obtain e u where sent: "send_request os req w = (e, u)" by fastforce
  have u: "P w \<longrightarrow> P u" using send_keeps [OF assms(1) sent] assms(2) by (simp add: is_question_def)
  show ?case
  proof (cases e)
    case (Some err)
    then show ?thesis using Suc.prems sent u by simp
  next
    case None
    obtain x S2 u2 where o: "request_one_into os buflen seq want S u = Some (x, S2, u2)"
      using Suc.prems sent None by (auto simp: bind_eq_Some_conv)
    obtain now u1 where n: "os_now os u = (now, u1)" by fastforce
    have u1: "P u \<longrightarrow> P u1" using asking_keepsD(2) [OF assms(1) _ n] by blast
    have u2: "P u1 \<longrightarrow> P u2"
      using o n one_loop_keeps [of os buflen seq want "now + READ_TIMEOUT" S u1 "(x, S2, u2)" P] assms(1)
      by (simp add: request_one_into_def)
    show ?thesis
      using Suc.prems sent None o u u1 u2 Suc.IH
      by (fastforce split: sum.splits one_end.splits if_splits)
  qed
qed simp

text \<open>Every question keeps \<open>P\<close>.\<close>

lemma sock_questions_keep:
  assumes "asking_keeps os P"
  shows "sock_dump_links os S w = Some (a, S', v) \<Longrightarrow> P w \<longrightarrow> P v"
    "sock_dump_fdb os S w = Some (b, S', v) \<Longrightarrow> P w \<longrightarrow> P v"
    "sock_dump_fdb_of os i S w = Some (b, S', v) \<Longrightarrow> P w \<longrightarrow> P v"
    "sock_vf_info_of os i S w = Some (c, S', v) \<Longrightarrow> P w \<longrightarrow> P v"
proof -
  show "sock_dump_links os S w = Some (a, S', v) \<Longrightarrow> P w \<longrightarrow> P v"
    using sock_dump_keeps [OF assms questions_are(3)]
    by (fastforce simp: sock_dump_links_def parsed_dump_def bind_eq_Some_conv)
  show "sock_dump_fdb os S w = Some (b, S', v) \<Longrightarrow> P w \<longrightarrow> P v"
    using sock_dump_keeps [OF assms questions_are(1)] by (fastforce simp: sock_dump_fdb_def parsed_dump_def)
  show "sock_dump_fdb_of os i S w = Some (b, S', v) \<Longrightarrow> P w \<longrightarrow> P v"
    using sock_dump_keeps [OF assms questions_are(2)] by (fastforce simp: sock_dump_fdb_of_def parsed_dump_def)
  show "sock_vf_info_of os i S w = Some (c, S', v) \<Longrightarrow> P w \<longrightarrow> P v"
    using request_one_keeps [OF assms questions_are(4)]
    by (fastforce simp: sock_vf_info_of_def request_one_from_def bind_eq_Some_conv Let_def)
qed

lemma sock_vf_macs_keep:
  assumes "asking_keeps os P"
  shows "sock_vf_macs_of os is S w = Some (r, S', v) \<Longrightarrow> P w \<longrightarrow> P v"
proof (induction "is" arbitrary: S w r S' v)
  case (Cons i "is")
  obtain x S1 u where q: "sock_vf_info_of os i S w = Some (x, S1, u)"
    using Cons.prems by (auto simp: bind_eq_Some_conv)
  note u = sock_questions_keep(4) [OF assms q]
  show ?case
  proof (cases x)
    case (Inl e)
    then show ?thesis using Cons.prems q u by simp
  next
    case (Inr vfs)
    then obtain y S2 u2 where "sock_vf_macs_of os is S1 u = Some (y, S2, u2)" "u2 = v"
      using Cons.prems q by (auto simp: bind_eq_Some_conv)
    then show ?thesis using Cons.IH u by blast
  qed
qed simp

lemma recv_events_keeps:
  assumes "asking_keeps os P" "recv_events os S w = Some (r, S', v)"
  shows "P w \<longrightarrow> P v"
proof -
  have "sock_events k os b out S w = Some (r, S', v) \<Longrightarrow> P w \<longrightarrow> P v" for k b out S w r S' v
  proof (induction k arbitrary: out S w)
    case (Suc k)
    obtain x S1 u where q: "recv_flags os True 0 S w = Some (x, S1, u)"
      using Suc.prems by (auto simp: bind_eq_Some_conv)
    have u: "P w \<longrightarrow> P u" using recv_flags_keeps [OF q, of P] assms(1) by simp
    show ?case using Suc.prems q u Suc.IH by (cases x) (auto split: if_splits)
  qed simp
  with assms(2) show ?thesis by (fastforce simp: recv_events_def)
qed

section \<open>The live world\<close>

definition outside_keeps :: "'w outside \<Rightarrow> ('w \<Rightarrow> bool) \<Rightarrow> bool" where
  "outside_keeps X P \<longleftrightarrow>
     asking_keeps (ox_cmd X) P \<and> asking_keeps (ox_mon X) P
     \<and> (\<forall>w. P w \<longrightarrow> P (snd (ox_signals X w))) \<and> (\<forall>ms p w. P w \<longrightarrow> P (snd (snd (ox_poll X ms p w))))
     \<and> (\<forall>ms p w. P w \<longrightarrow> P (snd (snd (ox_poll_stop X ms p w)))) \<and> (\<forall>n w. P w \<longrightarrow> P (ox_sleep X n w))
     \<and> (\<forall>w. P w \<longrightarrow> P (snd (ox_boot_millis X w))) \<and> (\<forall>w. P w \<longrightarrow> P (snd (ox_sysfs X w)))"

lemma outside_keepsD:
  assumes "outside_keeps X P"
  shows "asking_keeps (ox_cmd X) P" "asking_keeps (ox_mon X) P"
    "ox_signals X w = (a, v) \<Longrightarrow> P w \<Longrightarrow> P v" "ox_poll X ms p w = (b, sgs, v) \<Longrightarrow> P w \<Longrightarrow> P v"
    "ox_poll_stop X n q w = (c, sgs, v) \<Longrightarrow> P w \<Longrightarrow> P v" "P w \<Longrightarrow> P (ox_sleep X n w)"
    "ox_boot_millis X w = (t, v) \<Longrightarrow> P w \<Longrightarrow> P v" "ox_sysfs X w = (sy, v) \<Longrightarrow> P w \<Longrightarrow> P v"
  using assms unfolding outside_keeps_def by (metis snd_conv)+

text \<open>A world that has hung does nothing more, and so nothing wrong.\<close>

definition alive :: "('w \<Rightarrow> bool) \<Rightarrow> 'w life \<Rightarrow> bool" where
  "alive P L \<longleftrightarrow> (case L of None \<Rightarrow> True | Some l \<Rightarrow> P (lv_out l))"

lemma alive_simps [simp]: "alive P None" "alive P (Some l) \<longleftrightarrow> P (lv_out l)"
  by (simp_all add: alive_def)

lemma alive_on_live:
  assumes "\<And>l a l'. f l = Some (a, l') \<Longrightarrow> P (lv_out l) \<longrightarrow> P (lv_out l')"
  shows "alive P L \<longrightarrow> alive P (snd (on_live d f L))"
  using assms by (auto simp: on_live_def split: option.split)

lemma alive_on_sock:
  assumes "\<And>S w a S' v. f S w = Some (a, S', v) \<Longrightarrow> P w \<longrightarrow> P v"
  shows "alive P L \<longrightarrow> alive P (snd (on_live d (on_sock f) L))"
  using assms by (intro alive_on_live) (auto simp: on_sock_def)

lemma alive_on_mon:
  assumes "\<And>S w a S' v. f S w = Some (a, S', v) \<Longrightarrow> P w \<longrightarrow> P v"
  shows "alive P L \<longrightarrow> alive P (snd (on_live d (on_mon f) L))"
  using assms by (intro alive_on_live) (auto simp: on_mon_def)

lemma alive_on_out:
  assumes "\<And>w a v. f w = (a, v) \<Longrightarrow> P w \<longrightarrow> P v"
  shows "alive P L \<longrightarrow> alive P (snd (on_live d (on_out f) L))"
  using assms by (intro alive_on_live) (auto simp: on_out_def split: prod.splits)

lemma live_questions_keep:
  assumes "outside_keeps X P"
  shows "questions_keep (live_writer X) (alive P)"
proof -
  note ask = outside_keepsD(1) [OF assms]
  note clock = asking_keepsD(2) [OF ask]
  note boot = outside_keepsD(7) [OF assms]
  have "alive P L \<longrightarrow> alive P (snd (k_dump_fdb (live_writer X) L))" for L
    using alive_on_sock [OF sock_questions_keep(2) [OF ask]] by (simp add: live_writer_def)
  moreover have "alive P L \<longrightarrow> alive P (snd (k_dump_links (live_writer X) L))" for L
    using alive_on_sock [OF sock_questions_keep(1) [OF ask]] by (simp add: live_writer_def)
  moreover have "alive P L \<longrightarrow> alive P (snd (k_vf_macs_of (live_writer X) is L))" for "is" L
    using alive_on_sock [OF sock_vf_macs_keep [OF ask]] by (simp add: live_writer_def)
  moreover have "alive P L \<longrightarrow> alive P (snd (k_vf_info_of (live_writer X) i L))" for i L
    using alive_on_sock [OF sock_questions_keep(4) [OF ask]] by (simp add: live_writer_def)
  moreover have "alive P L \<longrightarrow> alive P (snd (k_boot_millis (live_writer X) L))" for L
    using alive_on_out [of "ox_boot_millis X" P L 0] boot by (simp add: live_writer_def)
  moreover have "alive P L \<longrightarrow> alive P (snd (k_instant (live_writer X) L))" for L
    using alive_on_out [of "os_now (ox_cmd X)" P L 0] clock by (simp add: live_writer_def)
  ultimately show ?thesis by (simp add: questions_keep_def)
qed

lemma hear_keeps: "outside_keeps X P \<Longrightarrow> P (lv_out l) \<longrightarrow> P (lv_out (hear X l))"
  using outside_keepsD(3) [of X P] by (auto simp: hear_def split: prod.splits)

lemma live_wait_keeps:
  assumes "outside_keeps X P" "live_wait X ms l = (r, l')"
  shows "P (lv_out l) \<longrightarrow> P (lv_out l')"
  using assms(2) hear_keeps [OF assms(1), of l] outside_keepsD(4) [OF assms(1)]
  by (auto simp: live_wait_def sock_wait_def Let_def split: option.splits prod.splits sum.splits if_splits)

lemma live_pause_keeps:
  "live_pause X deadline l = Some l' \<Longrightarrow> outside_keeps X P \<longrightarrow> P (lv_out l) \<longrightarrow> P (lv_out l')"
proof (induction X deadline l l' rule: live_pause.raw_induct [rotated, consumes 1, case_names 1])
  case (1 rec X deadline l l')
  show ?case
  proof (intro impI)
    assume X: "outside_keeps X P" and P: "P (lv_out l)"
    obtain now w where now: "os_now (ox_cmd X) (lv_out l) = (now, w)" by fastforce
    define m where "m = hear X (l\<lparr>lv_out := w\<rparr>)"
    have m: "P (lv_out m)"
      using hear_keeps [OF X, of "l\<lparr>lv_out := w\<rparr>"] asking_keepsD(2) [OF outside_keepsD(1) [OF X] P now] by (simp add: m_def)
    have rec: "P (lv_out l')" if "rec X deadline n = Some l'" "P (lv_out n)" for n
      using 1(1) [OF that(1)] X that(2) by blast
    show "P (lv_out l')"
      using 1(2) m rec outside_keepsD(5) [OF X _ m] outside_keepsD(6) [OF X]
      unfolding now Let_def m_def [symmetric] prod.case
      by (auto split: if_splits option.splits prod.splits)
  qed
qed

text \<open>What every call of a world of the loop keeps, but the one that writes.\<close>

definition world_keeps :: "'w world \<Rightarrow> ('w \<Rightarrow> bool) \<Rightarrow> bool" where
  "world_keeps W P \<longleftrightarrow>
     questions_keep (e_kernel (wd_env W)) P
     \<and> (\<forall>w. P w \<longrightarrow> P (snd (wd_stopping W w))) \<and> (\<forall>w. P w \<longrightarrow> P (snd (wd_resync_wanted W w)))
     \<and> (\<forall>ms w. P w \<longrightarrow> P (snd (wd_wait W ms w))) \<and> (\<forall>w. P w \<longrightarrow> P (snd (wd_recv_events W w)))
     \<and> (\<forall>n w. P w \<longrightarrow> P (wd_pause W n w)) \<and> (\<forall>w. P w \<longrightarrow> P (snd (wd_read_topology W w)))"

lemma world_keepsD:
  assumes "world_keeps W P"
  shows "questions_keep (e_kernel (wd_env W)) P" "wd_now W w = (t, v) \<Longrightarrow> P w \<Longrightarrow> P v"
    "wd_stopping W w = (b, v) \<Longrightarrow> P w \<Longrightarrow> P v" "wd_resync_wanted W w = (b, v) \<Longrightarrow> P w \<Longrightarrow> P v"
    "wd_wait W ms w = (r, v) \<Longrightarrow> P w \<Longrightarrow> P v" "wd_recv_events W w = (evs, v) \<Longrightarrow> P w \<Longrightarrow> P v"
    "P w \<Longrightarrow> P (wd_pause W n w)" "wd_read_topology W w = (x, v) \<Longrightarrow> P w \<Longrightarrow> P v"
proof -
  show "questions_keep (e_kernel (wd_env W)) P" using assms by (simp add: world_keeps_def)
  then show "wd_now W w = (t, v) \<Longrightarrow> P w \<Longrightarrow> P v" by (rule questions_keepD(6))
qed (use assms in \<open>unfold world_keeps_def, metis snd_conv\<close>)+

lemma live_read_topology_keeps:
  assumes "outside_keeps X P" "live_read_topology X l = Some (r, l')"
  shows "P (lv_out l) \<longrightarrow> P (lv_out l')"
proof -
  obtain a S w where d: "sock_dump_links (ox_cmd X) (lv_sock l) (lv_out l) = Some (a, S, w)"
    using assms(2) by (auto simp: live_read_topology_def on_sock_def bind_eq_Some_conv)
  have "P (lv_out l) \<longrightarrow> P w" by (rule sock_questions_keep(1) [OF outside_keepsD(1) [OF assms(1)] d])
  then show ?thesis
    using assms(2) d outside_keepsD(8) [OF assms(1)]
    by (auto simp: live_read_topology_def on_sock_def split: sum.splits prod.splits)
qed

lemma live_world_keeps:
  assumes "outside_keeps X P"
  shows "world_keeps (live_world X F order) (alive P)"
proof -
  have "alive P L \<longrightarrow> alive P (snd (wd_stopping (live_world X F order) L))" for L
    using alive_on_live [of "\<lambda>l. Some (live_stopping X l)" P L False] hear_keeps [OF assms]
    by (simp add: live_world_def live_stopping_def Let_def)
  moreover have "alive P L \<longrightarrow> alive P (snd (wd_resync_wanted (live_world X F order) L))" for L
    using alive_on_live [of "\<lambda>l. Some (live_resync_wanted X l)" P L False] hear_keeps [OF assms]
    by (simp add: live_world_def live_resync_wanted_def Let_def)
  moreover have "alive P L \<longrightarrow> alive P (snd (wd_wait (live_world X F order) ms L))" for ms L
    using alive_on_live [of "\<lambda>l. Some (live_wait X ms l)" P L "Inl Custom"] live_wait_keeps [OF assms, of ms]
    by (simp add: live_world_def)
  moreover have "alive P L \<longrightarrow> alive P (snd (wd_recv_events (live_world X F order) L))" for L
    using alive_on_mon [OF recv_events_keeps [OF outside_keepsD(2) [OF assms]]] by (simp add: live_world_def)
  moreover have "alive P L \<longrightarrow> alive P (wd_pause (live_world X F order) n L)" for n L
  proof (cases L)
    case (Some l)
    obtain now w where now: "os_now (ox_cmd X) (lv_out l) = (now, w)" by fastforce
    have "P (lv_out l) \<longrightarrow> P w" using asking_keepsD(2) [OF outside_keepsD(1) [OF assms] _ now] by blast
    then show ?thesis
      using Some now live_pause_keeps [of X "now + n" "l\<lparr>lv_out := w\<rparr>" _ P] assms
      by (cases "live_pause X (now + n) (l\<lparr>lv_out := w\<rparr>)") (auto simp: live_world_def start_pause_def)
  qed (simp add: live_world_def)
  moreover have "alive P L \<longrightarrow> alive P (snd (wd_read_topology (live_world X F order) L))" for L
    using alive_on_live [of "live_read_topology X" P L "Inl Custom"] live_read_topology_keeps [OF assms]
    by (simp add: live_world_def)
  moreover have "questions_keep (e_kernel (wd_env (live_world X F order))) (alive P)"
    using live_questions_keep [OF assms] by (simp add: live_world_def live_env_def)
  ultimately show ?thesis by (simp add: world_keeps_def)
qed

section \<open>The loop that is not to write\<close>

lemma looked_run_pass:
  assumes "world_keeps W P" "sy_dry_run S" "run_pass W opts S latest marks w = (r, S', latest', marks', w')"
  shows "looked P (S, w) (S', w')"
proof -
  note Q = world_keepsD(1) [OF assms(1)]
  obtain t w1 where n: "wd_now W w = (t, w1)" by fastforce
  obtain x w2 where x: "wd_read_topology W w1 = (x, w2)" by fastforce
  have s2: "P w \<longrightarrow> P w2" using world_keepsD(2) [OF assms(1) n] world_keepsD(8) [OF assms(1) x] by blast
  show ?thesis
  proof (cases x)
    case (Inl e)
    then show ?thesis using assms(3) s2 by (simp add: run_pass_def n x looked_iff)
  next
    case (Inr T)
    obtain t' w3 where n': "wd_now W w2 = (t', w3)" by fastforce
    obtain S1 m1 where d: "(if o_pairs opts = [] then redetect T S marks else (S, marks)) = (S1, m1)" by fastforce
    have S1: "sy_store S1 = sy_store S" "sy_dry_run S1 = sy_dry_run S"
      using d by (auto simp: redetect_def Let_def split: if_splits)
    obtain ls sd w4 where c: "collect_limits (e_kernel (wd_env W)) T (sy_max_macs_per_card S1)
        (filter_carriers (map p_dev (sy_pairs S1)) T) [] (lm_said_cards m1) w3 = (ls, sd, w4)" by (meson prod_cases3)
    obtain said S2 where a: "apply_card_limits (e_kernel (wd_env W)) T (o_max_macs_set opts) (lm_said_cards m1) S1 w3
        = (said, S2, w4)"
      by (cases "o_max_macs_set opts") (auto simp: apply_card_limits_def c)
    have S2: "sy_store S2 = sy_store S1" "sy_dry_run S2 = sy_dry_run S1"
      using a by (auto simp: apply_card_limits_def c split: if_splits)
    have s4: "looked P (S, w) (S2, w4)"
      using s2 world_keepsD(2) [OF assms(1) n'] collect_limits_world [OF Q c] S1 S2 by (simp add: looked_iff)
    obtain y S3 w5 where r: "reconcile (wd_env W) T True S2 w4 = (y, S3, w5)" by (meson prod_cases3)
    have "looked P (S2, w4) (S3, w5)" by (rule looked_reconcile [OF Q _ r]) (use S1 S2 assms(2) in simp)
    moreover have "S' = S3 \<and> w' = w5"
      using assms(3) by (simp add: run_pass_def n x Inr n' d a r Let_def)
    ultimately show ?thesis using looked_trans [OF s4] by simp
  qed
qed

lemma looked_batch:
  assumes "world_keeps W P" "sy_dry_run S" "handle_batch W S latest evs last_pass w = (r, S', latest', w')"
  shows "looked P (S, w) (S', w')"
proof (cases "ev_fdb evs = [] \<and> \<not> ev_links_changed evs")
  case True
  then show ?thesis using assms(3) by (simp add: handle_batch_def)
next
  case False
  obtain fresh w1 where b: "batch_reading W evs w = (fresh, w1)" by fastforce
  have w1: "P w \<longrightarrow> P w1"
    using b world_keepsD(2,8) [OF assms(1)]
    by (auto simp: batch_reading_def split: if_splits prod.splits sum.splits)
  define S1 where "S1 = spend_answer evs latest fresh S"
  have S1: "sy_store S1 = sy_store S" "sy_dry_run S1 = sy_dry_run S"
    by (simp_all add: S1_def spend_answer_def)
  have fast: "\<exists>x. fast_apply (wd_env W) T es S1 v = (Inr x, S1, v)" for T es v
    using S1(2) assms(2) by (simp add: fast_apply_def)
  obtain now w2 where n: "wd_now W w1 = (now, w2)" by fastforce
  note run = assms(3) [unfolded handle_batch_def b Let_def prod.case S1_def [symmetric]]
  have "S' = S1 \<and> (w' = w1 \<or> w' = w2)"
  proof (cases "if needs_reading evs then fresh else latest")
    case None
    then show ?thesis using run False by (auto simp: n)
  next
    case (Some T)
    obtain x where "fast_apply (wd_env W) T (ev_fdb evs) S1 w1 = (Inr x, S1, w1)" using fast by blast
    then show ?thesis using run False by (auto simp: Some n split: if_splits)
  qed
  then show ?thesis using w1 S1 world_keepsD(2) [OF assms(1) n] by (auto simp: looked_iff)
qed

text \<open>In a dry run the loop only looks, from any moment on.\<close>

definition looking_since :: "'w world \<Rightarrow> ('w \<Rightarrow> bool) \<Rightarrow> syncer \<times> 'w \<Rightarrow> syncer \<times> 'w \<Rightarrow> bool" where
  "looking_since W P x y \<longleftrightarrow> (world_keeps W P \<and> sy_dry_run (fst x) \<longrightarrow> looked P x y)"

interpretation looking: loop_law W opts "looking_since W P x" for W opts P x
proof
  fix S S' w v w' t b ms r evs n latest latest' marks marks' ok batch last_pass buys
  note K = world_keepsD
  show "looking_since W P x (S, v)" if "looking_since W P x (S, w)" "wd_now W w = (t, v)"
    using that K(2) by (auto simp: looking_since_def looked_def)
  show "looking_since W P x (S, v)" if "looking_since W P x (S, w)" "wd_stopping W w = (b, v)"
    using that K(3) by (auto simp: looking_since_def looked_def)
  show "looking_since W P x (S, v)" if "looking_since W P x (S, w)" "wd_resync_wanted W w = (b, v)"
    using that K(4) by (auto simp: looking_since_def looked_def)
  show "looking_since W P x (S, v)" if "looking_since W P x (S, w)" "wd_wait W ms w = (r, v)"
    using that K(5) by (auto simp: looking_since_def looked_def)
  show "looking_since W P x (S, v)" if "looking_since W P x (S, w)" "wd_recv_events W w = (evs, v)"
    using that K(6) by (auto simp: looking_since_def looked_def)
  show "looking_since W P x (S, wd_pause W n w)" if "looking_since W P x (S, w)"
    using that K(7) by (auto simp: looking_since_def looked_def)
  show "looking_since W P x (distrust S, w)" if "looking_since W P x (S, w)"
    using that by (simp add: looking_since_def looked_def distrust_def)
  show "looking_since W P x (S', w')"
    if "looking_since W P x (S, w)" "run_pass W opts S latest marks w = (ok, S', latest', marks', w')"
    using that(1) looked_run_pass [OF _ _ that(2), of P] by (auto simp: looking_since_def looked_def)
  show "looking_since W P x (S', w')"
    if "looking_since W P x (S, w)" "handle_batch W S latest batch last_pass w = (buys, S', latest', w')"
    using that(1) looked_batch [OF _ _ that(2), of P] by (auto simp: looking_since_def looked_def)
qed

lemma looked_turns:
  "turns W opts L M \<Longrightarrow> world_keeps W P \<Longrightarrow> sy_dry_run (lp_syncer L) \<Longrightarrow> looked P (loop_state L) (loop_state M)"
  using looking.turning [of W opts L M P "loop_state L"] by (simp add: looking_since_def)

section \<open>The whole program\<close>

definition procs_keep :: "'w procs \<Rightarrow> ('w \<Rightarrow> bool) \<Rightarrow> bool" where
  "procs_keep Q P \<longleftrightarrow>
     (\<forall>p w. P w \<longrightarrow> P (snd (pr_is_dir Q p w))) \<and> (\<forall>p w. P w \<longrightarrow> P (snd (pr_read Q p w)))
     \<and> (\<forall>p t w. P w \<longrightarrow> P (snd (pr_write Q p t w))) \<and> (\<forall>p w. P w \<longrightarrow> P (snd (pr_remove Q p w)))
     \<and> (\<forall>p w. P w \<longrightarrow> P (snd (pr_make_dir Q p w))) \<and> (\<forall>p w. P w \<longrightarrow> P (snd (pr_mode Q p w)))
     \<and> (\<forall>p w. P w \<longrightarrow> P (snd (pr_narrow Q p w))) \<and> (\<forall>i sg w. P w \<longrightarrow> P (snd (pr_kill Q i sg w)))"

definition sys_keeps :: "'w sys \<Rightarrow> ('w \<Rightarrow> bool) \<Rightarrow> bool" where
  "sys_keeps Y P \<longleftrightarrow>
     (\<forall>n w. P w \<longrightarrow> P (snd (ys_socket Y n w))) \<and> (\<forall>fd x w. P w \<longrightarrow> P (snd (ys_setsockopt Y fd x w)))
     \<and> (\<forall>fd g w. P w \<longrightarrow> P (snd (ys_bind Y fd g w))) \<and> (\<forall>fd w. P w \<longrightarrow> P (ys_close Y fd w))"

definition machine_keeps :: "'w machine \<Rightarrow> ('w \<Rightarrow> bool) \<Rightarrow> bool" where
  "machine_keeps M P \<longleftrightarrow> outside_keeps (mc_outside M) P \<and> procs_keep (mc_procs M) P \<and> sys_keeps (mc_sys M) P"

lemma procs_keepD:
  assumes "procs_keep Q P" "P w"
  shows "pr_is_dir Q p w = (a, v) \<Longrightarrow> P v" "pr_read Q p w = (b, v) \<Longrightarrow> P v"
    "pr_write Q p t w = (c, v) \<Longrightarrow> P v" "pr_remove Q p w = (c, v) \<Longrightarrow> P v"
    "pr_make_dir Q p w = (c, v) \<Longrightarrow> P v" "pr_mode Q p w = (d, v) \<Longrightarrow> P v"
    "pr_narrow Q p w = (c, v) \<Longrightarrow> P v" "pr_kill Q i sg w = (c, v) \<Longrightarrow> P v"
  using assms unfolding procs_keep_def by (metis snd_conv)+

lemma procs_keep_snd:
  assumes "procs_keep Q P" "P w"
  shows "P (snd (pr_is_dir Q p w))" "P (snd (pr_read Q p w))" "P (snd (pr_write Q p t w))"
    "P (snd (pr_make_dir Q p w))" "P (snd (pr_mode Q p w))" "P (snd (pr_narrow Q p w))" "P (snd (pr_kill Q i sg w))"
    "P (snd (pr_remove Q p w))"
  using assms by (simp_all add: procs_keep_def)

lemma sys_keepsD:
  assumes "sys_keeps Y P" "P w"
  shows "ys_socket Y n w = (a, v) \<Longrightarrow> P v" "ys_setsockopt Y fd x w = (b, v) \<Longrightarrow> P v"
    "ys_bind Y fd g w = (b, v) \<Longrightarrow> P v" "P (ys_close Y fd w)"
  using assms unfolding sys_keeps_def by (metis snd_conv)+

lemma open_on_keeps:
  assumes "sys_keeps Y P" "open_on Y g n w = (r, v)"
  shows "P w \<longrightarrow> P v"
proof
  assume P: "P w"
  obtain x w1 where x: "ys_socket Y n w = (x, w1)" by fastforce
  have w1: "P w1" by (rule sys_keepsD(1) [OF assms(1) P x])
  show "P v"
  proof (cases x)
    case (Inl e)
    then show ?thesis using assms(2) x w1 by (simp add: open_on_def)
  next
    case (Inr fd)
    have w2: "P (enlarge_buffer Y fd w1)"
      using sys_keepsD(2) [OF assms(1)] w1 by (auto simp: enlarge_buffer_def split: prod.split option.split) (metis prod.collapse)
    obtain y w3 where y: "ys_setsockopt Y fd (RcvTimeo 5) (enlarge_buffer Y fd w1) = (y, w3)"
      by fastforce
    have w3: "P w3" by (rule sys_keepsD(2) [OF assms(1) w2 y])
    have w4: "P (attach_filter Y g fd w3)"
      using w3 assms(1) by (simp add: attach_filter_def sys_keeps_def)
    obtain z w5 where z: "ys_bind Y fd g (attach_filter Y g fd w3) = (z, w5)" by fastforce
    have w5: "P w5" by (rule sys_keepsD(3) [OF assms(1) w4 z])
    show ?thesis
      using assms(2) w3 w5 sys_keepsD(4) [OF assms(1)]
      by (cases y; cases z) (auto simp: open_on_def x Inr y z simp del: One_nat_def)
  qed
qed

lemma state_dir_keeps:
  assumes "procs_keep Q P" "state_dir Q w = (dir, v)"
  shows "P w \<longrightarrow> P v"
  using assms(2) procs_keepD(1) [OF assms(1)] by (auto simp: state_dir_def split: prod.splits)

lemma resync_keeps:
  assumes "procs_keep Q P" "resync Q w = (r, v)"
  shows "P w \<longrightarrow> P v"
proof
  assume "P w"
  obtain dir w1 where d: "state_dir Q w = (dir, w1)" by fastforce
  have "P w1" using state_dir_keeps [OF assms(1) d] \<open>P w\<close> by simp
  then show "P v"
    using assms(2) procs_keep_snd [OF assms(1)]
    by (auto simp: resync_def d case_prod_beta split: sum.splits option.splits if_splits)
qed

lemma leave_pid_keeps:
  assumes "procs_keep (mc_procs M) P" "leave_pid M w = (p, v)"
  shows "P w \<longrightarrow> P v"
proof
  assume "P w"
  obtain dir w1 where d: "state_dir (mc_procs M) w = (dir, w1)" by fastforce
  have w1: "P w1" using state_dir_keeps [OF assms(1) d] \<open>P w\<close> by simp
  obtain r w2 where e: "ensure_state_dir (mc_procs M) dir w1 = (r, w2)" by fastforce
  have "P (snd (ensure_state_dir (mc_procs M) dir w1))"
    using w1 procs_keep_snd [OF assms(1)]
    by (simp add: ensure_state_dir_def case_prod_beta split: option.split sum.split)
  then have "P w2" by (simp add: e)
  then show "P v"
    using assms(2) procs_keepD(3) [OF assms(1)] by (auto simp: leave_pid_def d e Let_def split: prod.splits)
qed

lemma registered_disk: "st_disk (snd (registered fs s devs)) = st_disk s"
proof (induction devs arbitrary: s)
  case (Cons dev devs)
  then show ?case
    using disk_load [of fs s dev] by (cases "load_owned fs s dev") (simp add: case_prod_beta)
qed simp

lemma start_loop_state:
  assumes "world_keeps W P"
  shows "looked P (S, w) (loop_state (start_loop W S w))"
  using world_keepsD(2) [OF assms] by (auto simp: start_loop_def looked_iff split: prod.splits)

lemma run_daemon_looks:
  assumes "machine_keeps M P" "sy_dry_run S" "run_daemon M opts S l = Some (held, s, v)"
  shows "(P (lv_out l) \<longrightarrow> P v) \<and> st_disk s = st_disk (sy_store S)"
proof -
  have procs: "procs_keep (mc_procs M) P" and world: "world_keeps (mc_world M) (alive P)"
    using assms(1) live_world_keeps by (auto simp: machine_keeps_def)
  obtain p w where pid: "leave_pid M (lv_out l) = (p, w)" by fastforce
  have w: "P (lv_out l) \<longrightarrow> P w" by (rule leave_pid_keeps [OF procs pid])
  define S1 where "S1 = S\<lparr>sy_orphan_grace := 60 * SECOND\<rparr>"
  define l1 where "l1 = l\<lparr>lv_flags := catch_signals (mc_pipe M) (mc_sigaction M) (lv_flags l), lv_out := w\<rparr>"
  define L0 where "L0 = start_loop (mc_world M) S1 (Some l1)"
  obtain L where L: "daemon_loop (mc_world M) opts L0 = Some L"
    using assms(3) by (auto simp: run_daemon_def pid Let_def S1_def l1_def L0_def bind_eq_Some_conv)
  obtain l2 where l2: "lp_world L = Some l2"
    using assms(3) L by (auto simp: run_daemon_def pid Let_def S1_def l1_def L0_def bind_eq_Some_conv)
  have start: "looked (alive P) (S1, Some l1) (loop_state L0)" unfolding L0_def by (rule start_loop_state [OF world])
  have dry: "sy_dry_run (lp_syncer L0)" using start assms(2) by (simp add: looked_iff S1_def)
  note to = looked_trans [OF start looked_turns [OF conjunct1 [OF daemon_loop_ends [OF L]] world dry]]
  obtain x u where rm: "pr_remove (mc_procs M) p (lv_out l2) = (x, u)" by fastforce
  have "v = u" "s = snd (registered (mc_fs M) (sy_store (lp_syncer L)) (noted_devices_or_none (mc_fs M) (sy_store (lp_syncer L))))"
    using assms(3) L l2
    by (auto simp: run_daemon_def pid Let_def S1_def l1_def L0_def bind_eq_Some_conv rm split: prod.splits)
  moreover have "P (lv_out l2) \<longrightarrow> P u" using procs_keepD(4) [OF procs _ rm] by blast
  ultimately show ?thesis
    using to w by (auto simp: looked_iff l2 l1_def S1_def registered_disk)
qed

lemma run_on_looks:
  assumes "machine_keeps M P" "o_dry_run opts \<or> o_mode opts = Status_Mode"
    and "run_on M opts d l = Some (r, s, v)"
  shows "(P (lv_out l) \<longrightarrow> P v) \<and> (case s of None \<Rightarrow> True | Some s \<Rightarrow> st_disk s = d)"
proof -
  have X: "outside_keeps (mc_outside M) P" using assms(1) by (simp add: machine_keeps_def)
  obtain x l1 where t: "live_read_topology (mc_outside M) l = Some (x, l1)"
    using assms(3) by (auto simp: run_on_def bind_eq_Some_conv)
  have l1: "P (lv_out l) \<longrightarrow> P (lv_out l1)" by (rule live_read_topology_keeps [OF X t])
  show ?thesis
  proof (cases x)
    case (Inl e)
    then show ?thesis using assms(3) l1 by (auto simp: run_on_def t)
  next
    case (Inr T)
    show ?thesis
    proof (cases "o_mode opts = Daemon_Mode")
      case daemon: True
      show ?thesis
      proof (cases "resolve_pairs T opts")
        case (Inl e)
        then show ?thesis using assms(3) l1 daemon \<open>x = Inr T\<close> by (auto simp: run_on_def t)
      next
        case (Inr pairs)
        define S where "S = with_lists opts (prepared opts pairs d)"
        have S: "st_disk (sy_store S) = d" "sy_dry_run S"
          using assms(2) daemon by (simp_all add: S_def with_lists_def prepared_def new_syncer_def)
        obtain held s' where "run_daemon M opts S l1 = Some (held, s', v)" "s = Some s'"
          using assms(3) daemon \<open>x = Inr T\<close> Inr by (auto simp: run_on_def t S_def)
        then show ?thesis using run_daemon_looks [OF assms(1) S(2)] S(1) l1 by auto
      qed
    next
      case False
      obtain sy w where sy: "ox_sysfs (mc_outside M) (lv_out l1) = (sy, w)" by fastforce
      have w: "P (lv_out l1) \<longrightarrow> P w" using outside_keepsD(8) [OF X sy] by blast
      obtain r' s' L where m: "run_modes (live_env (mc_outside M) (mc_fs M) (mc_order M)) sy (lv_facts l1) T opts d
          (Some (l1\<lparr>lv_out := w\<rparr>)) = (r', s', L)" by (meson prod_cases3)
      have "questions_keep (e_kernel (live_env (mc_outside M) (mc_fs M) (mc_order M))) (alive P)"
        using live_questions_keep [OF X] by (simp add: live_env_def)
      note R = run_modes_looks [OF this assms(2) m]
      obtain l2 where "L = Some l2" "v = lv_out l2" "s = s'"
        using assms(3) False Inr by (auto simp: run_on_def t sy m bind_eq_Some_conv)
      then show ?thesis using R l1 w by auto
    qed
  qed
qed

lemma run_looks:
  assumes "machine_keeps M P"
    and "parse_args_from False (load_conf (fst (pr_read (mc_procs M) CONF w)) default_options) args = Parsed opts"
    and "o_dry_run opts \<or> o_mode opts = Status_Mode"
    and "run M args d w = Some (r, s, v)"
  shows "(P w \<longrightarrow> P v) \<and> (case s of None \<Rightarrow> True | Some s \<Rightarrow> st_disk s = d)"
proof -
  have procs: "procs_keep (mc_procs M) P" and sys: "sys_keeps (mc_sys M) P"
    using assms(1) by (auto simp: machine_keeps_def)
  obtain conf w1 where c: "pr_read (mc_procs M) CONF w = (conf, w1)" by fastforce
  have w1: "P w \<longrightarrow> P w1" using procs_keepD(2) [OF procs _ c] by blast
  have opts: "parse_args_from False (load_conf conf default_options) args = Parsed opts" using assms(2) c by simp
  note run = assms(4) [unfolded run_def c prod.case opts parsed.case]
  show ?thesis
  proof (cases "o_mode opts = Resync_Mode")
    case True
    then show ?thesis
      using run w1 resync_keeps [OF procs, of w1] by (auto split: prod.splits)
  next
    case False
    obtain x w2 where x: "new_socket (mc_sys M) w1 = (x, w2)" by fastforce
    have w2: "P w1 \<longrightarrow> P w2" using open_on_keeps [OF sys] x by (simp add: new_socket_def)
    define sub where "sub = (if o_mode opts = Daemon_Mode then subscribed (mc_sys M) w2 else (Inr (0, new_sock), w2))"
    obtain y w3 where y: "sub = (y, w3)" by fastforce
    have w3: "P w2 \<longrightarrow> P w3"
      using y open_on_keeps [OF sys, of _ _ w2 y w3] by (auto simp: sub_def subscribed_def split: if_splits)
    show ?thesis
    proof (cases x)
      case (Inl e)
      then show ?thesis using run False w1 w2 by (auto simp: x)
    next
      case cmd: (Inr a)
      show ?thesis
      proof (cases y)
        case (Inl e)
        then show ?thesis using run False w1 w2 w3 cmd by (cases a) (auto simp: x sub_def [symmetric] y)
      next
        case (Inr b)
        then have "run_on M opts d \<lparr>lv_sock = snd a, lv_mon = snd b, lv_flags = no_flags, lv_facts = Map.empty, lv_out = w3\<rparr>
            = Some (r, s, v)"
          using run False cmd by (cases a; cases b) (simp add: x sub_def [symmetric] y)
        from run_on_looks [OF assms(1,3) this] show ?thesis using w1 w2 w3 by simp
      qed
    qed
  qed
qed

end
