(* ===== verification/Sent_Laws.thy ===== *)
theory Sent_Laws
  imports Silent_Laws
begin

text \<open>
  The datagrams a run hands to the kernel, recorded as they are sent: a dry run and \<open>--status\<close> send
  questions alone.
\<close>

section \<open>What has been sent\<close>

text \<open>
  A record of the datagrams handed to the kernel: \<open>send\<close> on either socket adds the one it is given,
  refused or not; nothing else the program calls adds or drops one.
\<close>

definition records_sends :: "'w os \<Rightarrow> ('w \<Rightarrow> u8 list list) \<Rightarrow> bool" where
  "records_sends os sent \<longleftrightarrow>
     (\<forall>m w. sent (snd (os_send os m w)) = sent w @ [m])
     \<and> (\<forall>n w. sent (snd (os_recvfrom os n w)) = sent w) \<and> (\<forall>w. sent (snd (os_now os w)) = sent w)"

definition sends_recorded :: "'w machine \<Rightarrow> ('w \<Rightarrow> u8 list list) \<Rightarrow> bool" where
  "sends_recorded M sent \<longleftrightarrow>
     records_sends (ox_cmd (mc_outside M)) sent \<and> records_sends (ox_mon (mc_outside M)) sent
     \<and> (\<forall>w. sent (snd (ox_signals (mc_outside M) w)) = sent w)
     \<and> (\<forall>ms p w. sent (snd (snd (ox_poll (mc_outside M) ms p w))) = sent w)
     \<and> (\<forall>ms p w. sent (snd (snd (ox_poll_stop (mc_outside M) ms p w))) = sent w)
     \<and> (\<forall>n w. sent (ox_sleep (mc_outside M) n w) = sent w)
     \<and> (\<forall>w. sent (snd (ox_boot_millis (mc_outside M) w)) = sent w)
     \<and> (\<forall>w. sent (snd (ox_sysfs (mc_outside M) w)) = sent w)
     \<and> (\<forall>x. procs_keep (mc_procs M) (\<lambda>w. sent w = x)) \<and> (\<forall>x. sys_keeps (mc_sys M) (\<lambda>w. sent w = x))"

definition no_write_since :: "('w \<Rightarrow> u8 list list) \<Rightarrow> u8 list list \<Rightarrow> 'w \<Rightarrow> bool" where
  "no_write_since sent x w \<longleftrightarrow> (\<exists>new. sent w = x @ new \<and> filter is_write new = [])"

lemma no_write_cong: "sent v = sent w \<Longrightarrow> no_write_since sent x w \<Longrightarrow> no_write_since sent x v"
  by (simp add: no_write_since_def)

lemma asking_records:
  assumes "records_sends os sent"
  shows "asking_keeps os (no_write_since sent x)"
proof -
  have "no_write_since sent x (snd (os_send os m w))" if m: "\<not> is_write m" and w: "no_write_since sent x w" for m w
  proof -
    obtain new where "sent w = x @ new" "filter is_write new = []" using w by (auto simp: no_write_since_def)
    then show ?thesis
      using assms m by (auto simp: records_sends_def no_write_since_def intro!: exI [of _ "new @ [m]"])
  qed
  then show ?thesis
    using assms by (simp add: asking_keeps_def records_sends_def no_write_since_def)
qed

lemma procs_keep_of:
  assumes "\<And>x. procs_keep Q (\<lambda>w. sent w = x)"
  shows "procs_keep Q (no_write_since sent y)"
proof -
  have e: "procs_keep Q (\<lambda>v. sent v = sent w)" for w using assms .
  show ?thesis
    unfolding procs_keep_def by (auto intro: no_write_cong procs_keep_snd [OF e refl])
qed

lemma sys_keeps_of:
  assumes "\<And>x. sys_keeps Y (\<lambda>w. sent w = x)"
  shows "sys_keeps Y (no_write_since sent y)"
  using assms unfolding sys_keeps_def by (auto intro: no_write_cong)

lemma machine_records:
  assumes "sends_recorded M sent"
  shows "machine_keeps M (no_write_since sent x)"
proof -
  have "outside_keeps (mc_outside M) (no_write_since sent x)"
    using assms asking_records [of _ sent x]
    by (simp add: outside_keeps_def sends_recorded_def no_write_since_def)
  then show ?thesis
    using assms procs_keep_of [of _ sent] sys_keeps_of [of _ sent]
    by (simp add: machine_keeps_def sends_recorded_def)
qed

section \<open>A machine to look at\<close>

text \<open>Its kernel has no interfaces: every receive is the end of the dump asked for first.\<close>

type_synonym recorder = "nat \<times> u8 list list"

definition end_of_dump :: "u8 list" where
  "end_of_dump = put_nlmsghdr 20 NLMSG_DONE 2 2 @ bytes32 0"

definition recorder_os :: "recorder os" where
  "recorder_os = \<lparr>os_send = (\<lambda>m (t, log). (Inr (length m), (t, log @ [m]))),
     os_recvfrom = (\<lambda>n w. (Arrived 0 end_of_dump, w)), os_now = (\<lambda>(t, log). (t, (Suc t, log)))\<rparr>"

definition recorder_machine :: "recorder machine" where
  "recorder_machine =
     \<lparr>mc_sys = \<lparr>ys_socket = (\<lambda>n w. (Inr 3, w)), ys_setsockopt = (\<lambda>fd x w. (None, w)), ys_bind = (\<lambda>fd g w. (None, w)),
                ys_close = (\<lambda>fd w. w), ys_little_endian = True\<rparr>,
      mc_outside = \<lparr>ox_cmd = recorder_os, ox_mon = recorder_os, ox_signals = (\<lambda>w. ([], w)),
                    ox_poll = (\<lambda>ms p w. (Inr False, [], w)), ox_poll_stop = (\<lambda>ms p w. (None, [], w)),
                    ox_sleep = (\<lambda>n w. w), ox_boot_millis = (\<lambda>w. (5, w)), ox_sysfs = (\<lambda>w. (bare_sysfs, w))\<rparr>,
      mc_procs = \<lparr>pr_is_dir = (\<lambda>p w. (True, w)), pr_read = (\<lambda>p w. (Inl ENOENT, w)), pr_write = (\<lambda>p t w. (None, w)),
                  pr_remove = (\<lambda>p w. (None, w)), pr_make_dir = (\<lambda>p w. (None, w)), pr_mode = (\<lambda>p w. (Inr 0x1c0, w)),
                  pr_narrow = (\<lambda>p w. (None, w)), pr_kill = (\<lambda>i s w. (None, w)), pr_pid = 42\<rparr>,
      mc_pipe = True, mc_sigaction = (\<lambda>_. True), mc_fs = calm_fs, mc_order = sorted_list_of_set\<rparr>"

lemma recorder_records: "sends_recorded recorder_machine snd"
  by (auto simp: sends_recorded_def records_sends_def recorder_machine_def recorder_os_def procs_keep_def sys_keeps_def
      split: prod.splits)

lemma end_of_dump_messages:
  "messages end_of_dump = [\<lparr>m_kind = NLMSG_DONE, m_flags = 2, m_seq = 2, m_payload = bytes32 0\<rparr>]"
  "length end_of_dump = 20"
  unfolding end_of_dump_def by (simp_all add: messages_request)

lemma recorder_receives:
  "t < deadline \<Longrightarrow> recv_deadline recorder_os deadline S (t, log) = Some (Inr end_of_dump, S, (Suc t, log))"
  by (subst recv_deadline.simps; subst recv_flags.simps) (simp add: recorder_os_def)

lemma recorder_run:
  assumes "20 \<le> b" "Suc t < deadline"
  shows "sock_run_dump recorder_os b want 2 deadline [] S (Suc t, log) = Some (([], Inr Dump_Done), S, (Suc (Suc t), log))"
  using assms by (subst sock_run_dump.simps) (simp add: recorder_receives end_of_dump_messages)

lemma recorder_send: "send_request recorder_os m (t, log) = (None, (t, log @ [m]))"
  by (simp add: send_request_def recorder_os_def)

lemma recorder_dump_into:
  assumes "0 < k" "20 \<le> b" "so_seq S = 1"
  shows "sock_dump_into k recorder_os b req want S (t, log)
    = Some (Inr [], b, S\<lparr>so_seq := 2\<rparr>, (t + 2, log @ [with_seq req 2]))"
proof -
  have "os_now recorder_os (t, log @ [m]) = (t, (Suc t, log @ [m]))" for m by (simp add: recorder_os_def)
  moreover have "Suc t < t + READ_TIMEOUT" by simp
  ultimately show ?thesis
    using assms by (cases k) (simp_all add: recorder_send recorder_run Let_def)
qed

lemma recorder_dump:
  "sock_dump recorder_os req want new_sock (t, log)
    = Some (Inr [], \<lparr>so_seq = 2, so_buf = 65536, so_spoof_warned = False\<rparr>, (t + 2, log @ [with_seq req 2]))"
  by (simp add: sock_dump_def sock_dump_from_def recorder_dump_into take_buf_def new_sock_def)

abbreviation no_links :: topology where "no_links \<equiv> fst (from_links bare_sysfs [] Map.empty)"

abbreviation recorder_env :: "recorder life env" where
  "recorder_env \<equiv> live_env (mc_outside recorder_machine) calm_fs sorted_list_of_set"

lemma nothing_linked: "detected_pairs no_links = []"
  by code_simp

lemma recorder_outside [simp]:
  "ox_cmd (mc_outside recorder_machine) = recorder_os" "ox_sysfs (mc_outside recorder_machine) w = (bare_sysfs, w)"
  by (simp_all add: recorder_machine_def)

lemma recorder_links:
  assumes "link_dump_request = Some req"
  shows "sock_dump_links recorder_os new_sock (t, log)
    = Some (Inr [], \<lparr>so_seq = 2, so_buf = 65536, so_spoof_warned = False\<rparr>, (t + 2, log @ [with_seq req 2]))"
  by (simp add: sock_dump_links_def assms recorder_dump parsed_dump_def List.map_filter_def del: One_nat_def add_2_eq_Suc')

lemma recorder_topology:
  assumes "lv_sock l = new_sock" "lv_facts l = Map.empty" "lv_out l = (t, log)" "link_dump_request = Some req"
  shows "\<exists>l'. live_read_topology (mc_outside recorder_machine) l = Some (Inr no_links, l')
    \<and> lv_out l' = (t + 2, log @ [with_seq req 2])"
  using assms by (auto simp: live_read_topology_def on_sock_def recorder_links split: prod.split)

lemma recorder_reconcile:
  assumes "sy_pairs S = []" "st_disk (sy_store S) = blank_disk" "lv_out l = (t, log)"
  shows "\<exists>S' l'. reconcile recorder_env T False S (Some l) = (Inr ([], []), S', Some l') \<and> snd (lv_out l') = log"
proof -
  have "noted_names blank_disk = []" by code_simp
  moreover have "k_instant (e_kernel recorder_env) (Some l) = (t, Some (l\<lparr>lv_out := (Suc t, log)\<rparr>))"
    using assms by (simp add: live_env_def live_writer_def on_live_def on_out_def recorder_os_def)
  ultimately show ?thesis
    using assms
    by (simp add: reconcile_def drop_orphans_def orphaned_def noted_devices_or_none_def noted_devices_def)
qed

lemma recorder_status:
  assumes "o_mode opts = Status_Mode" "o_pairs opts = []" "lv_out l = (t, log)"
  shows "\<exists>s l'. run_modes recorder_env bare_sysfs facts no_links opts blank_disk (Some l) = (Inr True, Some s, Some l')
    \<and> snd (lv_out l') = log"
proof -
  define S where "S = with_lists opts (fst (limited recorder_env no_links opts (prepared opts [] blank_disk) (Some l)))"
  have fresh: "sy_pairs S = []" "st_disk (sy_store S) = blank_disk"
    and l: "snd (limited recorder_env no_links opts (prepared opts [] blank_disk) (Some l)) = Some l"
    by (auto simp: S_def with_lists_def limited_def apply_card_limits_def prepared_def new_syncer_def filter_carriers_def
        assms Let_def)
  obtain S' l' where "reconcile recorder_env no_links False S (Some l) = (Inr ([], []), S', Some l')" "snd (lv_out l') = log"
    using recorder_reconcile [OF fresh assms(3)] by blast
  then show ?thesis
    using l assms by (simp add: run_modes_def resolve_pairs_def allow_empty_def nothing_linked print_status_def S_def
        case_prod_beta Let_def del: from_links_def)
qed

lemma recorder_opens:
  "pr_read (mc_procs recorder_machine) p w = (Inl ENOENT, w)" "new_socket (mc_sys recorder_machine) w = (Inr (3, new_sock), w)"
  by (simp_all add: recorder_machine_def new_socket_def open_on_def enlarge_buffer_def attach_filter_def)

lemma recorder_runs:
  assumes "parse_args_from False (load_conf (Inl ENOENT) default_options) args = Parsed opts"
    and "o_mode opts = Status_Mode" "o_pairs opts = []" "link_dump_request = Some req"
  shows "\<exists>s t. run recorder_machine args blank_disk (0, []) = Some (Inr True, Some s, (t, [with_seq req 2]))"
proof -
  let ?l = "\<lparr>lv_sock = new_sock, lv_mon = new_sock, lv_flags = no_flags, lv_facts = Map.empty, lv_out = (0::nat, [])\<rparr>"
  obtain l1 where l1: "live_read_topology (mc_outside recorder_machine) ?l = Some (Inr no_links, l1)"
    "lv_out l1 = (2, [with_seq req 2])"
    using recorder_topology [OF _ _ _ assms(4), of ?l 0 "[]"] by auto
  obtain s l' where "run_modes recorder_env bare_sysfs (lv_facts l1) no_links opts blank_disk (Some l1) = (Inr True, Some s, Some l')"
    and sent: "snd (lv_out l') = [with_seq req 2]"
    using recorder_status [OF assms(2,3) l1(2)] by blast
  then have "run_on recorder_machine opts blank_disk ?l = Some (Inr True, Some s, lv_out l')"
    using l1 assms(2) by (simp add: run_on_def recorder_machine_def)
  then show ?thesis
    using assms sent by (cases "lv_out l'") (simp add: run_def recorder_opens)
qed

section \<open>The property\<close>



end
