(* ===== verification/Life_Laws.thy ===== *)
theory Life_Laws
  imports Sweep_Laws Fast_Laws Silent_Laws
begin

text \<open>
  The books over the whole life of the daemon: passes, batches and the end of notes one after the other,
  while interfaces come, go and are made again under their old names.
\<close>

section \<open>Which interface a note claims to be about\<close>

text \<open>By what this process stamped, and by what the file beside the note says.\<close>

definition claims :: "fs \<Rightarrow> store \<Rightarrow> (name \<times> ifindex) set" where
  "claims fs s = {(d, j). st_indices s d = Some j \<or> noted_index fs s d = Some j}"

lemma claims_like:
  "st_indices s' = st_indices s \<Longrightarrow> st_disk s' = st_disk s \<Longrightarrow> claims fs s' = claims fs s"
  by (simp add: claims_def noted_index_def)

lemma recorded_claims: "recorded_index fs s d = Some j \<Longrightarrow> (d, j) \<in> claims fs s"
  by (auto simp: recorded_index_def claims_def split: option.splits)

lemma claims_recorded:
  assumes "single_valued (claims fs s)" "(d, j) \<in> claims fs s"
  shows "recorded_index fs s d = Some j"
  using assms by (fastforce simp: recorded_index_def claims_def single_valued_def split: option.splits)

lemma claims_forget:
  assumes "\<And>d. st_indices s' d = st_indices s d \<or> d = dev \<and> st_indices s' d = None"
    and "\<And>d. file_at (st_disk s') (IndexP d) = file_at (st_disk s) (IndexP d)"
  shows "claims fs s' \<subseteq> claims fs s"
proof
  fix c assume "c \<in> claims fs s'"
  moreover have "noted_index fs s' d = noted_index fs s d" for d by (simp add: noted_index_def assms(2))
  ultimately show "c \<in> claims fs s" using assms(1) [of "fst c"] by (auto simp: claims_def)
qed

lemma claims_removed: "claims fs (remove_note s dev) = {c \<in> claims fs s. fst c \<noteq> dev}"
  by (auto simp: claims_def noted_index_def remove_note_def split: if_splits)

lemma noted_after_put:
  assumes "put_file fs s (IndexP dev) (show_nat (unat i) @ [NL]) = (True, s')"
  shows "noted_index fs s' d = (if d = dev then (if fs_read fs (IndexP dev) then Some i else None) else noted_index fs s d)"
    "st_indices s' = st_indices s"
proof -
  have "trim (show_nat n @ [NL]) = show_nat n" for n
    using trim_no_space [of "show_nat n"] show_nat_no_space by (auto simp: trim_def is_space_def dropWhile_append)
  moreover have "parse_uint 32 (show_nat (unat i)) = Some (unat i)"
    using parse_uint_show_nat [of "unat i" 32] unsigned_less [of i] by simp
  ultimately show "noted_index fs s' d = (if d = dev then (if fs_read fs (IndexP dev) then Some i else None) else noted_index fs s d)"
    "st_indices s' = st_indices s"
    using assms by (auto simp: noted_index_def put_file_def file_at_put_new split: if_splits)
qed

lemma claims_index:
  obtains "claims fs (note_index fs s dev i) = claims fs s" "st_indices s dev = Some i \<or> \<not> fs_put fs (IndexP dev)"
  | "claims fs (note_index fs s dev i) \<subseteq> insert (dev, i) {c \<in> claims fs s. fst c \<noteq> dev}"
proof (cases "st_indices s dev = Some i \<or> \<not> fs_put fs (IndexP dev)")
  case True
  then have "st_indices (note_index fs s dev i) = st_indices s" "st_disk (note_index fs s dev i) = st_disk s"
    by (auto simp: note_index_def put_file_def)
  then have "claims fs (note_index fs s dev i) = claims fs s" by (rule claims_like)
  then show ?thesis using True that(1) by blast
next
  case False
  then obtain s1 where put: "put_file fs s (IndexP dev) (show_nat (unat i) @ [NL]) = (True, s1)"
    by (auto simp: put_file_def)
  have "noted_index fs (s1\<lparr>st_indices := f, st_said := sd\<rparr>) d = noted_index fs s1 d" for f sd d
    by (simp add: noted_index_def)
  then have "claims fs (s1\<lparr>st_indices := (st_indices s1)(dev \<mapsto> i), st_said := sd\<rparr>)
      \<subseteq> insert (dev, i) {c \<in> claims fs s. fst c \<noteq> dev}" for sd
    using noted_after_put [OF put] by (auto simp: claims_def split: if_splits)
  then show ?thesis using False put that(2) by (simp add: note_index_def)
qed

text \<open>After a stamp the note claims to be about the interface it was stamped with, and about no other.\<close>

definition stamped :: "fs \<Rightarrow> name \<Rightarrow> ifindex \<Rightarrow> store \<Rightarrow> store \<Rightarrow> bool" where
  "stamped fs dev i s s' \<longleftrightarrow>
     claims fs s' \<subseteq> claims fs s \<or> claims fs s' \<subseteq> insert (dev, i) {c \<in> claims fs s. fst c \<noteq> dev}"

lemma stamped_index: "stamped fs dev i s (note_index fs s dev i)"
  unfolding stamped_def by (rule claims_index [of fs s dev i]) simp_all

lemma stamped_index_ok:
  assumes "fs_put fs (IndexP dev)" "single_valued (claims fs s)" "(dev, j) \<in> claims fs (note_index fs s dev i)"
  shows "j = i"
proof (rule claims_index [of fs s dev i])
  assume "claims fs (note_index fs s dev i) = claims fs s" "st_indices s dev = Some i \<or> \<not> fs_put fs (IndexP dev)"
  then have "(dev, i) \<in> claims fs s" "(dev, j) \<in> claims fs s" using assms(1,3) by (auto simp: claims_def)
  then show ?thesis using assms(2) by (auto simp: single_valued_def)
qed (use assms(3) in auto)

lemma stamped_single_valued:
  assumes "stamped fs dev i s s'" "single_valued (claims fs s)"
  shows "single_valued (claims fs s')"
proof (rule single_valuedI)
  fix d j k assume c: "(d, j) \<in> claims fs s'" "(d, k) \<in> claims fs s'"
  show "j = k"
  proof (cases "claims fs s' \<subseteq> claims fs s")
    case True
    then show ?thesis using assms(2) c by (auto dest: single_valuedD)
  next
    case False
    then have "claims fs s' \<subseteq> insert (dev, i) {c \<in> claims fs s. fst c \<noteq> dev}" using assms(1) by (simp add: stamped_def)
    then have "(d, j) = (dev, i) \<or> (d, j) \<in> claims fs s \<and> d \<noteq> dev" "(d, k) = (dev, i) \<or> (d, k) \<in> claims fs s \<and> d \<noteq> dev"
      using c by auto
    then show ?thesis using assms(2) by (auto dest: single_valuedD)
  qed
qed

interpretation fewer: record_drop E dev "\<lambda>s s'. claims (e_fs E) s' \<subseteq> claims (e_fs E) s" for E dev
proof
  fix s s' :: store
  show "claims (e_fs E) s' \<subseteq> claims (e_fs E) s"
    if "\<And>d. st_indices s' d = st_indices s d \<or> d = dev \<and> st_indices s' d = None"
      "\<And>d. file_at (st_disk s') (IndexP d) = file_at (st_disk s) (IndexP d)"
    using that by (rule claims_forget)
qed (auto simp: claims_removed)

interpretation stamped: record_law E dev i "stamped (e_fs E) dev i" for E dev i
proof
  fix s t u :: store
  show "stamped (e_fs E) dev i s u" if "stamped (e_fs E) dev i s t" "stamped (e_fs E) dev i t u"
    using that unfolding stamped_def by (elim disjE) force+
  show "stamped (e_fs E) dev i s t"
    if "\<And>d. st_indices t d = st_indices s d \<or> d = dev \<and> st_indices t d = None"
      "\<And>d. file_at (st_disk t) (IndexP d) = file_at (st_disk s) (IndexP d)"
    using claims_forget [OF that] by (simp add: stamped_def)
qed (auto simp: stamped_def claims_removed stamped_index [unfolded stamped_def])

section \<open>The ledger\<close>

text \<open>
  \<open>K\<close> names the interfaces there may ever be, each by the name it wears and its index; a name may come
  back under a new index, an index never changes its name. The ledger: every entry of ours in a card is on
  the note of the name the card's interface wears or wore; and where a note claims to be about another
  interface than this one, this one has no entry of ours.
\<close>

type_synonym ident = "name \<times> ifindex"

definition ledger ::
    "('w \<Rightarrow> ifindex \<Rightarrow> mac set) \<Rightarrow> (ifindex \<Rightarrow> mac set) \<Rightarrow> ident set \<Rightarrow> fs \<Rightarrow> store \<times> 'w \<Rightarrow> bool" where
  "ledger held base K fs x \<longleftrightarrow>
     coherent (fst x) \<and> (\<forall>d. tidy (text_at (fst x) d)) \<and> single_valued (claims fs (fst x))
     \<and> (\<forall>d j. (d, j) \<in> claims fs (fst x) \<longrightarrow> j \<in> snd ` K \<longrightarrow> (d, j) \<in> K)
     \<and> (\<forall>d i. (d, i) \<in> K \<longrightarrow> held (snd x) i \<subseteq> base i \<union> note_of (fst x) d)
     \<and> (\<forall>d i j. (d, i) \<in> K \<longrightarrow> (d, j) \<in> claims fs (fst x) \<longrightarrow> j \<noteq> i \<longrightarrow> held (snd x) i \<subseteq> base i)"

lemma ledgerD:
  assumes "ledger held base K fs x"
  shows "coherent (fst x)" "tidy (text_at (fst x) d)" "single_valued (claims fs (fst x))"
    "(d, j) \<in> claims fs (fst x) \<Longrightarrow> j \<in> snd ` K \<Longrightarrow> (d, j) \<in> K"
    "(d, i) \<in> K \<Longrightarrow> held (snd x) i \<subseteq> base i \<union> note_of (fst x) d"
    "(d, i) \<in> K \<Longrightarrow> (d, j) \<in> claims fs (fst x) \<Longrightarrow> j \<noteq> i \<Longrightarrow> held (snd x) i \<subseteq> base i"
  using assms unfolding ledger_def by blast+

text \<open>A reading that agrees with \<open>K\<close>, and the ledger with nothing of ours in an interface it does not show.\<close>

definition shown :: "topology \<Rightarrow> ident set" where
  "shown T = {(d, i). \<exists>l. get T d = Some l \<and> l_index l = i}"

definition agrees :: "ident set \<Rightarrow> topology \<Rightarrow> bool" where
  "agrees K T \<longleftrightarrow> inj_on snd K \<and> shown T \<subseteq> K \<and> (\<forall>i l. at T i = Some l \<longrightarrow> l_index l = i \<and> (l_name l, i) \<in> K)"

definition ledger_at ::
    "('w \<Rightarrow> ifindex \<Rightarrow> mac set) \<Rightarrow> (ifindex \<Rightarrow> mac set) \<Rightarrow> ident set \<Rightarrow> fs \<Rightarrow> topology \<Rightarrow> store \<times> 'w \<Rightarrow> bool" where
  "ledger_at held base K fs T x \<longleftrightarrow>
     ledger held base K fs x \<and> (\<forall>d i. (d, i) \<in> K \<longrightarrow> (d, i) \<notin> shown T \<longrightarrow> held (snd x) i \<subseteq> base i)"

lemma agreesD:
  assumes "agrees K T"
  shows "(d, i) \<in> K \<Longrightarrow> (e, i) \<in> K \<Longrightarrow> d = e" "(d, i) \<in> shown T \<Longrightarrow> (d, i) \<in> K" "at T i = Some l \<Longrightarrow> l_index l = i"
    "at T i = Some l \<Longrightarrow> (l_name l, i) \<in> K" "(d, i) \<in> shown T \<Longrightarrow> (d, j) \<in> shown T \<Longrightarrow> i = j"
proof -
  have "inj_on snd K" using assms by (simp add: agrees_def)
  then show "(d, i) \<in> K \<Longrightarrow> (e, i) \<in> K \<Longrightarrow> d = e" using inj_onD [of snd K "(d, i)" "(e, i)"] by simp
qed (use assms in \<open>auto simp: agrees_def shown_def\<close>)

lemma ledger_at_shrinks:
  assumes "ledger_at held base K fs T (s, w)" "\<And>i. held w' i \<subseteq> held w i"
  shows "ledger_at held base K fs T (s, w')"
proof -
  have "held w' i \<subseteq> X" if "held w i \<subseteq> X" for i X using assms(2) [of i] that by blast
  then show ?thesis using assms(1) unfolding ledger_at_def ledger_def by (simp; blast)
qed

lemma ledger_at_like:
  assumes "ledger_at held base K fs T (s, w)" "st_disk s' = st_disk s" "st_notes s' = st_notes s" "st_indices s' = st_indices s"
  shows "ledger_at held base K fs T (s', w)"
proof -
  have "claims fs s' = claims fs s" using assms(2,4) by (rule claims_like [rotated])
  moreover have "text_at s' d = text_at s d" "note_of s' d = note_of s d" for d
    using assms(2) by (simp_all add: text_at_def note_of_def)
  moreover have "coherent s' = coherent s" using assms(2,3) by (simp add: coherent_def note_of_def text_at_def)
  ultimately show ?thesis using assms(1) by (simp add: ledger_at_def ledger_def)
qed

text \<open>One uplink's turn: its books kept, its record stamped or not, and no other note or card touched.\<close>

lemma ledger_turn:
  assumes led: "ledger_at held base K fs T (s, w)" and T: "agrees K T" and here: "(dev, i) \<in> shown T"
    and acc: "accounted held (base i) dev i (s', w')" and only: "only_here held dev i (s, w) (s', w')"
    and st: "stamped fs dev i s s'" and about: "\<And>j. (dev, j) \<in> claims fs s' \<Longrightarrow> j \<noteq> i \<Longrightarrow> held w' i \<subseteq> base i"
  shows "ledger_at held base K fs T (s', w')"
proof -
  have L: "ledger held base K fs (s, w)" and gone: "\<And>d j. (d, j) \<in> K \<Longrightarrow> (d, j) \<notin> shown T \<Longrightarrow> held w j \<subseteq> base j"
    using led by (simp_all add: ledger_at_def)
  note D = ledgerD [OF L, unfolded fst_conv snd_conv] and A = agreesD [OF T]
  have new: "c \<in> claims fs s \<or> c = (dev, i)" if "c \<in> claims fs s'" for c using st that by (auto simp: stamped_def)
  have away: "held w' j = held w j" if "j \<noteq> i" for j using only that by (simp add: only_here_def)
  have texts: "text_at s' d = text_at s d" if "d \<noteq> dev" for d using only that by (simp add: only_here_def)
  have out: "held w j \<subseteq> base j" if "(dev, j) \<in> K" "j \<noteq> i" for j using gone [OF that(1)] A(5) [OF here] that(2) by blast
  have "single_valued (claims fs s')" by (rule stamped_single_valued [OF st D(3)])
  moreover have "tidy (text_at s' d)" for d using texts [of d] D(2) acc by (cases "d = dev") (simp_all add: accounted_def)
  moreover have "(d, j) \<in> K" if "(d, j) \<in> claims fs s'" "j \<in> snd ` K" for d j
    using new [OF that(1)] D(4) that(2) A(2) [OF here] by blast
  moreover have "held w' j \<subseteq> base j \<union> note_of s' d" if "(d, j) \<in> K" for d j
  proof (cases "j = i")
    case True
    then show ?thesis using acc A(1) [OF A(2) [OF here], of d] that by (simp add: accounted_def)
  next
    case False
    show ?thesis
      using D(5) [OF that] out [of j] texts [of d] that away [OF False] False by (cases "d = dev") (auto simp: note_of_def)
  qed
  moreover have "held w' j \<subseteq> base j" if "(d, j) \<in> K" "(d, k) \<in> claims fs s'" "k \<noteq> j" for d j k
  proof (cases "j = i")
    case True
    then show ?thesis using about [of k] A(1) [OF A(2) [OF here], of d] that by simp
  next
    case False
    show ?thesis
      using out [of j] D(6) [OF that(1) _ that(3)] new [OF that(2)] that(1) away [OF False] False by (cases "d = dev") auto
  qed
  moreover have "held w' j \<subseteq> base j" if "(d, j) \<in> K" "(d, j) \<notin> shown T" for d j
    using gone [OF that] that here A(1) [OF A(2) [OF here], of d] away [of j] by (cases "j = i") auto
  ultimately show ?thesis using acc by (simp add: ledger_at_def ledger_def accounted_def)
qed

section \<open>A batch\<close>

text \<open>
  What a step of an uplink's turn does to the record: after it either the card has no more than before, or
  the note claims to be about this interface and no other.
\<close>

definition entered :: "'w env \<Rightarrow> ('w \<Rightarrow> ifindex \<Rightarrow> mac set) \<Rightarrow> name \<Rightarrow> ifindex \<Rightarrow> store \<times> 'w \<Rightarrow> store \<times> 'w \<Rightarrow> bool" where
  "entered E held dev i x y \<longleftrightarrow>
     (lawful E held \<and> (\<forall>d. fs_put (e_fs E) (IndexP d)) \<longrightarrow>
      stamped (e_fs E) dev i (fst x) (fst y)
      \<and> (single_valued (claims (e_fs E) (fst x)) \<longrightarrow>
         held (snd y) i \<subseteq> held (snd x) i \<or> (\<forall>j. (dev, j) \<in> claims (e_fs E) (fst y) \<longrightarrow> j = i)))"

lemma entered_trans:
  assumes "entered E held dev i x y" "entered E held dev i y z"
  shows "entered E held dev i x z"
  unfolding entered_def
proof (intro impI conjI)
  assume law: "lawful E held \<and> (\<forall>d. fs_put (e_fs E) (IndexP d))"
  then have xy: "stamped (e_fs E) dev i (fst x) (fst y)" and yz: "stamped (e_fs E) dev i (fst y) (fst z)"
    using assms by (simp_all add: entered_def)
  then show "stamped (e_fs E) dev i (fst x) (fst z)" by (rule stamped.trans)
  assume sv: "single_valued (claims (e_fs E) (fst x))"
  then have sv2: "single_valued (claims (e_fs E) (fst y))" using stamped_single_valued [OF xy] by blast
  show "held (snd z) i \<subseteq> held (snd x) i \<or> (\<forall>j. (dev, j) \<in> claims (e_fs E) (fst z) \<longrightarrow> j = i)"
    using law sv2 sv assms yz unfolding entered_def stamped_def by auto
qed

lemma entered_fewer:
  assumes "claims (e_fs E) s' \<subseteq> claims (e_fs E) s" "lawful E held \<Longrightarrow> held w' i \<subseteq> held w i"
  shows "entered E held dev i (s, w) (s', w')"
  using assms by (simp add: entered_def stamped_def)

interpretation entered: turn_law E dev i "entered E held dev i" for E dev i held
proof
  fix s w w' S T t f now j cache q cache' ms
  show "entered E held dev i (s, w) (snd (load_owned (e_fs E) s dev), w)" by (rule entered_fewer [OF fewer.load]) simp
  show "entered E held dev i (sy_store S, w) (sy_store (save_ports (e_fs E) T dev t S), w)"
    by (rule entered_fewer [OF fewer.ports]) simp
  show "entered E held dev i (sy_store S, w) (sy_store (map_said f S), w)"
    by (rule entered_fewer) (simp_all add: fewer.said)
  show "entered E held dev i (s, w) (s, w')" if "k_boot_millis (e_kernel E) w = (now, w')"
    using asking_is_harmlessD(1) [OF _ that, of held] by (intro entered_fewer) (simp_all add: lawful_def)
  show "entered E held dev i (s, w) (s, w')" if "read_back (e_kernel E) j cache w = (q, cache', w')"
    using read_back_world [OF _ that, of held] by (intro entered_fewer) (simp_all add: lawful_def)
  obtain out s1 w1 where rt: "retire E dev i ms s w = (out, s1, w1)" by (cases "retire E dev i ms s w") auto
  have few_out: "claims (e_fs E) s1 \<subseteq> claims (e_fs E) s" using fewer.retire rt by (metis fst_conv snd_conv)
  have "lawful E held \<Longrightarrow> held w1 i \<subseteq> held w i"
    using rt retire_loop_card [of "e_kernel E" held i ms w] by (auto simp: retire_def lawful_def split: prod.splits)
  then show "entered E held dev i (s, w) (snd (retire E dev i ms s w))"
    using entered_fewer [OF few_out, of held w1 i w dev] rt by simp
  obtain r s2 w2 where rg: "register_batch_locked E dev i ms (note_index (e_fs E) s dev i) w = (r, s2, w2)"
    by (cases "register_batch_locked E dev i ms (note_index (e_fs E) s dev i) w") auto
  have few: "claims (e_fs E) s2 \<subseteq> claims (e_fs E) (note_index (e_fs E) s dev i)"
    using fewer.register rg by (metis fst_conv snd_conv)
  then have "stamped (e_fs E) dev i (note_index (e_fs E) s dev i) s2" by (simp add: stamped_def)
  then have "stamped (e_fs E) dev i s s2" by (rule stamped.trans [OF stamped_index])
  then show "entered E held dev i (s, w) (snd (register_batch_locked E dev i ms (note_index (e_fs E) s dev i) w))"
    using few stamped_index_ok [of "e_fs E" dev s _ i] by (auto simp: entered_def rg)
next
  fix x y z
  show "entered E held dev i x z" if "entered E held dev i x y" "entered E held dev i y z"
    by (rule entered_trans [OF that])
qed (simp add: entered_def stamped_def)

text \<open>What the code is on: cards and kernel that keep the laws, and a state directory that takes the records.\<close>

definition sure :: "'w env \<Rightarrow> ('w \<Rightarrow> ifindex \<Rightarrow> mac set) \<Rightarrow> bool" where
  "sure E held \<longleftrightarrow> lawful E held \<and> honest_order E \<and> (\<forall>d. fs_put (e_fs E) (IndexP d))"

abbreviation kept_ledger ::
    "'w env \<Rightarrow> ('w \<Rightarrow> ifindex \<Rightarrow> mac set) \<Rightarrow> (ifindex \<Rightarrow> mac set) \<Rightarrow> ident set \<Rightarrow> topology \<Rightarrow> store \<times> 'w \<Rightarrow> bool" where
  "kept_ledger E held base K T x \<equiv> sure E held \<longrightarrow> agrees K T \<longrightarrow> ledger_at held base K (e_fs E) T x"

lemma ledger_accounted:
  "ledger_at held base K fs T (s, w) \<Longrightarrow> agrees K T \<Longrightarrow> (dev, i) \<in> shown T \<Longrightarrow> accounted held (base i) dev i (s, w)"
  using agreesD(2) ledgerD by (fastforce simp: accounted_def ledger_at_def)

lemma ledger_entered:
  assumes "sure E held" "agrees K T" "(dev, i) \<in> shown T" "ledger_at held base K (e_fs E) T (s, w)"
    and "turn_kept E held (base i) dev i (s, w) (s', w')" "entered E held dev i (s, w) (s', w')"
  shows "ledger_at held base K (e_fs E) T (s', w')"
proof -
  have law: "lawful E held" "\<And>d. fs_put (e_fs E) (IndexP d)" using assms(1) by (simp_all add: sure_def)
  have L: "ledger held base K (e_fs E) (s, w)" using assms(4) by (simp add: ledger_at_def)
  have mem: "(dev, i) \<in> K" by (rule agreesD(2) [OF assms(2,3)])
  have "accounted held (base i) dev i (s, w)" by (rule ledger_accounted [OF assms(4,2,3)])
  then have acc: "accounted held (base i) dev i (s', w')" "only_here held dev i (s, w) (s', w')"
    using assms(5) law(1) by (simp_all add: turn_kept_def)
  have st: "stamped (e_fs E) dev i s s'"
    and re: "held w' i \<subseteq> held w i \<or> (\<forall>j. (dev, j) \<in> claims (e_fs E) s' \<longrightarrow> j = i)"
    using assms(6) law ledgerD(3) [OF L] by (simp_all add: entered_def)
  have "held w' i \<subseteq> base i" if j: "(dev, j) \<in> claims (e_fs E) s'" "j \<noteq> i" for j
  proof -
    have "(dev, j) \<in> claims (e_fs E) s" using st j by (auto simp: stamped_def)
    then have "held w i \<subseteq> base i" using ledgerD(6) [OF L mem] j(2) by simp
    then show ?thesis using re j by blast
  qed
  then show ?thesis using ledger_turn [OF assms(4,2,3) acc st] by blast
qed

lemma ledger_fewer:
  assumes led: "ledger_at held base K fs T (s, w)" and un: "undisturbed s s'" and few: "claims fs s' \<subseteq> claims fs s"
  shows "ledger_at held base K fs T (s', w)"
proof -
  have L: "ledger held base K fs (s, w)" using led by (simp add: ledger_at_def)
  note D = ledgerD [OF L, unfolded fst_conv snd_conv] and U = undisturbedD [OF un]
  have "single_valued (claims fs s')" using D(3) few by (rule single_valued_subset [rotated])
  moreover have "(d, j) \<in> K" if "(d, j) \<in> claims fs s'" "j \<in> snd ` K" for d j using D(4) few that by blast
  moreover have "held w i \<subseteq> base i" if "(d, i) \<in> K" "(d, j) \<in> claims fs s'" "j \<noteq> i" for d i j using D(6) few that by blast
  ultimately show ?thesis using led D(1,2,5) U by (simp add: ledger_at_def ledger_def)
qed

lemma ledger_load:
  fixes E :: "'w env"
  assumes "ledger_at held base K (e_fs E) T (s, w)"
  shows "ledger_at held base K (e_fs E) T (snd (load_owned (e_fs E) s dev), w)"
proof (rule ledger_fewer [OF assms])
  have "coherent s" using assms by (simp add: ledger_at_def ledger_def)
  then show "undisturbed s (snd (load_owned (e_fs E) s dev))" by (rule undisturbed_load)
  show "claims (e_fs E) (snd (load_owned (e_fs E) s dev)) \<subseteq> claims (e_fs E) s" by (rule fewer.load)
qed

lemma ledger_same:
  assumes "ledger_at held base K fs T (s, w)" "held w' = held w"
  shows "ledger_at held base K fs T (s, w')"
  by (rule ledger_at_shrinks [OF assms(1)]) (simp add: assms(2))

interpretation entries: batch_law E T "shown T" "kept_ledger E held base K T" for E T held base K
proof
  fix ms fp u S w u' S' w' ls cache r cache' s dev now j q pfs a
  have sure: "lawful E held" if "sure E held" using that by (simp add: sure_def)
  show "kept_ledger E held base K T (sy_store S', w')"
    if "reflect_pair E T ms fp u S w = (u', S', w')" "key fp \<in> shown T" "kept_ledger E held base K T (sy_store S, w)"
    using that(3) ledger_entered [OF _ _ that(2) [unfolded key_def] _ kept.reflect [OF that(1) HOL.refl HOL.refl]
        entered.reflect [OF that(1) HOL.refl HOL.refl]] by simp
  show "kept_ledger E held base K T (sy_store S', w')"
    if "register_learns E T fp ls cache S w = (r, cache', S', w')" "key fp \<in> shown T"
      "kept_ledger E held base K T (sy_store S, w)"
    using that(3) ledger_entered [OF _ _ that(2) [unfolded key_def] _ kept.learns [OF that(1) HOL.refl HOL.refl]
        entered.learns [OF that(1) HOL.refl HOL.refl]] by simp
  show "kept_ledger E held base K T (snd (load_owned (e_fs E) s dev), w)" if "kept_ledger E held base K T (s, w)"
    using that by (simp add: ledger_load)
  show "kept_ledger E held base K T (s, w')"
    if "k_boot_millis (e_kernel E) w = (now, w')" "kept_ledger E held base K T (s, w)"
    using that(2) asking_is_harmlessD(1) [OF _ that(1), of held] ledger_same by (auto simp: sure_def lawful_def)
  show "kept_ledger E held base K T (s, w')"
    if "read_back (e_kernel E) j cache w = (q, cache', w')" "kept_ledger E held base K T (s, w)"
    using that(2) read_back_world [OF _ that(1), of held] ledger_same by (auto simp: sure_def lawful_def)
  show "kept_ledger E held base K T (s, w')"
    if "k_vf_macs_of (e_kernel E) pfs w = (a, w')" "kept_ledger E held base K T (s, w)"
    using that(2) asking_is_harmlessD(2) [OF _ that(1), of held] ledger_same by (auto simp: sure_def lawful_def)
qed

lemma anatomy_live: "anatomy_of T i br = Some an \<Longrightarrow> a_dev an = i \<and> at T i \<noteq> None"
  by (auto simp: anatomy_of_def uplink_port_def bridge_above_def bridge_loop.simps [of T i "{}"] Let_def
      split: option.splits)

lemma uplinks_live: "agrees K T \<Longrightarrow> set (uplinks S T) \<subseteq> shown T"
  using anatomy_live agreesD(3)
  by (fastforce simp: uplinks_def fast_pairs_def fast_pair_of_def set_map_filter_eq key_def shown_def get_def index_of_def
      split: option.splits)

lemma batch_ledger:
  assumes "sure E held" "agrees K T" "ledger_at held base K (e_fs E) T (sy_store S, w)" "fast_apply E T evs S w = (r, S', w')"
  shows "ledger_at held base K (e_fs E) T (sy_store S', w')"
  using entries.applied [OF uplinks_live [OF assms(2)] _ assms(4), of held K base] assms(1-3) by blast

section \<open>The end of a note\<close>

lemma ledger_sweep:
  assumes sure: "sure E held" and T: "agrees K T" and led: "ledger_at held base K (e_fs E) T (s, w)"
    and run: "sweep_orphan E T dev s w = (gone, s', w')"
  shows "ledger_at held base K (e_fs E) T (s', w')"
proof -
  have laws: "card_laws (e_kernel E) held" "honest_order E" using sure by (simp_all add: sure_def lawful_def)
  have L: "ledger held base K (e_fs E) (s, w)"
    and away: "\<And>d j. (d, j) \<in> K \<Longrightarrow> (d, j) \<notin> shown T \<Longrightarrow> held w j \<subseteq> base j" using led by (simp_all add: ledger_at_def)
  note D = ledgerD [OF L, unfolded fst_conv snd_conv] and A = agreesD [OF T]
  have s: "sound_note s dev" using D(1,2) by blast
  obtain owned s1 n kept where ld: "load_owned (e_fs E) (locked (e_fs E) s dev) dev = (owned, s1)"
    and sh: "s' = remove_note s1 dev \<or> s' = snd (write_owned (e_fs E) s1 dev kept) \<or> s' = s1"
    using orphan_shape [OF run laws(2)] by metis
  note F = swept_frame [OF D(1) ld sh]
  have few1: "claims (e_fs E) s1 \<subseteq> claims (e_fs E) s"
    using fewer.trans [OF fewer.basic(2) fewer.load] ld by (metis snd_conv)
  have few: "claims (e_fs E) s' \<subseteq> claims (e_fs E) s"
    using sh fewer.trans [OF few1 fewer.removes] fewer.trans [OF few1 fewer.write_note] few1 by blast
  let ?t = "orphan_target E T dev s"
  have t: "(dev, j) \<in> shown T" if "?t = Some j" for j
    using that by (auto simp: orphan_target_def noted_link_def shown_def split: option.splits if_splits)
  note others = orphan.others [OF laws s run] and takes = orphan.takes [OF laws s run]
  have less: "held w' j \<subseteq> held w j" for j using others [of j] takes [of j] by (cases "?t = Some j") auto
  have lost: "held w j \<subseteq> base j" if mem: "(dev, j) \<in> K" and no: "?t \<noteq> Some j" for j
  proof (cases "(dev, j) \<in> shown T")
    case True
    then obtain k where "recorded_index (e_fs E) s1 dev = Some k" "k \<noteq> j"
      using no ld by (auto simp: orphan_target_def noted_link_def shown_def split: option.splits if_splits)
    then show ?thesis using D(6) [OF mem, of k] recorded_claims few1 by blast
  qed (use away [OF mem] in simp)
  have "single_valued (claims (e_fs E) s')" using D(3) few by (rule single_valued_subset [rotated])
  moreover have "tidy (text_at s' d)" for d
    using orphan.sound [OF laws s run] F(2) [of d] D(2) [of d] by (cases "d = dev") (simp_all add: text_at_def)
  moreover have "held w' j \<subseteq> base j \<union> note_of s' d" if "(d, j) \<in> K" for d j
  proof (cases "d = dev")
    case False
    then have "note_of s' d = note_of s d" using F(2) by (simp add: note_of_def text_at_def)
    then show ?thesis using D(5) [OF that] less [of j] by blast
  next
    case dev: True
    show ?thesis
    proof (cases "?t = Some j")
      case True
      then show ?thesis
        using orphan.keeps_accounted [OF laws ledger_accounted [OF led T t [OF True]] run True] dev
        by (simp add: accounted_def)
    qed (use lost [of j] that dev less [of j] in blast)
  qed
  moreover have "held w' j \<subseteq> base j" if "(d, j) \<in> K" "(d, k) \<in> claims (e_fs E) s'" "k \<noteq> j" for d j k
    using D(6) [OF that(1) _ that(3)] few that(2) less [of j] by blast
  moreover have "held w' j \<subseteq> base j" if "(d, j) \<in> K" "(d, j) \<notin> shown T" for d j using away [OF that] less [of j] by blast
  ultimately show ?thesis using F(1) D(4) few unfolding ledger_at_def ledger_def fst_conv snd_conv by blast
qed

lemma like_store [simp]:
  "st_disk (sy_store (forget_device dev b S)) = st_disk (sy_store S)"
  "st_notes (sy_store (forget_device dev b S)) = st_notes (sy_store S)"
  "st_indices (sy_store (forget_device dev b S)) = st_indices (sy_store S)"
  "st_disk (say_index dev s) = st_disk s" "st_notes (say_index dev s) = st_notes s" "st_indices (say_index dev s) = st_indices s"
  by (simp_all add: forget_device_def say_index_def)

lemma ledger_take_out:
  assumes "sure E held" "agrees K T" "ledger_at held base K (e_fs E) T (sy_store S, w)"
    and "take_out_orphan E T apply_it dev S w = (fails, S', w')"
  shows "ledger_at held base K (e_fs E) T (sy_store S', w')"
proof (cases "\<not> apply_it \<or> sy_dry_run S")
  case True
  then show ?thesis using assms(3,4) ledger_load by (auto simp: take_out_orphan_def)
next
  case False
  obtain gone fs s1 w1 where run: "drop_orphan_locked E T dev (sy_store S) w = (gone, fs, s1, w1)" by (metis prod_cases4)
  have "ledger_at held base K (e_fs E) T (s1, w1)"
    by (rule ledger_sweep [OF assms(1-3), of dev gone]) (simp add: sweep_orphan_def run)
  then show ?thesis using assms(4) False by (auto simp: take_out_orphan_def run elim: ledger_at_like)
qed

lemma no_rename:
  assumes "agrees K T" "ledger held base K fs x"
  shows "renamed_target fs T dev (fst x) = None"
proof (rule ccontr)
  assume "renamed_target fs T dev (fst x) \<noteq> None"
  then obtain i l where i: "noted_index fs (fst x) dev = Some i" "at T i = Some l" "l_name l \<noteq> dev"
    by (auto simp: renamed_target_def split: option.splits if_splits)
  have "(l_name l, i) \<in> K" using agreesD(4) [OF assms(1) i(2)] .
  moreover from this have "(dev, i) \<in> K" using ledgerD(4) [OF assms(2)] i(1) by (force simp: claims_def)
  ultimately show False using agreesD(1) [OF assms(1)] i(3) by blast
qed

lemma ledger_drop_orphan:
  assumes "sure E held" "agrees K T" "ledger_at held base K (e_fs E) T (sy_store S, w)"
    and "drop_orphan E T apply_it dev S w = (fails, S', w')"
  shows "ledger_at held base K (e_fs E) T (sy_store S', w')"
proof -
  have L: "ledger held base K (e_fs E) (sy_store S, w)" using assms(3) by (simp add: ledger_at_def)
  obtain owned s1 where ld: "load_owned (e_fs E) (sy_store S) dev = (owned, s1)" by fastforce
  have led: "ledger_at held base K (e_fs E) T (s1, w)" using ledger_load [OF assms(3), of dev] ld by simp
  consider "take_out_orphan E T apply_it dev S w = (fails, S', w')"
    | "take_out_orphan E T apply_it dev (with_store S s1) w = (fails, S', w')"
    | "S' = with_store (with_store S s1) (say_index dev s1)" "w' = w"
    using assms(4) no_rename [OF assms(2) L, of dev] ld by (auto simp: drop_orphan_def Let_def split: if_splits)
  then show ?thesis
  proof cases
    case 2
    show ?thesis by (rule ledger_take_out [OF assms(1,2) _ 2]) (simp add: led)
  qed (use ledger_take_out [OF assms(1-3)] led in \<open>auto elim: ledger_at_like\<close>)
qed

lemma ledger_drop_list:
  "drop_orphan_list E T apply_it devs S w = (fails, S', w') \<Longrightarrow> sure E held \<Longrightarrow> agrees K T
    \<Longrightarrow> ledger_at held base K (e_fs E) T (sy_store S, w) \<Longrightarrow> ledger_at held base K (e_fs E) T (sy_store S', w')"
proof (induction devs arbitrary: S w fails)
  case (Cons dev devs)
  obtain f1 S1 w1 where one: "drop_orphan E T apply_it dev S w = (f1, S1, w1)" by (metis prod_cases3)
  obtain f2 S2 w2 where rest: "drop_orphan_list E T apply_it devs S1 w1 = (f2, S2, w2)" by (metis prod_cases3)
  then have eq: "S' = S2" "w' = w2" using Cons.prems(1) one by simp_all
  show ?case
    using Cons.IH [OF rest [folded eq] Cons.prems(2,3) ledger_drop_orphan [OF Cons.prems(2-4) one]] .
qed simp

section \<open>A pass\<close>

lemma ledger_drop_note:
  assumes led: "ledger_at held base K fs T (s, w)" and clean: "\<And>i. (dev, i) \<in> shown T \<Longrightarrow> held w i \<subseteq> base i"
  shows "ledger_at held base K fs T (remove_note s dev, w)"
proof -
  have L: "ledger held base K fs (s, w)"
    and away: "\<And>d j. (d, j) \<in> K \<Longrightarrow> (d, j) \<notin> shown T \<Longrightarrow> held w j \<subseteq> base j" using led by (simp_all add: ledger_at_def)
  note D = ledgerD [OF L, unfolded fst_conv snd_conv]
  have few: "claims fs (remove_note s dev) \<subseteq> claims fs s" by (auto simp: claims_removed)
  have txts: "text_at (remove_note s dev) d = (if d = dev then [] else text_at s d)" for d
    by (simp add: text_at_def remove_note_def)
  have "single_valued (claims fs (remove_note s dev))" using D(3) few by (rule single_valued_subset [rotated])
  moreover have "tidy (text_at (remove_note s dev) d)" for d using D(2) by (simp add: txts tidy_def)
  moreover have "held w j \<subseteq> base j \<union> note_of (remove_note s dev) d" if "(d, j) \<in> K" for d j
    using D(5) [OF that] away [OF that] clean [of j] by (cases "d = dev") (auto simp: note_of_def txts)
  moreover have "held w j \<subseteq> base j" if "(d, j) \<in> K" "(d, k) \<in> claims fs (remove_note s dev)" "k \<noteq> j" for d j k
    using D(6) [OF that(1) _ that(3)] few that(2) by blast
  moreover have "(d, j) \<in> K" if "(d, j) \<in> claims fs (remove_note s dev)" "j \<in> snd ` K" for d j
    using D(4) [OF _ that(2)] few that(1) by blast
  ultimately show ?thesis
    using away coherent_remove_note [OF D(1)] by (simp add: ledger_at_def ledger_def del: split_paired_All)
qed

text \<open>Where the note is about another interface the pass takes it away and goes on as if it had never been.\<close>

lemma settled_pair:
  assumes "get T (p_dev p) = Some dl" "settle_identity E T apply_it (p_dev p) (l_index dl) S w = (True, S1, w1)"
    "settle_identity E T apply_it (p_dev p) (l_index dl) S1 w1 = (True, S1, w1)"
  shows "reconcile_pair E T apply_it pfs fdb pass_at p vf S w = (Inr (None, [], vf), S, w)
    \<or> reconcile_pair E T apply_it pfs fdb pass_at p vf S w = reconcile_pair E T apply_it pfs fdb pass_at p vf S1 w1"
  using assms by (auto simp: reconcile_pair_def split: option.split)

lemma pair_stamped:
  assumes "get T (p_dev p) = Some dl" "note_is_about (e_fs E) (sy_store S) (p_dev p) (l_index dl)"
    and run: "reconcile_pair E T apply_it pfs fdb pass_at p vf S w = (r, S', w')"
  shows "stamped (e_fs E) (p_dev p) (l_index dl) (sy_store S) (sy_store S')"
proof (cases "\<exists>br an. index_of T (p_bridge p) = Some br \<and> anatomy_of T (l_index dl) br = Some an")
  case False
  then have "S' = S" using run assms(1) by (auto simp: reconcile_pair_def split: option.splits)
  then show ?thesis by (simp add: stamped.basic(1))
next
  case True
  then obtain br an where an: "index_of T (p_bridge p) = Some br" "anatomy_of T (l_index dl) br = Some an" by blast
  have go: "settle_identity E T apply_it (p_dev p) (l_index dl) S w = (True, S, w)"
    using assms(2) by (auto simp: settle_identity_def note_is_about_def)
  obtain S1 w1 where ports: "load_ports E T (p_dev p) S w = (S1, w1)" by fastforce
  obtain ob s2 where ld: "load_owned (e_fs E) (sy_store S1) (p_dev p) = (ob, s2)" by fastforce
  obtain r3 S3 w3 where dec: "decide_wanted E T (p_dev p) an pfs fdb ob (self_list fdb (l_index dl)) vf (with_store S1 s2) w1
      = (r3, S3, w3)" by (metis prod_cases3)
  have "sy_store S1 = sy_store S" using ports store_of_memory(3) by (metis fst_conv)
  moreover have "sy_store S3 = s2"
    using dec by (auto simp: decide_wanted_def remember_vf_def Let_def split: if_splits prod.splits sum.splits)
  ultimately have st: "stamped (e_fs E) (p_dev p) (l_index dl) (sy_store S) (sy_store S3)"
    using stamped.load [of E "p_dev p" "l_index dl" "sy_store S" "e_fs E"] ld by simp
  show ?thesis
  proof (cases r3)
    case (Inl e)
    then show ?thesis using run assms(1) an go ports ld dec st by (simp add: reconcile_pair_def)
  next
    case (Inr x)
    then obtain d vfs carried where x: "r3 = Inr (d, vfs, carried)" by (cases x) auto
    obtain rep fails S4 w4 where
      fin: "finish_pair E T apply_it p dl an fdb pass_at ob (note_is_readable s2 (p_dev p)) d vfs S3 w3 = (rep, fails, S4, w4)"
      by (metis prod_cases4)
    have "S' = S4" using run assms(1) an go ports ld dec x fin by (simp add: reconcile_pair_def)
    then show ?thesis using stamped.trans [OF st stamped.finish [OF HOL.refl HOL.refl fin]] by simp
  qed
qed

lemma ledger_settled_pair:
  assumes sure: "sure E held" and T: "agrees K T" and led: "ledger_at held base K (e_fs E) T (sy_store S, w)"
    and dl: "get T (p_dev p) = Some dl" and about: "note_is_about (e_fs E) (sy_store S) (p_dev p) (l_index dl)"
    and run: "reconcile_pair E T apply_it pfs fdb pass_at p vf S w = (r, S', w')"
  shows "ledger_at held base K (e_fs E) T (sy_store S', w')"
proof -
  have laws: "card_laws (e_kernel E) held" "asking_is_harmless (e_kernel E) held" "honest_order E" "whole_appends (e_fs E)"
    using sure by (simp_all add: sure_def lawful_def)
  have here: "(p_dev p, l_index dl) \<in> shown T" using dl by (simp add: shown_def)
  note acc = ledger_accounted [OF led T here]
  note turn = reconcile_pair_spec [OF laws dl about acc run] and st = pair_stamped [OF dl about run]
  have "j = l_index dl" if "(p_dev p, j) \<in> claims (e_fs E) (sy_store S')" for j
  proof -
    have "(p_dev p, j) \<in> claims (e_fs E) (sy_store S) \<or> j = l_index dl" using st that by (auto simp: stamped_def)
    moreover have "single_valued (claims (e_fs E) (sy_store S))" using led by (simp add: ledger_at_def ledger_def)
    ultimately show ?thesis using claims_recorded [of "e_fs E" "sy_store S" "p_dev p" j] about by (auto simp: note_is_about_def)
  qed
  then show ?thesis using ledger_turn [OF led T here _ _ st, of w'] turn by blast
qed

lemma ledger_pair:
  assumes sure: "sure E held" and T: "agrees K T" and led: "ledger_at held base K (e_fs E) T (sy_store S, w)"
    and run: "reconcile_pair E T apply_it pfs fdb pass_at p vf S w = (r, S', w')"
  shows "ledger_at held base K (e_fs E) T (sy_store S', w')"
proof (cases "get T (p_dev p)")
  case None
  then show ?thesis using run led by (simp add: reconcile_pair_def)
next
  case (Some dl)
  let ?dev = "p_dev p" and ?i = "l_index dl" and ?fs = "e_fs E"
  note pair = ledger_settled_pair [OF sure T _ Some]
  show ?thesis
  proof (cases "note_is_about ?fs (sy_store S) ?dev ?i")
    case True
    then show ?thesis by (rule pair [OF led _ run])
  next
    case False
    then obtain k where k: "recorded_index ?fs (sy_store S) ?dev = Some k" "k \<noteq> ?i"
      by (auto simp: note_is_about_def)
    have L: "ledger held base K ?fs (sy_store S, w)" using led by (simp add: ledger_at_def)
    show ?thesis
    proof (cases "\<not> apply_it \<or> sy_dry_run S")
      case True
      then have "settle_identity E T apply_it ?dev ?i S w = (False, say_reused ?dev S, w)"
        using k by (auto simp: settle_identity_def)
      then have "(S' = S \<or> S' = say_reused ?dev S) \<and> w' = w"
        using run Some by (auto simp: reconcile_pair_def split: option.splits)
      then show ?thesis using led by (auto simp: say_reused_def Let_def elim: ledger_at_like)
    next
      case acts: False
      define S1 where "S1 = forget_device ?dev True (with_store S (remove_note (locked ?fs (sy_store S) ?dev) ?dev))"
      have here: "(?dev, ?i) \<in> shown T" using Some by (simp add: shown_def)
      have settle: "settle_identity E T apply_it ?dev ?i S w = (True, S1, w)"
        using k acts no_rename [OF T L, of ?dev] by (simp add: settle_identity_def S1_def)
      have "ledger_at held base K ?fs T (locked ?fs (sy_store S) ?dev, w)"
        by (rule ledger_at_like [OF led]) (simp_all add: locked_def)
      moreover have "held w j \<subseteq> base j" if "(?dev, j) \<in> shown T" for j
        using ledgerD(6) [OF L, of ?dev j k] agreesD(2,5) [OF T] that here k recorded_claims by fastforce
      ultimately have "ledger_at held base K ?fs T (remove_note (locked ?fs (sy_store S) ?dev) ?dev, w)"
        by (rule ledger_drop_note)
      then have led1: "ledger_at held base K ?fs T (sy_store S1, w)"
        by (rule ledger_at_like) (simp_all add: S1_def)
      have "claims ?fs (sy_store S1) = claims ?fs (remove_note (locked ?fs (sy_store S) ?dev) ?dev)"
        by (rule claims_like) (simp_all add: S1_def)
      then have none: "recorded_index ?fs (sy_store S1) ?dev = None"
        using recorded_claims [of ?fs "sy_store S1" ?dev] claims_removed by (cases "recorded_index ?fs (sy_store S1) ?dev") auto
      then have "settle_identity E T apply_it ?dev ?i S1 w = (True, S1, w)" by (simp add: settle_identity_def)
      from settled_pair [OF Some settle this, of pfs fdb pass_at vf]
      have "S' = S \<and> w' = w \<or> reconcile_pair E T apply_it pfs fdb pass_at p vf S1 w = (r, S', w')" using run by auto
      moreover have "note_is_about ?fs (sy_store S1) ?dev ?i" using none by (simp add: note_is_about_def)
      ultimately show ?thesis using pair [OF led1] led by blast
    qed
  qed
qed

lemma ledger_pairs:
  "reconcile_pairs E T apply_it pfs fdb pass_at ps vf S w = (r, S', w') \<Longrightarrow> sure E held \<Longrightarrow> agrees K T
    \<Longrightarrow> ledger_at held base K (e_fs E) T (sy_store S, w) \<Longrightarrow> ledger_at held base K (e_fs E) T (sy_store S', w')"
proof (induction ps arbitrary: vf S w r)
  case (Cons p ps)
  obtain x S1 w1 where one: "reconcile_pair E T apply_it pfs fdb pass_at p vf S w = (x, S1, w1)" by (metis prod_cases3)
  note led = ledger_pair [OF Cons.prems(2-4) one]
  show ?case
  proof (cases x)
    case (Inl e)
    then show ?thesis using Cons.prems(1) one led by simp
  next
    case (Inr y)
    then obtain rep f1 vf1 where x: "x = Inr (rep, f1, vf1)" by (cases y) auto
    obtain r2 S2 w2 where rest: "reconcile_pairs E T apply_it pfs fdb pass_at ps vf1 S1 w1 = (r2, S2, w2)"
      by (metis prod_cases3)
    have eq: "S' = S2" "w' = w2" using Cons.prems(1) one x rest by (auto split: sum.splits prod.splits)
    show ?thesis using Cons.IH [OF rest [folded eq] Cons.prems(2,3) led] .
  qed
qed simp

text \<open>Nobody but the daemon puts anything of ours into a card: the rest of the world only ever takes away.\<close>

definition below :: "('w \<Rightarrow> ifindex \<Rightarrow> mac set) \<Rightarrow> (ifindex \<Rightarrow> mac set) \<Rightarrow> 'w \<Rightarrow> bool" where
  "below held h w \<longleftrightarrow> (\<forall>i. held w i \<subseteq> h i)"

lemma below_own [simp]: "below held (held w) w"
  by (simp add: below_def)

lemma ledger_at_below:
  assumes "ledger_at held base K fs T (s, w)" "below held (held w) w'"
  shows "ledger_at held base K fs T (s, w')"
  by (rule ledger_at_shrinks [OF assms(1)]) (use assms(2) in \<open>simp add: below_def\<close>)

lemma ledger_reconcile:
  assumes sure: "sure E held" and T: "agrees K T" and led: "ledger_at held base K (e_fs E) T (sy_store S, w)"
    and asks: "\<And>h. questions_keep (e_kernel E) (below held h)"
    and run: "reconcile E T apply_it S w = (r, S', w')"
  shows "ledger_at held base K (e_fs E) T (sy_store S', w')"
proof -
  have drop: "ledger_at held base K (e_fs E) T (sy_store X', v')"
    if "drop_orphans E T apply_it X v = (fails, X', v')" "ledger_at held base K (e_fs E) T (sy_store X, v)" for X v fails X' v'
  proof -
    obtain devs X1 v1 where o: "orphaned E X v = (devs, X1, v1)" by (metis prod_cases3)
    have "sy_store X1 = sy_store X" "below held (held v) v1"
      using o questions_keepD(6) [OF asks [of "held v"], of v]
      by (auto simp: orphaned_def Let_def split: if_splits prod.splits)
    then have "ledger_at held base K (e_fs E) T (sy_store X1, v1)" using ledger_at_below [OF that(2)] by simp
    moreover have "drop_orphan_list E T apply_it devs X1 v1 = (fails, X', v')" using that(1) by (simp add: drop_orphans_def o)
    ultimately show ?thesis using ledger_drop_list [OF _ sure T] by blast
  qed
  show ?thesis
  proof (cases "sy_pairs S = []")
    case True
    obtain fails S1 w1 where d: "drop_orphans E T apply_it S w = (fails, S1, w1)" by (metis prod_cases3)
    then show ?thesis using drop [OF d led] run True by (simp add: reconcile_def)
  next
    case False
    obtain x w1 where f: "k_dump_fdb (e_kernel E) w = (x, w1)" by fastforce
    have l1: "ledger_at held base K (e_fs E) T (sy_store S, w1)"
      by (rule ledger_at_below [OF led questions_keepD(1) [OF asks f below_own]])
    show ?thesis
    proof (cases x)
      case (Inl e)
      then show ?thesis using run False f l1 by (simp add: reconcile_def)
    next
      case (Inr fdb)
      let ?pfs = "live_pfs T (map p_dev (sy_pairs S))"
      obtain y S2 w2 where a: "ask_vfs E ?pfs S w1 = (y, S2, w2)" by (metis prod_cases3)
      have "sy_store S2 = sy_store S" "below held (held w1) w2"
        using a questions_keepD(3) [OF asks [of "held w1"], of ?pfs w1]
        by (auto simp: ask_vfs_def remember_vf_def split: option.splits sum.splits prod.splits)
      then have l2: "ledger_at held base K (e_fs E) T (sy_store S2, w2)" using ledger_at_below [OF l1] by simp
      show ?thesis
      proof (cases y)
        case (Inl e)
        then show ?thesis using run False f Inr a l2 by (simp add: reconcile_def)
      next
        case vf: (Inr vf)
        obtain now w3 where n: "k_boot_millis (e_kernel E) w2 = (now, w3)" by fastforce
        let ?S3 = "S2\<lparr>sy_last_pass_at := max now (sy_last_pass_at S2 + 1)\<rparr>"
        have l3: "ledger_at held base K (e_fs E) T (sy_store ?S3, w3)"
          using ledger_at_below [OF l2 questions_keepD(5) [OF asks n below_own]] by simp
        obtain fails S4 w4 where d: "drop_orphans E T apply_it ?S3 w3 = (fails, S4, w4)" by (metis prod_cases3)
        obtain z S5 w5 where q: "reconcile_pairs E T apply_it ?pfs fdb (max now (sy_last_pass_at S2 + 1)) (sy_pairs S4) vf S4 w4
            = (z, S5, w5)" by (metis prod_cases3)
        have "S' = S5 \<and> w' = w5"
          using run False f Inr a vf n d q by (auto simp: reconcile_def Let_def split: sum.splits prod.splits)
        then show ?thesis using ledger_pairs [OF q sure T drop [OF d l3]] by simp
      qed
    qed
  qed
qed

section \<open>The loop\<close>

lemma ledger_below:
  assumes "ledger held base K fs (s, w)" "below held (held w) w'"
  shows "ledger held base K fs (s, w')"
proof -
  have "held w' i \<subseteq> X" if "held w i \<subseteq> X" for i X using assms(2) that by (auto simp: below_def)
  then show ?thesis using assms(1) unfolding ledger_def by (simp; blast)
qed

lemma ledger_at_ledger: "ledger_at held base K fs T x \<Longrightarrow> ledger held base K fs x"
  by (simp add: ledger_at_def)

text \<open>
  A world the daemon can live in: the laws above; nothing but the daemon's own requests puts its entries
  into a card; and every reading agrees with \<open>K\<close> and leaves out only interfaces that hold nothing of ours,
  since a card's list dies with its interface.
\<close>

definition steady_world ::
    "'w world \<Rightarrow> ('w \<Rightarrow> ifindex \<Rightarrow> mac set) \<Rightarrow> (ifindex \<Rightarrow> mac set) \<Rightarrow> ident set \<Rightarrow> bool" where
  "steady_world W held base K \<longleftrightarrow>
     sure (wd_env W) held \<and> (\<forall>h. world_keeps W (below held h))
     \<and> (\<forall>w T v. wd_read_topology W w = (Inr T, v) \<longrightarrow>
          agrees K T \<and> (\<forall>d i. (d, i) \<in> K \<longrightarrow> (d, i) \<notin> shown T \<longrightarrow> held v i \<subseteq> base i))"

definition on_ledger ::
    "'w world \<Rightarrow> ('w \<Rightarrow> ifindex \<Rightarrow> mac set) \<Rightarrow> (ifindex \<Rightarrow> mac set) \<Rightarrow> ident set \<Rightarrow> syncer \<times> 'w \<Rightarrow> bool" where
  "on_ledger W held base K x \<longleftrightarrow>
     (steady_world W held base K \<longrightarrow> ledger held base K (e_fs (wd_env W)) (sy_store (fst x), snd x))"

lemma on_ledger_call:
  assumes "on_ledger W held base K (S, w)" "\<And>h. world_keeps W (below held h) \<Longrightarrow> below held h w \<Longrightarrow> below held h v"
  shows "on_ledger W held base K (S, v)"
  using assms(1) assms(2) [of "held w"] ledger_below unfolding on_ledger_def steady_world_def fst_conv snd_conv
  by (metis below_own)

text \<open>A reading turns the ledger into the ledger of that reading.\<close>

lemma ledger_read:
  assumes "steady_world W held base K" "ledger held base K (e_fs (wd_env W)) (s, w)" "wd_read_topology W w = (Inr T, v)"
  shows "agrees K T" "ledger_at held base K (e_fs (wd_env W)) T (s, v)"
proof -
  have K: "\<And>h. world_keeps W (below held h)" using assms(1) by (simp add: steady_world_def)
  have "below held (held w) v" by (rule world_keepsD(8) [OF K assms(3) below_own])
  then show "agrees K T" "ledger_at held base K (e_fs (wd_env W)) T (s, v)"
    using assms(1,3) ledger_below [OF assms(2)] unfolding steady_world_def ledger_at_def snd_conv by blast+
qed

lemma on_ledger_pass:
  assumes on: "on_ledger W held base K (S, w)" and run: "run_pass W opts S latest marks w = (ok, S', latest', marks', w')"
  shows "on_ledger W held base K (S', w')"
  unfolding on_ledger_def
proof
  assume st: "steady_world W held base K"
  then have led: "ledger held base K (e_fs (wd_env W)) (sy_store S, w)" using on by (simp add: on_ledger_def)
  have Kp: "\<And>h. world_keeps W (below held h)" and sure: "sure (wd_env W) held" using st by (simp_all add: steady_world_def)
  note Q = world_keepsD(1) [OF Kp]
  obtain t w1 where n: "wd_now W w = (t, w1)" by fastforce
  have l1: "ledger held base K (e_fs (wd_env W)) (sy_store S, w1)"
    by (rule ledger_below [OF led world_keepsD(2) [OF Kp n below_own]])
  obtain x w2 where x: "wd_read_topology W w1 = (x, w2)" by fastforce
  show "ledger held base K (e_fs (wd_env W)) (sy_store (fst (S', w')), snd (S', w'))"
  proof (cases x)
    case (Inl e)
    have "ledger held base K (e_fs (wd_env W)) (sy_store S, w2)"
      by (rule ledger_below [OF l1 world_keepsD(8) [OF Kp x below_own]])
    then show ?thesis using run by (simp add: run_pass_def n x Inl)
  next
    case (Inr T)
    note R = ledger_read [OF st l1 x [unfolded Inr]]
    obtain t' w3 where n': "wd_now W w2 = (t', w3)" by fastforce
    obtain S1 m1 where d: "(if o_pairs opts = [] then redetect T S marks else (S, marks)) = (S1, m1)" by fastforce
    have S1: "sy_store S1 = sy_store S" using d by (auto simp: redetect_def Let_def split: if_splits)
    obtain ls sd w4 where c: "collect_limits (e_kernel (wd_env W)) T (sy_max_macs_per_card S1)
        (filter_carriers (map p_dev (sy_pairs S1)) T) [] (lm_said_cards m1) w3 = (ls, sd, w4)" by (meson prod_cases3)
    obtain said S2 where a: "apply_card_limits (e_kernel (wd_env W)) T (o_max_macs_set opts) (lm_said_cards m1) S1 w3
        = (said, S2, w4)"
      by (cases "o_max_macs_set opts") (auto simp: apply_card_limits_def c)
    have S2: "sy_store S2 = sy_store S" using a S1 by (auto simp: apply_card_limits_def c split: if_splits)
    have "below held (held w2) w4"
      using collect_limits_world [OF Q c] world_keepsD(2) [OF Kp n' below_own] by blast
    then have l4: "ledger_at held base K (e_fs (wd_env W)) T (sy_store S2, w4)" using ledger_at_below [OF R(2)] S2 by simp
    obtain y S3 w5 where r: "reconcile (wd_env W) T True S2 w4 = (y, S3, w5)" by (meson prod_cases3)
    have "ledger_at held base K (e_fs (wd_env W)) T (sy_store S3, w5)" by (rule ledger_reconcile [OF sure R(1) l4 Q r])
    moreover have "S' = S3 \<and> w' = w5" using run by (simp add: run_pass_def n x Inr n' d a r Let_def)
    ultimately show ?thesis by (simp add: ledger_at_def)
  qed
qed

lemma quiet_fast_apply:
  assumes "\<not> has_kind RTM_NEWNEIGH evs" "fast_apply E T evs S w = (r, S', w')"
  shows "sy_store S' = sy_store S" "w' = w \<or> (\<exists>t. k_boot_millis (e_kernel E) w = (t, w'))"
  using assms by (auto simp: fast_apply_def Let_def split: if_splits prod.splits)

lemma on_ledger_batch:
  assumes on: "on_ledger W held base K (S, w)"
    and run: "handle_batch W S latest evs last_pass w = (buys, S', latest', w')"
  shows "on_ledger W held base K (S', w')"
  unfolding on_ledger_def
proof
  assume st: "steady_world W held base K"
  then have led: "ledger held base K (e_fs (wd_env W)) (sy_store S, w)" using on by (simp add: on_ledger_def)
  let ?L = "\<lambda>s w. ledger held base K (e_fs (wd_env W)) (s, w)"
  have Kp: "\<And>h. world_keeps W (below held h)" and sure: "sure (wd_env W) held" using st by (simp_all add: steady_world_def)
  have now: "?L s v" if "wd_now W u = (t, v)" "?L s u" for s u t v
    by (rule ledger_below [OF that(2) world_keepsD(2) [OF Kp that(1) below_own]])
  show "?L (sy_store (fst (S', w'))) (snd (S', w'))"
  proof (cases "ev_fdb evs = [] \<and> \<not> ev_links_changed evs")
    case True
    then show ?thesis using run led by (simp add: handle_batch_def)
  next
    case False
    obtain fresh w1 where b: "batch_reading W evs w = (fresh, w1)" by fastforce
    have w1: "?L (sy_store S) w1"
      and read: "\<And>T. fresh = Some T \<Longrightarrow> agrees K T \<and> ledger_at held base K (e_fs (wd_env W)) T (sy_store S, w1)"
    proof -
      obtain t u where n: "wd_now W w = (t, u)" by fastforce
      obtain x v where x: "wd_read_topology W u = (x, v)" by fastforce
      obtain t' v' where n': "wd_now W v = (t', v')" by fastforce
      note u = now [OF n led]
      have v: "?L (sy_store S) v" by (rule ledger_below [OF u world_keepsD(8) [OF Kp x below_own]])
      have "below held (held v) v'" by (rule world_keepsD(2) [OF Kp n' below_own])
      then show "?L (sy_store S) w1" "\<And>T. fresh = Some T \<Longrightarrow> agrees K T \<and> ledger_at held base K (e_fs (wd_env W)) T (sy_store S, w1)"
        using b led u v now [OF n' v] ledger_read [OF st u] ledger_at_below
        by (auto simp: batch_reading_def n x n' split: if_splits sum.splits)
    qed
    define S1 where "S1 = spend_answer evs latest fresh S"
    have S1: "sy_store S1 = sy_store S" by (simp add: S1_def spend_answer_def)
    define fast where "fast = (case (if needs_reading evs then fresh else latest) of
        Some T \<Rightarrow> (case fast_apply (wd_env W) T (ev_fdb evs) S1 w1 of
             (Inr v, S, w) \<Rightarrow> (max (if ev_links_changed evs then Now else Nothing) v, S, w)
           | (Inl _, S, w) \<Rightarrow> (Now, S, w))
      | None \<Rightarrow> (Now, S1, w1))"
    obtain u S2 w2 where f: "fast = (u, S2, w2)" by (metis prod_cases3)
    have w2: "?L (sy_store S2) w2"
    proof (cases "if needs_reading evs then fresh else latest")
      case None
      then show ?thesis using f w1 S1 by (simp add: fast_def)
    next
      case (Some T)
      obtain y S3 w3 where fa: "fast_apply (wd_env W) T (ev_fdb evs) S1 w1 = (y, S3, w3)" by (metis prod_cases3)
      have eq: "S2 = S3" "w2 = w3" using f Some fa by (auto simp: fast_def split: sum.splits)
      show ?thesis
      proof (cases "needs_reading evs")
        case True
        then have "agrees K T" "ledger_at held base K (e_fs (wd_env W)) T (sy_store S1, w1)" using read Some S1 by simp_all
        then show ?thesis using batch_ledger [OF sure _ _ fa] eq by (simp add: ledger_at_def)
      next
        case False
        then have none: "\<not> has_kind RTM_NEWNEIGH (ev_fdb evs)" by (simp add: needs_reading_def)
        have "below held (held w1) w3"
          using quiet_fast_apply(2) [OF none fa] questions_keepD(5) [OF world_keepsD(1) [OF Kp] _ below_own] by auto
        then show ?thesis using ledger_below [OF w1] quiet_fast_apply(1) [OF none fa] S1 eq by simp
      qed
    qed
    obtain t w4 where n: "wd_now W w2 = (t, w4)" by fastforce
    have "S' = S2 \<and> (w' = w2 \<or> w' = w4)"
      using run False f n
      unfolding handle_batch_def b Let_def prod.case S1_def [symmetric] fast_def [symmetric] by (auto split: if_splits)
    then show ?thesis using w2 now [OF n w2] by auto
  qed
qed

interpretation living: loop_law W opts "on_ledger W held base K" for W opts held base K
proof
  fix S S' w v w' t b ms r evs n latest latest' marks marks' ok batch last_pass buys
  let ?J = "on_ledger W held base K"
  show "?J (S, v)" if "?J (S, w)" "wd_now W w = (t, v)"
    by (rule on_ledger_call [OF that(1)]) (rule world_keepsD(2) [OF _ that(2)])
  show "?J (S, v)" if "?J (S, w)" "wd_stopping W w = (b, v)"
    by (rule on_ledger_call [OF that(1)]) (rule world_keepsD(3) [OF _ that(2)])
  show "?J (S, v)" if "?J (S, w)" "wd_resync_wanted W w = (b, v)"
    by (rule on_ledger_call [OF that(1)]) (rule world_keepsD(4) [OF _ that(2)])
  show "?J (S, v)" if "?J (S, w)" "wd_wait W ms w = (r, v)"
    by (rule on_ledger_call [OF that(1)]) (rule world_keepsD(5) [OF _ that(2)])
  show "?J (S, v)" if "?J (S, w)" "wd_recv_events W w = (evs, v)"
    by (rule on_ledger_call [OF that(1)]) (rule world_keepsD(6) [OF _ that(2)])
  show "?J (S, wd_pause W n w)" if "?J (S, w)"
    by (rule on_ledger_call [OF that]) (rule world_keepsD(7))
  show "?J (distrust S, w)" if "?J (S, w)" using that by (simp add: on_ledger_def distrust_def)
  show "?J (S', w')" if "?J (S, w)" "run_pass W opts S latest marks w = (ok, S', latest', marks', w')"
    by (rule on_ledger_pass [OF that])
  show "?J (S', w')" if "?J (S, w)" "handle_batch W S latest batch last_pass w = (buys, S', latest', w')"
    by (rule on_ledger_batch [OF that])
qed

section \<open>A world to live in\<close>

definition card_world :: "cards world" where
  "card_world =
     \<lparr>wd_env = cards_env, wd_stopping = (\<lambda>w. (False, w)), wd_resync_wanted = (\<lambda>w. (False, w)),
      wd_wait = (\<lambda>ms w. (Inr False, w)), wd_recv_events = (\<lambda>w. (Inr no_events, w)), wd_pause = (\<lambda>n w. w),
      wd_read_topology = (\<lambda>w. (Inr card_graph, w))\<rparr>"

definition card_names :: "ident set" where
  "card_names = {(''br0'', 1), (''eth0'', 2), (''tap0'', 3)}"

lemma card_agrees: "agrees card_names card_graph" "card_names \<subseteq> shown card_graph"
proof -
  have "t_by_name (fst (from_links sy infos facts)) = fold (\<lambda>l m. m(li_name l \<mapsto> li_index l)) infos Map.empty"
    for sy infos facts by (simp add: from_links_def assemble_def Let_def case_prod_beta)
  then have names: "t_by_name card_graph = Map.empty(''br0'' \<mapsto> 1, ''eth0'' \<mapsto> 2, ''tap0'' \<mapsto> 3)"
    by (simp add: card_graph_def card_dump_def bare_info_def)
  have "list_all (\<lambda>(i, l). l_index l = i \<and> (l_name l, i) \<in> card_names) (t_links card_graph)"
    by code_simp
  then have at: "l_index l = i \<and> (l_name l, i) \<in> card_names" if "at card_graph i = Some l" for i l
    using that by (auto simp: at_def list_all_iff dest: map_of_SomeD)
  then have "shown card_graph \<subseteq> card_names"
    by (fastforce simp: shown_def get_def names card_names_def split: option.splits if_splits)
  moreover have "inj_on snd card_names" by (simp add: card_names_def)
  ultimately show "agrees card_names card_graph" using at by (simp add: agrees_def)
  have "map_option l_index (get card_graph ''br0'') = Some 1" "map_option l_index (get card_graph ''eth0'') = Some 2"
    "map_option l_index (get card_graph ''tap0'') = Some 3" by code_simp+
  then show "card_names \<subseteq> shown card_graph" by (auto simp: shown_def card_names_def)
qed

lemma card_world_steady: "steady_world card_world cards_held base card_names"
proof -
  have "reading_is_harmless cards_kernel cards_held" by (simp add: reading_is_harmless_def cards_kernel_def)
  then have "sure cards_env cards_held"
    by (simp add: sure_def lawful_def cards_laws cards_harmless cards_honest kind_whole) (simp add: kind_fs_def)
  moreover have "world_keeps card_world (below cards_held h)" for h
    by (simp add: world_keeps_def questions_keep_def card_world_def cards_kernel_def below_def)
  ultimately show ?thesis
    using card_agrees by (auto simp: steady_world_def card_world_def)
qed

lemma empty_ledger:
  assumes "\<And>d i. (d, i) \<in> K \<Longrightarrow> held w i \<subseteq> base i"
  shows "ledger held base K fs (sy_store empty_note, w)"
proof -
  have "text_at (sy_store empty_note) d = []" for d
    by (simp add: empty_note_def text_at_def new_store_def disk_with_def file_at_def)
  moreover have "claims fs (sy_store empty_note) = {}"
    by (simp add: claims_def noted_index_def empty_note_def new_store_def disk_with_def file_at_def)
  moreover have "coherent (sy_store empty_note)" by (simp add: empty_note_def coherent_new_store)
  moreover have "held w i \<subseteq> base i \<union> note_of (sy_store empty_note) d" if "(d, i) \<in> K" for d i
    using assms that by blast
  ultimately show ?thesis by (simp add: ledger_def tidy_def)
qed

section \<open>The property\<close>

text \<open>C1: The daemon keeps its books for as long as it lives. From its start on, after any number of turns
  of the loop, whatever mixture of passes, batches, refused writes, failed readings, lost events, signals
  and orphaned notes they were made of, and while interfaces vanish and come back under their names with
  new indices: every entry in a card that is not somebody else's is on the note of the name that card's
  interface wears or wore. Relied on: the card does what it answers, nobody else writes the daemon's
  entries, a card's list dies with its interface, an index keeps its name, and the state directory takes
  whole lines and records.\<close>

theorem the_daemon_keeps_its_books:
  assumes "steady_world W held base K" and "ledger held base K (e_fs (wd_env W)) (sy_store S, w)"
    and "turns W opts (start_loop W S w) L" and "(dev, i) \<in> K"
  shows "held (lp_world L) i \<subseteq> base i \<union> note_of (sy_store (lp_syncer L)) dev"
proof -
  obtain t v where n: "wd_now W w = (t, v)" by fastforce
  have "on_ledger W held base K (S, w)" using assms(2) by (simp add: on_ledger_def)
  then have "on_ledger W held base K (S, v)" by (rule living.now [OF n])
  moreover have "loop_state (start_loop W S w) = (S, v)" by (simp add: start_loop_def n)
  ultimately have "on_ledger W held base K (loop_state L)" using living.turning [OF assms(3)] by simp
  then have "ledger held base K (e_fs (wd_env W)) (sy_store (lp_syncer L), lp_world L)"
    using assms(1) by (simp add: on_ledger_def)
  from ledgerD(5) [OF this assms(4)] show ?thesis by simp
qed

theorem the_daemon_keeps_its_books_witness:
  "\<exists>L. loop_step card_world default_options (start_loop card_world empty_note [(2, outsider)]) = Some L
     \<and> cards_held (lp_world L) 2 \<subseteq> {outsider} \<union> note_of (sy_store (lp_syncer L)) ''eth0''"
proof -
  let ?L = "start_loop card_world empty_note [(2, outsider)]"
  have "loop_step card_world default_options ?L \<noteq> None"
    unfolding loop_step_None by (simp add: card_world_def)
  then obtain L where L: "loop_step card_world default_options ?L = Some L" by blast
  have "turns card_world default_options ?L L" using turns.turn [OF turns.here L] .
  moreover have "ledger cards_held (\<lambda>_. {outsider}) card_names (e_fs (wd_env card_world)) (sy_store empty_note, [(2, outsider)])"
    by (rule empty_ledger) (auto simp: cards_held_def)
  moreover have "(''eth0'', 2) \<in> card_names" by (simp add: card_names_def)
  ultimately have "cards_held (lp_world L) 2 \<subseteq> {outsider} \<union> note_of (sy_store (lp_syncer L)) ''eth0''"
    using the_daemon_keeps_its_books [OF card_world_steady] by blast
  with L show ?thesis by blast
qed

section \<open>What the event path does not ask\<close>

text \<open>
  The note of \<^verbatim>\<open>eth0\<close> when it was interface 7: one address of ours, its index on file and remembered.
  Interface 7 is gone, and interface 2 wears the name in \<open>card_graph\<close>.
\<close>

definition departed :: syncer where
  "departed = card_syncer\<lparr>sy_store := (new_store
     \<lparr>dk_files = [(OwnedP ''eth0'', \<lparr>fl_text = line_of outsider, fl_ino = 1, fl_mtime = 0\<rparr>),
                  (IndexP ''eth0'', \<lparr>fl_text = ''7'' @ [NL], fl_ino = 2, fl_mtime = 0\<rparr>)],
       dk_next_ino = 3, dk_clock = 0, dk_now = 0\<rparr>)\<lparr>st_indices := [''eth0'' \<mapsto> 7]\<rparr>\<rparr>"

lemma pass_on_departed:
  "case settle_identity cards_env card_graph True ''eth0'' 2 departed [(2, outsider)] of (go, S, w) \<Rightarrow>
     go \<and> note_of (sy_store S) ''eth0'' = {} \<and> w = [(2, outsider)]"
proof -
  have "recorded_index kind_fs (sy_store departed) ''eth0'' = Some 7" by code_simp
  moreover have "renamed_target kind_fs card_graph ''eth0'' (sy_store departed) = None"
  proof -
    have digits: "trim (''7'' @ [NL]) = ''7''" by code_simp
    have "show_nat 7 = ''7''" by code_simp
    then have "parse_uint 32 ''7'' = Some 7" using parse_uint_show_nat [of 7 32] by simp
    moreover have "file_at (st_disk (sy_store departed)) (IndexP ''eth0'') = Some \<lparr>fl_text = ''7'' @ [NL], fl_ino = 2, fl_mtime = 0\<rparr>"
      by (simp add: departed_def file_at_def new_store_def)
    ultimately have "noted_index kind_fs (sy_store departed) ''eth0'' = Some 7"
      using digits by (simp add: noted_index_def kind_fs_def)
    moreover have "map_option l_index (at card_graph 7) = None" by code_simp
    ultimately show ?thesis by (simp add: renamed_target_def)
  qed
  moreover have "sy_dry_run departed = False" by code_simp
  ultimately show ?thesis
    by (simp add: settle_identity_def note_of_def text_at_def forget_device_def removed_file)
qed

lemma batch_on_departed:
  "case fast_apply cards_env card_graph [(RTM_NEWNEIGH, learnt_on 3 guest)] departed [(2, outsider)] of (r, S, w) \<Rightarrow>
     recorded_index kind_fs (sy_store S) ''eth0'' = Some 2 \<and> note_of (sy_store S) ''eth0'' = {guest, outsider}"
  by code_simp

text \<open>C39: The event path takes a departed interface's note over. Of a note whose recorded index is not that of
  the interface wearing the name, the pass lets go before it reads it: the entries went with the old
  interface, and what the new one holds is not ours. A batch that comes first asks nothing: it stamps the
  old note with the new index and appends to it, and the pass then believes it, an address somebody else
  put into the new interface among our own.\<close>

theorem a_batch_takes_over_a_departed_note:
  "recorded_index kind_fs (sy_store departed) ''eth0'' = Some 7
   \<and> map_option l_index (get card_graph ''eth0'') = Some 2
   \<and> (case settle_identity cards_env card_graph True ''eth0'' 2 departed [(2, outsider)] of (go, S, w) \<Rightarrow>
        go \<and> note_of (sy_store S) ''eth0'' = {} \<and> w = [(2, outsider)])
   \<and> (case fast_apply cards_env card_graph [(RTM_NEWNEIGH, learnt_on 3 guest)] departed [(2, outsider)] of (r, S, w) \<Rightarrow>
        settle_identity cards_env card_graph True ''eth0'' 2 S w = (True, S, w)
        \<and> note_of (sy_store S) ''eth0'' = {guest, outsider})"
proof -
  have "recorded_index kind_fs (sy_store departed) ''eth0'' = Some 7" by code_simp
  moreover have "map_option l_index (get card_graph ''eth0'') = Some 2" by code_simp
  ultimately show ?thesis
    using pass_on_departed batch_on_departed by (auto simp: settle_identity_def)
qed

end
