(* ===== verification/Spec2Isabelle.thy ===== *)
theory Spec2Isabelle
  imports Program Sysfs Hash Noise_Filter Card_Laws Socket_Laws Pass_Laws Sweep_Laws Fast_Laws Daemon_Laws
    Live_Laws Sent_Laws Life_Laws
begin

text \<open>
  sriov-mac-sync is a daemon that keeps the unicast filter of an SR-IOV uplink in step with what the
  bridge above it has learnt, so that guests behind the bridge are reachable past the card's embedded
  switch. It reads interfaces and forwarding tables over rtnetlink, decides which addresses each uplink
  should list, writes the difference into the card, and keeps a note per uplink in a state directory of
  every entry it put there, so that it never removes what somebody else added and never forgets what it
  added itself.

  \<^bold>\<open>Parts and how they meet.\<close> A reading of the interfaces (\<open>from_links\<close>) makes the graph. A pass
  (\<open>reconcile\<close>) takes a graph, a dump of the forwarding table and the note, decides what is wanted,
  puts in what is missing note first, takes out what is stale card first, and leaves behind what the
  event path needs. A batch of notifications (\<open>fast_apply\<close>) does the urgent part of that between
  passes. The loop (\<open>daemon_loop\<close>) says when either runs, in a \<open>World\<close> whose calls are the sockets,
  the clock and the signals. \<open>run\<close> sets all of it up, or one of the modes that end.

  \<^bold>\<open>Which theory models what\<close> (paths under \<^verbatim>\<open>src/\<close>).
  \<^item> \<open>Prelude\<close>, \<open>Text\<close>: machine integers, addresses, I/O errors; the standard library's splitting,
    trimming, number parsing and printing.
  \<^item> \<open>Netlink\<close> (\<^verbatim>\<open>src/netlink.rs\<close>): messages and attributes in byte lists, parsers, requests, event
    batches, what ends a dump. \<open>Socket\<close> (the same file): sending, receiving from the kernel only,
    deadlines, retries into a larger buffer, acknowledgements. \<open>Noise_Filter\<close> (the same file): the cBPF
    program of the subscription, instruction for instruction, and a machine for it.
  \<^item> \<open>Topology\<close> (\<^verbatim>\<open>src/topology.rs\<close>): interfaces by index, the worklist walks, reach and anatomy,
    autodetection, \<open>from_links\<close>. \<open>Sysfs\<close> (the same file): what \<open>/sys\<close> is asked, and \<open>load\<close>.
  \<^item> \<open>Notes\<close> (\<^verbatim>\<open>src/sync/notes.rs\<close>): the state directory as a list of files with inode, length and time,
    the remembered copies and when a stat lets them be believed, appends that may stop part way, writes
    through a rename, the memory of ports.
  \<^item> \<open>Decide\<close>, \<open>Card\<close>, \<open>Sweep\<close>, \<open>Reconcile\<close>, \<open>Fast_Path\<close> (\<^verbatim>\<open>src/sync/mod.rs\<close>): what is wanted; the card
    and the note together; orphans and flush; the pass; the batch. \<open>Syncer\<close> is the record \<open>syncer\<close>.
  \<^item> \<open>Drivers\<close> (\<^verbatim>\<open>src/drivers.rs\<close>), \<open>Daemon\<close> (\<^verbatim>\<open>src/daemon.rs\<close>): the driver table; schedule, passes,
    batches and the loop over the trait \<open>World\<close>, a record of functions.
  \<^item> \<open>Config\<close>, \<open>Program\<close> (\<^verbatim>\<open>src/main.rs\<close>): configuration file, command line, pairs; the modes that end
    and what they print.
  \<^item> \<open>Live\<close> (\<^verbatim>\<open>src/daemon.rs\<close>, \<^verbatim>\<open>src/main.rs\<close>, \<^verbatim>\<open>src/netlink.rs\<close>): the world as it is: sockets opened and
    bound, the signal handler and its pipe, \<open>--resync\<close>, the daemon's own mode and \<open>run\<close>.
  \<^item> \<open>Hash\<close> (\<^verbatim>\<open>src/hash.rs\<close>): the hash of the sets and maps, and its seed.

  \<^bold>\<open>What the laws show.\<close>
  \<^item> \<open>Wire\<close>: round trips of addresses, indices and requests, that a message is part of its datagram, how
    a dump ends. \<open>Noise_Filter\<close>: nothing the program would use is dropped.
  \<^item> \<open>Graph_Laws\<close>: the walks are reachability, the edges are each other's inverse.
  \<^item> \<open>Note_Laws\<close>: writes and appends keep exactly the addresses they should, and the one trimming that does
    not. \<open>Decide_Laws\<close>: exactly what is wanted, and what never is.
  \<^item> \<open>Card_Laws\<close>, \<open>Pass_Laws\<close>, \<open>Sweep_Laws\<close>, \<open>Fast_Laws\<close>: whatever the card and the file system refuse, what
    the card holds beyond others' entries is on the note; a pass reaches what it wants.
  \<^item> \<open>Look_Laws\<close>: a mode that is only to look writes nothing. \<open>Silent_Laws\<close> carries that through the sockets,
    the live world, the event path and the daemon's loop, and \<open>Sent_Laws\<close> says it of the datagrams sent by
    a whole run from the command line.
  \<^item> \<open>Socket_Laws\<close>: only the kernel is believed, and every question ends. \<open>Daemon_Laws\<close>: when passes run.
    \<open>Live_Laws\<close>: signals, the brake, \<open>--resync\<close>, limits.
  \<^item> \<open>Life_Laws\<close>: the books over the whole life of the daemon, passes and batches and the end of notes one
    after the other, while interfaces go and come back under their names; and the one way a note comes to
    stand for an interface it was never about.

  The interfaces are locales, interpreted on the model: \<open>codec\<close>, \<open>inverse_edges\<close>, \<open>note_op\<close> and its
  extension \<open>tidy_op\<close>, \<open>sweep_op\<close>, \<open>waiting\<close>; and, for what a whole operation keeps, \<open>record_drop\<close> and its
  extension \<open>record_law\<close> (every step a pass takes on the store), \<open>turn_law\<close> and \<open>batch_law\<close> (an uplink's
  turn in a batch, and the batch), \<open>loop_law\<close> (one turn of the daemon, and any number of them). Each of
  these is interpreted several times: for the books, for the record of the index, for looking only.

  \<^bold>\<open>Effects, errors, loops.\<close> State is passed explicitly; the world of the system calls is a type \<open>'w\<close> and
  every call a function returning a new one. Errors are values: \<open>Inl\<close> of a sum, or \<open>None\<close>. Loops over data
  are recursive functions; retries count down from the source's own bounds (\<open>ATTEMPTS\<close> questions into a
  growing buffer, \<open>DRAIN_CAP\<close> datagrams a batch), so there is no fuel of the model's own. Loops that
  only the outside ends (\<open>recv_flags\<close>, \<open>recv_deadline\<close>, \<open>drain\<close>, \<open>ack_loop\<close>, \<open>daemon_loop\<close>,
  \<open>live_pause\<close>, \<open>from_getrandom\<close>) are partial functions whose \<open>None\<close> is not returning, and
  \<open>every_question_returns\<close>, \<open>the_brake_ends\<close> and \<open>loop_runs_until_stopped\<close> say when they do. In \<open>Live\<close> a
  call that hangs leaves no world, and the loop in no world never ends.

  \<^bold>\<open>What is relied on,\<close> by name: \<open>card_laws\<close>, what \<open>RTM_NEWNEIGH\<close> and \<open>RTM_DELNEIGH\<close> do to an interface's
  own list; \<open>asking_is_harmless\<close>, \<open>reading_is_harmless\<close>, \<open>reads_only\<close>, that questions change no card;
  \<open>sends_recorded\<close>, that the two sockets, and nothing else, are how a request reaches the kernel;
  \<open>honest_order\<close>, that iterating a set visits each member once; \<open>whole_appends\<close>, a disk that does not
  cut an append short; \<open>lawful\<close>, all of these about one environment, \<open>sure\<close>, that besides the record of an
  index can be written, \<open>steady_world\<close>, that readings tell of interfaces whose index keeps its name and
  whose list ends with them; \<open>time_passes\<close>, \<open>clock_law\<close>, \<open>brake_law\<close>, clocks that advance. Each property that
  uses one has a witness on a concrete machine that satisfies it.

  \<^bold>\<open>Not modelled.\<close> Warnings on standard error beyond the marks that make them appear once; \<open>Timings\<close> and
  its report, which are measurements in floating point; the help text; creation of the state files' own
  permissions; what libc and the kernel do inside a call, which are the parameters above; writes by another
  process in the middle of an operation, other than between the two stats of \<open>with_owned_between\<close>;
  tests and packaging.
\<close>

end
